(* ===== verification/Batty_Prelude.thy ===== *)
theory Batty_Prelude
  imports Main "HOL-Library.Char_ord" "HOL-Library.List_Lexorder" "HOL-Library.Product_Lexorder"
    "HOL-Library.Word"
begin

text \<open>
  Shared vocabulary of the development: the Rust integer and string types, the \<open>str\<close>
  methods the sources call, ordered maps (\<open>BTreeMap\<close>), and the generic lemmas the component
  theories use.

  A Rust string is modelled by its UTF-8 bytes (\<open>string\<close> is a list of 8-bit characters), so
  \<open>length\<close> is \<open>str::len\<close>. The case and white-space tests are those of the ASCII range;
  white space outside ASCII is treated as an ordinary character.
\<close>

type_synonym u32 = "32 word"
type_synonym u64 = "64 word"

named_theorems batty_simps \<open>rewrite rules shared by the component proofs\<close>

section \<open>Options and lists\<close>

definition opt_or :: "'a option \<Rightarrow> 'a option \<Rightarrow> 'a option" where
  "opt_or a b = (case a of Some x \<Rightarrow> Some x | None \<Rightarrow> b)"

lemma opt_or_simps [simp]:
  "opt_or (Some x) b = Some x"
  "opt_or None b = b"
  "opt_or a None = a"
  by (auto simp: opt_or_def split: option.splits)

lemma opt_or_eq_None [simp]: "opt_or a b = None \<longleftrightarrow> a = None \<and> b = None"
  by (auto simp: opt_or_def split: option.splits)

definition opt_filter :: "('a \<Rightarrow> bool) \<Rightarrow> 'a option \<Rightarrow> 'a option" where
  "opt_filter P a = (case a of Some x \<Rightarrow> if P x then Some x else None | None \<Rightarrow> None)"

lemma opt_filter_Some [simp]: "opt_filter P a = Some x \<longleftrightarrow> a = Some x \<and> P x"
  by (auto simp: opt_filter_def split: option.splits)

lemma opt_filter_None [simp]: "opt_filter P None = None"
  by (simp add: opt_filter_def)

subsection \<open>Results\<close>

text \<open>A \<open>Result\<close> is a sum with the error on the left; the question-mark operator is
  \<open>res_bind\<close>.\<close>

fun res_bind :: "'e + 'a \<Rightarrow> ('a \<Rightarrow> 'e + 'b) \<Rightarrow> 'e + 'b" where
  "res_bind (Inl e) f = Inl e"
| "res_bind (Inr x) f = f x"

lemma res_bind_Inr [simp]: "res_bind r f = Inr y \<longleftrightarrow> (\<exists>x. r = Inr x \<and> f x = Inr y)"
  by (cases r) auto

lemma res_bind_Inl: "res_bind r f = Inl e \<longleftrightarrow> r = Inl e \<or> (\<exists>x. r = Inr x \<and> f x = Inl e)"
  by (cases r) auto

subsection \<open>Lists\<close>

text \<open>Consecutive duplicates removed, as \<open>Vec::dedup\<close> does.\<close>

fun dedup :: "'a list \<Rightarrow> 'a list" where
  "dedup (x # y # zs) = (if x = y then dedup (y # zs) else x # dedup (y # zs))"
| "dedup xs = xs"

lemma set_dedup [simp]: "set (dedup xs) = set xs"
  by (induction xs rule: dedup.induct) auto

lemma dedup_hd: "dedup (y # zs) = y # tl (dedup (y # zs))"
  by (induction zs arbitrary: y) auto

lemma sorted_dedup: "sorted (xs :: 'a::linorder list) \<Longrightarrow> sorted (dedup xs)"
  by (induction xs rule: dedup.induct) auto

lemma distinct_dedup: "sorted (xs :: 'a::linorder list) \<Longrightarrow> distinct (dedup xs)"
  by (induction xs rule: dedup.induct) (auto simp: order_le_less)

text \<open>A \<open>BTreeSet\<close> of the elements of a list, read in order.\<close>

definition btree_set :: "'a::linorder list \<Rightarrow> 'a list" where
  "btree_set xs = dedup (sort xs)"

lemma set_btree_set [simp]: "set (btree_set xs) = set xs"
  by (simp add: btree_set_def)

lemma btree_set_ordered: "sorted (btree_set xs) \<and> distinct (btree_set xs)"
  by (simp add: btree_set_def sorted_dedup distinct_dedup)

lemma btree_set_Nil [simp]: "btree_set [] = []"
  by (simp add: btree_set_def)

lemma btree_set_eq_Nil [simp]: "btree_set xs = [] \<longleftrightarrow> xs = []"
  by (metis set_btree_set set_empty)

lemma find_Some_iff_ex: "(\<exists>y. find P xs = Some y) \<longleftrightarrow> (\<exists>x \<in> set xs. P x)"
  by (induction xs) auto

lemma find_Some_in: "find P xs = Some x \<Longrightarrow> x \<in> set xs \<and> P x"
  by (induction xs) (auto split: if_splits)

lemma find_None_all: "find P xs = None \<longleftrightarrow> (\<forall>x \<in> set xs. \<not> P x)"
  by (induction xs) auto


lemma sorted_filter_map: "sorted (map f xs) \<Longrightarrow> sorted (map f (filter P xs))"
  by (induction xs) auto

lemma distinct_map_filter_key: "distinct (map f xs) \<Longrightarrow> distinct (map f (filter P xs))"
  by (induction xs) auto

text \<open>Every element of an option list, or \<open>None\<close>: \<open>Iterator::collect\<close> into an \<open>Option\<close>.\<close>

fun collect_opt :: "'a option list \<Rightarrow> 'a list option" where
  "collect_opt [] = Some []"
| "collect_opt (None # xs) = None"
| "collect_opt (Some x # xs) = map_option (Cons x) (collect_opt xs)"

lemma collect_opt_Some: "collect_opt xs = Some ys \<longleftrightarrow> xs = map Some ys"
  by (induction xs arbitrary: ys rule: collect_opt.induct) auto

text \<open>The \<open>enumerate\<close>d position of the first element with a property (\<open>Iterator::position\<close>).\<close>

fun position :: "('a \<Rightarrow> bool) \<Rightarrow> 'a list \<Rightarrow> nat option" where
  "position P [] = None"
| "position P (x # xs) = (if P x then Some 0 else map_option Suc (position P xs))"

lemma position_None [simp]: "position P xs = None \<longleftrightarrow> (\<forall>x \<in> set xs. \<not> P x)"
  by (induction xs) auto

lemma position_Some:
  "position P xs = Some i \<Longrightarrow> i < length xs \<and> P (xs ! i) \<and> (\<forall>j < i. \<not> P (xs ! j))"
proof (induction xs arbitrary: i)
  case (Cons x xs)
  show ?case
  proof (cases "P x")
    case False
    with Cons.prems obtain k where "position P xs = Some k" "i = Suc k" by auto
    with Cons.IH [of k] False show ?thesis by (auto simp: less_Suc_eq_0_disj)
  qed (use Cons.prems in auto)
qed simp

section \<open>Strings\<close>

definition digits :: string where "digits = ''0123456789''"

definition is_digit :: "char \<Rightarrow> bool" where "is_digit c = (c \<in> set digits)"

definition lower_letters :: string where "lower_letters = ''abcdefghijklmnopqrstuvwxyz''"
definition upper_letters :: string where "upper_letters = ''ABCDEFGHIJKLMNOPQRSTUVWXYZ''"

definition is_alpha :: "char \<Rightarrow> bool" where
  "is_alpha c = (c \<in> set lower_letters \<or> c \<in> set upper_letters)"

definition is_alnum :: "char \<Rightarrow> bool" where "is_alnum c = (is_alpha c \<or> is_digit c)"

definition lower_char :: "char \<Rightarrow> char" where
  "lower_char c = (case map_of (zip upper_letters lower_letters) c of Some d \<Rightarrow> d | None \<Rightarrow> c)"

definition lowercase :: "string \<Rightarrow> string" where "lowercase s = map lower_char s"

definition eq_ignore_case :: "string \<Rightarrow> string \<Rightarrow> bool" where
  "eq_ignore_case a b = (lowercase a = lowercase b)"

abbreviation newline :: char where "newline \<equiv> CHR 0x0A"
abbreviation carriage :: char where "carriage \<equiv> CHR 0x0D"
abbreviation tab_char :: char where "tab_char \<equiv> CHR 0x09"

definition is_ws :: "char \<Rightarrow> bool" where
  "is_ws c = (c \<in> {CHR 0x09, CHR 0x0A, CHR 0x0B, CHR 0x0C, CHR 0x0D, CHR '' ''})"

fun strip_prefix :: "string \<Rightarrow> string \<Rightarrow> string option" where
  "strip_prefix [] s = Some s"
| "strip_prefix (p # ps) [] = None"
| "strip_prefix (p # ps) (c # cs) = (if p = c then strip_prefix ps cs else None)"

definition strip_suffix :: "string \<Rightarrow> string \<Rightarrow> string option" where
  "strip_suffix p s = map_option rev (strip_prefix (rev p) (rev s))"

definition starts_with :: "string \<Rightarrow> string \<Rightarrow> bool" where
  "starts_with p s = (strip_prefix p s \<noteq> None)"

definition ends_with :: "string \<Rightarrow> string \<Rightarrow> bool" where
  "ends_with p s = (strip_suffix p s \<noteq> None)"

fun split_once :: "string \<Rightarrow> string \<Rightarrow> (string \<times> string) option" where
  "split_once pat [] = (if pat = [] then Some ([], []) else None)"
| "split_once pat (c # cs) =
     (case strip_prefix pat (c # cs) of
        Some rest \<Rightarrow> Some ([], rest)
      | None \<Rightarrow> map_option (\<lambda>(a, b). (c # a, b)) (split_once pat cs))"

definition str_find :: "string \<Rightarrow> string \<Rightarrow> nat option" where
  "str_find pat s = map_option (length \<circ> fst) (split_once pat s)"

definition contains :: "string \<Rightarrow> string \<Rightarrow> bool" where
  "contains pat s = (split_once pat s \<noteq> None)"

definition trim_start_by :: "(char \<Rightarrow> bool) \<Rightarrow> string \<Rightarrow> string" where
  "trim_start_by P s = dropWhile P s"
definition trim_end_by :: "(char \<Rightarrow> bool) \<Rightarrow> string \<Rightarrow> string" where
  "trim_end_by P s = rev (dropWhile P (rev s))"
definition trim_by :: "(char \<Rightarrow> bool) \<Rightarrow> string \<Rightarrow> string" where
  "trim_by P s = trim_end_by P (trim_start_by P s)"

abbreviation trim :: "string \<Rightarrow> string" where "trim \<equiv> trim_by is_ws"
abbreviation trim_start :: "string \<Rightarrow> string" where "trim_start \<equiv> trim_start_by is_ws"
abbreviation trim_end :: "string \<Rightarrow> string" where "trim_end \<equiv> trim_end_by is_ws"

text \<open>\<open>str::split\<close> at every character with a property: always at least one piece.\<close>

fun split_by :: "(char \<Rightarrow> bool) \<Rightarrow> string \<Rightarrow> string list" where
  "split_by P [] = [[]]"
| "split_by P (c # cs) =
     (if P c then [] # split_by P cs
      else case split_by P cs of [] \<Rightarrow> [[c]] | w # ws \<Rightarrow> (c # w) # ws)"

definition split_whitespace :: "string \<Rightarrow> string list" where
  "split_whitespace s = filter (\<lambda>w. w \<noteq> []) (split_by is_ws s)"

text \<open>\<open>str::lines\<close>: no last empty line, and a carriage return before the newline is dropped.\<close>

definition strip_cr :: "string \<Rightarrow> string" where
  "strip_cr l = (if l \<noteq> [] \<and> last l = carriage then butlast l else l)"

definition str_lines :: "string \<Rightarrow> string list" where
  "str_lines s =
     (let ls = split_by (\<lambda>c. c = newline) s
      in map strip_cr (butlast ls) @ (if last ls = [] then [] else [last ls]))"

fun join :: "string \<Rightarrow> string list \<Rightarrow> string" where
  "join sep [] = []"
| "join sep [s] = s"
| "join sep (s # t # ts) = s @ sep @ join sep (t # ts)"

definition replace_char :: "char \<Rightarrow> char \<Rightarrow> string \<Rightarrow> string" where
  "replace_char a b s = map (\<lambda>c. if c = a then b else c) s"

fun show_nat :: "nat \<Rightarrow> string" where
  "show_nat n = (if n < 10 then [digits ! n] else show_nat (n div 10) @ [digits ! (n mod 10)])"

declare show_nat.simps [simp del]

definition digit_val :: "char \<Rightarrow> nat option" where
  "digit_val c = map_of (zip digits [0..<10]) c"

fun push_digit :: "char \<Rightarrow> nat option \<Rightarrow> nat option" where
  "push_digit c None = None"
| "push_digit c (Some n) = map_option (\<lambda>d. 10 * n + d) (digit_val c)"

definition parse_digits :: "string \<Rightarrow> nat option" where
  "parse_digits s = (if s = [] then None else fold push_digit s (Some 0))"

text \<open>\<open>s.parse::<uN>()\<close>: an optional plus sign, at least one digit, and the value in range.\<close>

definition parse_uint :: "nat \<Rightarrow> string \<Rightarrow> nat option" where
  "parse_uint w s =
     opt_filter (\<lambda>n. int n < 2 ^ w)
       (parse_digits (case strip_prefix ''+'' s of Some r \<Rightarrow> r | None \<Rightarrow> s))"

abbreviation parse_u32 :: "string \<Rightarrow> nat option" where "parse_u32 \<equiv> parse_uint 32"
abbreviation parse_u64 :: "string \<Rightarrow> nat option" where "parse_u64 \<equiv> parse_uint 64"

text \<open>The components of a relative or absolute path (\<open>Path::components\<close>): empty parts and
  dots vanish, except a leading dot.\<close>

definition path_components :: "string \<Rightarrow> string list" where
  "path_components s =
     (let parts = split_by (\<lambda>c. c = CHR ''/'') s;
          top = (if starts_with ''/'' s then [''/''] else if hd parts = ''.'' then [''.''] else [])
      in top @ filter (\<lambda>p. p \<noteq> [] \<and> p \<noteq> ''.'') parts)"

subsection \<open>Lemmas on strings\<close>

lemma strip_prefix_Some: "strip_prefix p s = Some r \<longleftrightarrow> s = p @ r"
  by (induction p s rule: strip_prefix.induct) auto

lemma strip_prefix_append [simp]: "strip_prefix p (p @ r) = Some r"
  by (simp add: strip_prefix_Some)

lemma starts_with_iff: "starts_with p s \<longleftrightarrow> (\<exists>r. s = p @ r)"
  unfolding starts_with_def using strip_prefix_Some by (cases "strip_prefix p s") auto

lemma ends_with_iff: "ends_with p s \<longleftrightarrow> (\<exists>r. s = r @ p)"
proof -
  have "ends_with p s \<longleftrightarrow> (\<exists>r. rev s = rev p @ r)"
    unfolding ends_with_def strip_suffix_def using starts_with_iff [of "rev p" "rev s"]
    by (simp add: starts_with_def)
  also have "\<dots> \<longleftrightarrow> (\<exists>r. s = r @ p)"
    by (metis rev_append rev_rev_ident)
  finally show ?thesis .
qed

lemma split_once_append: "split_once pat s = Some (a, b) \<Longrightarrow> s = a @ pat @ b"
proof (induction s arbitrary: a b)
  case (Cons c cs)
  show ?case
  proof (cases "strip_prefix pat (c # cs)")
    case None
    with Cons.prems obtain a' where "split_once pat cs = Some (a', b)" "a = c # a'" by auto
    with Cons.IH show ?thesis by simp
  next
    case (Some rest)
    with Cons.prems strip_prefix_Some [of pat "c # cs" rest] show ?thesis by simp
  qed
qed (auto split: if_splits)

lemma split_once_None: "split_once pat s = None \<longleftrightarrow> (\<nexists>a b. s = a @ pat @ b)"
proof (induction s)
  case (Cons c cs)
  show ?case
  proof (cases "strip_prefix pat (c # cs)")
    case None
    then have no: "\<nexists>r. c # cs = pat @ r" using strip_prefix_Some by (metis option.distinct(1))
    have "(\<exists>a b. c # cs = a @ pat @ b) \<longleftrightarrow> (\<exists>a b. cs = a @ pat @ b)"
      using no by (metis Cons_eq_append_conv append_Cons append_Nil)
    with Cons.IH None show ?thesis by simp
  next
    case (Some rest)
    then have eq: "c # cs = [] @ pat @ rest" using strip_prefix_Some by auto
    have "split_once pat (c # cs) \<noteq> None" using Some by simp
    moreover have "\<exists>a b. c # cs = a @ pat @ b" using eq by blast
    ultimately show ?thesis by simp
  qed
qed auto

lemma contains_iff: "contains pat s \<longleftrightarrow> (\<exists>a b. s = a @ pat @ b)"
  unfolding contains_def using split_once_None [of pat s] by auto

text \<open>The first occurrence: a text without the separator, also across its end, splits there.\<close>

lemma split_once_first:
  assumes "\<And>u v. a @ pat = u @ pat @ v \<Longrightarrow> v = []" and "pat \<noteq> []"
  shows "split_once pat (a @ pat @ b) = Some (a, b)"
  using assms(1)
proof (induction a)
  case Nil
  with assms(2) show ?case by (cases pat) (simp_all add: strip_prefix_Some)
next
  case (Cons c a)
  have no: "strip_prefix pat (c # a @ pat @ b) = None"
  proof (rule ccontr)
    assume "strip_prefix pat (c # a @ pat @ b) \<noteq> None"
    then obtain r where r: "c # a @ pat @ b = pat @ r" using strip_prefix_Some by auto
    have "length pat \<le> length (c # a @ pat)" by simp
    with r have "\<exists>v. c # a @ pat = pat @ v"
      by (metis append_Cons append_assoc append_eq_append_conv_if append_eq_conv_conj)
    then obtain v where v: "(c # a) @ pat = [] @ pat @ v" by auto
    from Cons.prems [OF this] v show False by simp
  qed
  have "\<And>u v. a @ pat = u @ pat @ v \<Longrightarrow> v = []"
    using Cons.prems by (metis append_Cons)
  then show ?case using Cons.IH no by simp
qed

lemma int_less_power2 [simp]: "int n < 2 ^ w \<longleftrightarrow> n < 2 ^ w"
  by (metis of_nat_less_iff of_nat_numeral of_nat_power)

lemma parse_uint_bound: "parse_uint w s = Some n \<Longrightarrow> n < 2 ^ w"
  by (simp add: parse_uint_def)

lemma split_by_not_Nil [simp]: "split_by P s \<noteq> []"
  by (induction s) (auto split: list.splits)

lemma split_by_pieces: "w \<in> set (split_by P s) \<Longrightarrow> c \<in> set w \<Longrightarrow> \<not> P c \<and> c \<in> set s"
proof (induction s arbitrary: w)
  case (Cons d s)
  show ?case
  proof (cases "P d")
    case True
    with Cons show ?thesis by auto
  next
    case False
    obtain v vs where v: "split_by P s = v # vs" using split_by_not_Nil by (cases "split_by P s") blast+
    with Cons.prems(1) False have "w = d # v \<or> w \<in> set vs" by simp
    then show ?thesis
    proof
      assume "w = d # v"
      with Cons.prems(2) False Cons.IH [of v] v show ?thesis by auto
    next
      assume "w \<in> set vs"
      with Cons.prems(2) Cons.IH [of w] v show ?thesis by auto
    qed
  qed
qed simp

lemma split_by_free: "(\<forall>ch \<in> set s. \<not> P ch) \<Longrightarrow> split_by P s = [s]"
  by (induction s) auto

lemma split_by_first: "(\<forall>ch \<in> set s. \<not> P ch) \<Longrightarrow> P d \<Longrightarrow> split_by P (s @ d # t) = s # split_by P t"
  by (induction s) auto

lemma split_whitespace_words:
  "w \<in> set (split_whitespace s) \<Longrightarrow> w \<noteq> [] \<and> (\<forall>c \<in> set w. \<not> is_ws c)"
  unfolding split_whitespace_def using split_by_pieces by fastforce

lemma lower_char_idem [simp]: "lower_char (lower_char c) = lower_char c"
proof (cases "map_of (zip upper_letters lower_letters) c")
  case (Some d)
  then have "d \<in> set lower_letters" by (auto dest!: map_of_SomeD set_zip_rightD)
  moreover have "\<forall>d \<in> set lower_letters. map_of (zip upper_letters lower_letters) d = None"
    by code_simp
  ultimately have "map_of (zip upper_letters lower_letters) d = None" by blast
  with Some show ?thesis by (simp add: lower_char_def)
qed (simp add: lower_char_def)

lemma lowercase_idem [simp]: "lowercase (lowercase s) = lowercase s"
  by (simp add: lowercase_def)

lemma digit_val_digit: "n < 10 \<Longrightarrow> digit_val (digits ! n) = Some n"
  by (simp add: digit_val_def map_of_zip_nth digits_def)

lemma fold_digits_show: "fold push_digit (show_nat n) (Some 0) = Some n"
proof (induction n rule: show_nat.induct)
  case (1 n)
  show ?case
  proof (cases "n < 10")
    case False
    with 1 show ?thesis by (subst show_nat.simps) (simp add: digit_val_digit)
  qed (subst show_nat.simps, simp add: digit_val_digit)
qed

lemma show_nat_not_Nil [simp]: "show_nat n \<noteq> []"
  by (subst show_nat.simps) simp

lemma show_nat_digits: "c \<in> set (show_nat n) \<Longrightarrow> is_digit c"
proof (induction n rule: show_nat.induct)
  case (1 n)
  have d: "is_digit (digits ! k)" if "k < 10" for k
    using that by (simp add: is_digit_def digits_def nth_mem del: set_simps)
  show ?case
  proof (cases "n < 10")
    case True
    with 1(2) have "c = digits ! n" by (subst (asm) show_nat.simps) simp
    with True d show ?thesis by simp
  next
    case False
    with 1(2) have "c \<in> set (show_nat (n div 10)) \<or> c = digits ! (n mod 10)"
      by (subst (asm) show_nat.simps) auto
    with False d 1(1) show ?thesis by auto
  qed
qed

lemma parse_show_nat: "n < 2 ^ w \<Longrightarrow> parse_uint w (show_nat n) = Some n"
proof -
  assume n: "n < 2 ^ w"
  have "strip_prefix ''+'' (show_nat n) = None"
  proof (rule ccontr)
    assume "strip_prefix ''+'' (show_nat n) \<noteq> None"
    then obtain r where "show_nat n = ''+'' @ r" using strip_prefix_Some by auto
    then have "is_digit (CHR ''+'')" using show_nat_digits [of "CHR ''+''" n] by simp
    then show False by (simp add: is_digit_def digits_def)
  qed
  with n show ?thesis
    by (simp add: parse_uint_def parse_digits_def fold_digits_show)
qed

lemma show_nat_inj: "show_nat m = show_nat n \<longleftrightarrow> m = n"
  by (metis fold_digits_show option.inject)

end
