(* ===== verification/Workflow.thy ===== *)
theory Workflow
  imports Batty_Prelude
begin

text \<open>
  The workflow state machine (\<open>src/team/workflow.rs\<close>) and the data types of reviews it stores
  (\<open>src/team/review.rs\<close>): the seven task states, the table of legal transitions, the
  workflow metadata with its guarded transition.  The locale \<open>gated_machine\<close> is the contract
  that every guarded mover of a task state keeps; its lemmas say what a history of such moves
  can be.
\<close>

section \<open>Task states and workflow metadata\<close>

datatype task_state = Backlog | Todo | In_Progress | Review | Blocked | Done | Archived

datatype review_disposition = Approved | Changes_Requested | Rejected

datatype merge_disposition = Merge_Ready | Rework_Required | Discarded | Escalated

record review_state =
  reviewer :: string
  packet_ref :: "string option"
  disposition :: merge_disposition
  rs_notes :: "string option"
  reviewed_at :: "nat option"
  nudge_sent :: bool

record workflow_meta =
  wm_state :: task_state
  wm_execution_owner :: "string option"
  wm_review_owner :: "string option"
  wm_depends_on :: "nat list"
  wm_blocked_on :: "string option"
  wm_worktree_path :: "string option"
  wm_branch :: "string option"
  wm_commit :: "string option"
  wm_artifacts :: "string list"
  wm_review_disposition :: "review_disposition option"
  wm_review :: "review_state option"
  wm_next_action :: "string option"

text \<open>The \<open>Default\<close> values that the derive gives.\<close>

definition default_meta :: workflow_meta where
  "default_meta = \<lparr> wm_state = Backlog, wm_execution_owner = None, wm_review_owner = None,
     wm_depends_on = [], wm_blocked_on = None, wm_worktree_path = None, wm_branch = None,
     wm_commit = None, wm_artifacts = [], wm_review_disposition = None, wm_review = None,
     wm_next_action = None \<rparr>"

text \<open>The derived \<open>Debug\<close> text of a state.\<close>

fun state_debug :: "task_state \<Rightarrow> string" where
  "state_debug Backlog = ''Backlog''"
| "state_debug Todo = ''Todo''"
| "state_debug In_Progress = ''InProgress''"
| "state_debug Review = ''Review''"
| "state_debug Blocked = ''Blocked''"
| "state_debug Done = ''Done''"
| "state_debug Archived = ''Archived''"

fun transition_allowed :: "task_state \<Rightarrow> task_state \<Rightarrow> bool" where
  "transition_allowed Backlog Todo = True"
| "transition_allowed Backlog Archived = True"
| "transition_allowed Todo Backlog = True"
| "transition_allowed Todo In_Progress = True"
| "transition_allowed Todo Blocked = True"
| "transition_allowed Todo Archived = True"
| "transition_allowed In_Progress Todo = True"
| "transition_allowed In_Progress Review = True"
| "transition_allowed In_Progress Blocked = True"
| "transition_allowed Review In_Progress = True"
| "transition_allowed Review Blocked = True"
| "transition_allowed Review Done = True"
| "transition_allowed Review Archived = True"
| "transition_allowed Blocked Todo = True"
| "transition_allowed Blocked In_Progress = True"
| "transition_allowed Blocked Archived = True"
| "transition_allowed Done Archived = True"
| "transition_allowed _ _ = False"

definition can_transition :: "task_state \<Rightarrow> task_state \<Rightarrow> string + unit" where
  "can_transition src dst =
     (if src = dst then Inr ()
      else if transition_allowed src dst then Inr ()
      else Inl (''illegal task state transition: '' @ state_debug src @ '' -> '' @ state_debug dst))"

definition is_runnable :: "workflow_meta \<Rightarrow> nat set \<Rightarrow> bool" where
  "is_runnable meta done_tasks =
     (wm_state meta = Todo \<and> list_all (\<lambda>d. d \<in> done_tasks) (wm_depends_on meta))"

definition meta_transition :: "workflow_meta \<Rightarrow> task_state \<Rightarrow> string + workflow_meta" where
  "meta_transition meta dst =
     res_bind (can_transition (wm_state meta) dst) (\<lambda>_. Inr (meta\<lparr>wm_state := dst\<rparr>))"

section \<open>Legal moves\<close>

definition legal_move :: "task_state \<Rightarrow> task_state \<Rightarrow> bool" where
  "legal_move src dst = (can_transition src dst = Inr ())"

lemma legal_move_iff [simp]: "legal_move src dst \<longleftrightarrow> src = dst \<or> transition_allowed src dst"
  unfolding legal_move_def can_transition_def by simp

lemma can_transition_Inr: "can_transition src dst = Inr u \<longleftrightarrow> legal_move src dst"
  by (simp add: can_transition_def)

inductive_set reaches :: "(task_state \<times> task_state) set" where
  reaches_refl: "(s, s) \<in> reaches"
| reaches_step: "(s, t) \<in> reaches \<Longrightarrow> legal_move t u \<Longrightarrow> (s, u) \<in> reaches"

inductive_cases reaches_lastE: "(s, u) \<in> reaches"

lemma reaches_trans:
  assumes "(t, u) \<in> reaches" and "(s, t) \<in> reaches" shows "(s, u) \<in> reaches"
  using assms by (induction rule: reaches.induct) (auto intro: reaches.intros)

lemma reaches_move [intro]: "legal_move s t \<Longrightarrow> (s, t) \<in> reaches"
  using reaches.intros by blast

text \<open>A set of states that no legal move leaves.\<close>

lemma reaches_closed:
  assumes "(s, t) \<in> reaches" and "s \<in> S"
    and "\<And>a b. a \<in> S \<Longrightarrow> transition_allowed a b \<Longrightarrow> b \<in> S"
  shows "t \<in> S"
  using assms by (induction rule: reaches.induct) auto

section \<open>Histories of guarded moves\<close>

fun legal_history :: "task_state \<Rightarrow> task_state list \<Rightarrow> bool" where
  "legal_history s [] = True"
| "legal_history s (t # ts) = (legal_move s t \<and> legal_history t ts)"

fun run_moves :: "('m \<Rightarrow> task_state \<Rightarrow> 'e + 'm) \<Rightarrow> 'm \<Rightarrow> task_state list \<Rightarrow> 'e + 'm" where
  "run_moves mv m [] = Inr m"
| "run_moves mv m (t # ts) = res_bind (mv m t) (\<lambda>m'. run_moves mv m' ts)"

lemma legal_history_reaches:
  "legal_history s ts \<Longrightarrow> (s, last (s # ts)) \<in> reaches"
proof (induction ts arbitrary: s)
  case Nil
  then show ?case by (simp add: reaches_refl)
next
  case (Cons t ts)
  then have "(s, t) \<in> reaches" "(t, last (t # ts)) \<in> reaches" by auto
  then show ?case by (auto intro: reaches_trans)
qed

text \<open>Who enters \<open>Done\<close> or \<open>Review\<close> came from one place only.\<close>

lemma enters_done: "transition_allowed s Done \<longleftrightarrow> s = Review"
  by (cases s) auto

lemma enters_review: "transition_allowed s Review \<longleftrightarrow> s = In_Progress"
  by (cases s) auto

lemma history_visits:
  assumes "legal_history s ts" and "last (s # ts) = goal" and "s \<noteq> goal"
    and only: "\<And>a. transition_allowed a goal \<longleftrightarrow> a = via"
  shows "s = via \<or> (\<exists>us vs. ts = us @ via # vs \<and> last (via # vs) = goal)"
  using assms(1-3)
proof (induction ts arbitrary: s)
  case (Cons t ts)
  show ?case
  proof (cases "t = goal")
    case True
    with Cons.prems only show ?thesis by auto
  next
    case False
    with Cons.prems Cons.IH [of t]
    have "t = via \<or> (\<exists>us vs. ts = us @ via # vs \<and> last (via # vs) = goal)" by auto
    then show ?thesis
    proof
      assume "t = via"
      with Cons.prems have "t # ts = [] @ via # ts \<and> last (via # ts) = goal" by simp
      then show ?thesis by blast
    next
      assume "\<exists>us vs. ts = us @ via # vs \<and> last (via # vs) = goal"
      then show ?thesis by (metis append_Cons)
    qed
  qed
qed simp

lemma legal_history_append:
  "legal_history s (ts @ us) \<longleftrightarrow> legal_history s ts \<and> legal_history (last (s # ts)) us"
  by (induction ts arbitrary: s) auto

text \<open>From the start of the board to \<open>Done\<close>: first in progress, then in review.\<close>

lemma history_to_done:
  assumes "legal_history s ts" and "last (s # ts) = Done" and "s \<in> {Backlog, Todo, Blocked}"
  shows "\<exists>us vs ws. ts = us @ In_Progress # vs @ Review # ws"
proof -
  from history_visits [OF assms(1,2) _ enters_done] assms(3)
  obtain us ws where ts: "ts = us @ Review # ws" by auto
  with assms(1) have "legal_history s (us @ [Review])" by (auto simp: legal_history_append)
  from history_visits [OF this _ _ enters_review] assms(3)
  obtain xs ys where xs: "us @ [Review] = xs @ In_Progress # ys" "last (In_Progress # ys) = Review"
    by auto
  then have "ys \<noteq> []" by auto
  with xs have "us @ [Review] = (xs @ In_Progress # butlast ys) @ [Review]"
    using append_butlast_last_id [of ys] by (auto split: if_splits)
  then have "us = xs @ In_Progress # butlast ys" by (simp only: append1_eq_conv)
  with ts have "ts = xs @ In_Progress # butlast ys @ Review # ws" by simp
  then show ?thesis by blast
qed

section \<open>The contract of a guarded mover\<close>

locale gated_machine =
  fixes state_of :: "'m \<Rightarrow> task_state option" and mv :: "'m \<Rightarrow> task_state \<Rightarrow> 'e + 'm"
  assumes move_state: "state_of m = Some s \<Longrightarrow> mv m t = Inr m' \<Longrightarrow> state_of m' = Some t"
    and move_legal: "state_of m = Some s \<Longrightarrow> mv m t = Inr m' \<Longrightarrow> legal_move s t"
begin

lemma run_is_history:
  assumes "run_moves mv m ts = Inr m'" and "state_of m = Some s"
  shows "legal_history s ts \<and> state_of m' = Some (last (s # ts))"
  using assms
proof (induction ts arbitrary: m s)
  case (Cons t ts)
  then obtain m1 where m1: "mv m t = Inr m1" "run_moves mv m1 ts = Inr m'" by auto
  with Cons.IH [OF m1(2) move_state [OF Cons.prems(2) m1(1)]] move_legal [OF Cons.prems(2) m1(1)]
  show ?case by auto
qed simp

lemma run_to_done:
  assumes "run_moves mv m ts = Inr m'" and "state_of m' = Some Done"
    and "state_of m = Some s" and "s \<in> {Backlog, Todo, Blocked}"
  shows "\<exists>us vs ws. ts = us @ In_Progress # vs @ Review # ws"
  using run_is_history [OF assms(1,3)] assms(2,4) history_to_done by auto

lemma run_from_closed:
  assumes "run_moves mv m ts = Inr m'" and "state_of m = Some s" and "s \<in> {Done, Archived}"
  shows "\<exists>t \<in> {Done, Archived}. state_of m' = Some t"
proof -
  from run_is_history [OF assms(1,2)] legal_history_reaches
  have "(s, last (s # ts)) \<in> reaches" "state_of m' = Some (last (s # ts))" by auto
  moreover have "last (s # ts) \<in> {Done, Archived}"
  proof (rule reaches_closed [OF calculation(1) assms(3)])
    fix a b show "a \<in> {Done, Archived} \<Longrightarrow> transition_allowed a b \<Longrightarrow> b \<in> {Done, Archived}"
      by (cases a; cases b) auto
  qed
  ultimately show ?thesis by auto
qed

end

interpretation meta_gate: gated_machine "\<lambda>m. Some (wm_state m)" meta_transition
  by unfold_locales (auto simp: meta_transition_def can_transition_Inr)

section \<open>Properties\<close>

text \<open>
  C9. The workflow keeps its review gate: every history of successful
  \<open>WorkflowMeta::transition\<close> calls that starts in backlog, todo or blocked and ends in done
  went through in-progress and, after that, through review.
\<close>

theorem done_only_after_review:
  assumes "run_moves meta_transition m ts = Inr m'" and "wm_state m' = Done"
    and "wm_state m \<in> {Backlog, Todo, Blocked}"
  shows "\<exists>us vs ws. ts = us @ In_Progress # vs @ Review # ws"
  using meta_gate.run_to_done [OF assms(1)] assms(2,3) by simp

theorem done_only_after_review_witness:
  "\<exists>us vs ws. [Todo, In_Progress, Review, Done] = us @ In_Progress # vs @ Review # ws"
  by (rule done_only_after_review [of default_meta _ "default_meta\<lparr>wm_state := Done\<rparr>"])
    (simp_all add: meta_transition_def can_transition_def default_meta_def)

text \<open>
  C22. Which states the workflow can reach from which: every state that is not closed reaches
  every state; a done task can only become archived; an archived task stays archived.
\<close>

theorem workflow_reachability:
  "((s, t) \<in> reaches) =
     (case s of Archived \<Rightarrow> t = Archived | Done \<Rightarrow> t \<in> {Done, Archived} | _ \<Rightarrow> True)"
proof (cases "s \<in> {Done, Archived}")
  case True
  have "t \<in> {Done, Archived} \<and> (s = Archived \<longrightarrow> t = Archived)" if "(s, t) \<in> reaches"
  proof -
    have "t \<in> (if s = Archived then {Archived} else {Done, Archived})"
    proof (rule reaches_closed [OF that])
      fix a b
      show "a \<in> (if s = Archived then {Archived} else {Done, Archived}) \<Longrightarrow> transition_allowed a b
        \<Longrightarrow> b \<in> (if s = Archived then {Archived} else {Done, Archived})"
        using True by (cases a; cases b) (auto split: if_splits)
    qed (use True in auto)
    then show ?thesis by (auto split: if_splits)
  qed
  moreover have "(Done, Archived) \<in> reaches" by auto
  ultimately show ?thesis using True reaches_refl by auto
next
  case False
  have base: "(Backlog, Todo) \<in> reaches" "(Todo, Backlog) \<in> reaches" "(Todo, In_Progress) \<in> reaches"
    "(In_Progress, Todo) \<in> reaches" "(In_Progress, Review) \<in> reaches" "(Review, In_Progress) \<in> reaches"
    "(Todo, Blocked) \<in> reaches" "(Blocked, Todo) \<in> reaches" "(Review, Done) \<in> reaches"
    "(Done, Archived) \<in> reaches" by auto
  have up: "(s, Todo) \<in> reaches" using False base by (cases s) (blast intro: reaches_trans reaches_refl)+
  have down: "(Todo, t) \<in> reaches" using base by (cases t) (blast intro: reaches_trans reaches_refl)+
  from False reaches_trans [OF down up] show ?thesis by (auto split: task_state.split)
qed

end
