(* ===== verification/Task_Model.thy ===== *)
theory Task_Model
  imports Batty_Prelude "HOL-Library.Monad_Syntax"
begin

text \<open>
  The task board's data (\<open>src/task/mod.rs\<close>): a task file is YAML front matter between two
  \<open>---\<close> lines and a Markdown body.  This theory models the splitting and rendering of such a
  file, the deserialisation of the front matter into a \<open>Task\<close>, the repair of legacy front
  matter that every read performs, the file hints of a task and the look-up of task files in
  the board directory.

  The YAML, TOML and time libraries are third-party code: they are the fields of the record
  \<open>libs\<close>, an argument of the definitions that call them.  A YAML mapping is a map from its
  string keys; the order of the keys is seen by the YAML printer alone.
\<close>

section \<open>YAML values and the libraries\<close>

datatype yaml = YNull | YBool bool | YNum int | YReal string | YStr string
  | YSeq "yaml list" | YMap "(yaml \<times> yaml) list"

type_synonym ymapping = "string \<rightharpoonup> yaml"

text \<open>A time stamp with its offset: seconds since the epoch and seconds east of UTC.\<close>

type_synonym datetime = "int \<times> int"

datatype policy_level = Observe | Suggest | Act

record task_batty_config =
  bc_agent :: "string option"
  bc_policy :: "policy_level option"
  bc_dod :: "string option"
  bc_max_retries :: "nat option"

record libs =
  yaml_parse :: "string \<Rightarrow> ymapping option"
  yaml_print :: "ymapping \<Rightarrow> string option"
  scalar_text :: "yaml \<Rightarrow> string"
  toml_config :: "string \<Rightarrow> task_batty_config option"
  rfc3339_parse :: "string \<Rightarrow> datetime option"
  rfc3339_print :: "datetime \<Rightarrow> string"
  datetime_add :: "int \<Rightarrow> int \<Rightarrow> int option"
  cron_valid :: "string \<Rightarrow> bool"

datatype task_error =
    MissingFrontmatter
  | UnclosedFrontmatter
  | BadYaml
  | Unserializable
  | TaskNotFound nat

fun as_str :: "yaml \<Rightarrow> string option" where
  "as_str (YStr s) = Some s"
| "as_str _ = None"

definition get_str :: "ymapping \<Rightarrow> string \<Rightarrow> string option" where
  "get_str m k = Option.bind (m k) as_str"

section \<open>Splitting and rendering a task file\<close>

definition fence :: string where "fence = ''---''"
definition closing_fence :: string where "closing_fence = newline # fence"

definition strip_newline :: "string \<Rightarrow> string" where
  "strip_newline s = (case strip_prefix [newline] s of Some r \<Rightarrow> r | None \<Rightarrow> s)"

definition split_frontmatter :: "string \<Rightarrow> task_error + (string \<times> string)" where
  "split_frontmatter content =
     (case strip_prefix fence (trim_start content) of
        None \<Rightarrow> Inl MissingFrontmatter
      | Some after_open \<Rightarrow>
          (case split_once closing_fence (strip_newline after_open) of
             None \<Rightarrow> Inl UnclosedFrontmatter
           | Some (frontmatter, body) \<Rightarrow> Inr (frontmatter, strip_newline body)))"

definition end_line :: "string \<Rightarrow> string" where
  "end_line s = (if ends_with [newline] s then s else s @ [newline])"

definition drop_document_start :: "string \<Rightarrow> string" where
  "drop_document_start s =
     (case strip_prefix (fence @ [newline]) s of Some r \<Rightarrow> r | None \<Rightarrow> s)"

definition render_text :: "string \<Rightarrow> string \<Rightarrow> string" where
  "render_text rendered body =
     end_line (fence @ [newline] @ drop_document_start rendered) @ fence @ [newline] @ body"

definition render_frontmatter_content :: "libs \<Rightarrow> ymapping \<Rightarrow> string \<Rightarrow> task_error + string" where
  "render_frontmatter_content L m body =
     (case yaml_print L m of
        None \<Rightarrow> Inl Unserializable
      | Some rendered \<Rightarrow> Inr (render_text rendered body))"

section \<open>The helpers on mappings\<close>

definition clear_blocked :: "ymapping \<Rightarrow> ymapping" where
  "clear_blocked m = m(''blocked'' := None, ''block_reason'' := None, ''blocked_on'' := None)"

definition set_optional_string :: "ymapping \<Rightarrow> string \<Rightarrow> string option \<Rightarrow> ymapping" where
  "set_optional_string m k v = m(k := map_option YStr v)"

definition set_blocked_reason :: "ymapping \<Rightarrow> string option \<Rightarrow> string option \<Rightarrow> ymapping" where
  "set_blocked_reason m reason blocked_on =
     (if reason = None \<and> blocked_on = None then clear_blocked m
      else set_optional_string
             (set_optional_string (m(''blocked'' \<mapsto> YBool True)) ''block_reason'' reason)
             ''blocked_on'' (opt_or blocked_on reason))"

section \<open>Time stamps\<close>

definition legacy_offset_candidate :: "string \<Rightarrow> string option" where
  "legacy_offset_candidate value =
     (let trimmed = trim value in
      if length trimmed < 5 then None
      else let suffix = drop (length trimmed - 5) trimmed in
        if \<not> (starts_with ''+'' suffix \<or> starts_with ''-'' suffix) then None
        else if \<not> list_all is_digit (tl suffix) then None
        else Some (take (length trimmed - 2) trimmed @ '':'' @ drop (length trimmed - 2) trimmed))"

definition normalize_legacy_timestamp_value :: "libs \<Rightarrow> string \<Rightarrow> string option" where
  "normalize_legacy_timestamp_value L value =
     (let trimmed = trim value in
      if trimmed = [] \<or> rfc3339_parse L trimmed \<noteq> None then None
      else Option.bind (legacy_offset_candidate trimmed)
             (\<lambda>candidate. map_option (rfc3339_print L) (rfc3339_parse L candidate)))"

definition parse_frontmatter_timestamp :: "libs \<Rightarrow> string \<Rightarrow> datetime option" where
  "parse_frontmatter_timestamp L value =
     (let trimmed = trim value in
      opt_or (rfc3339_parse L trimmed)
        (Option.bind (normalize_legacy_timestamp_value L trimmed) (rfc3339_parse L)))"

definition parse_frontmatter_timestamp_compat :: "libs \<Rightarrow> string \<Rightarrow> int option" where
  "parse_frontmatter_timestamp_compat L value =
     map_option fst (parse_frontmatter_timestamp L value)"

definition compat_timestamp_fields :: "string list" where
  "compat_timestamp_fields =
     [''created'', ''started'', ''updated'', ''completed'', ''claimed_at'', ''claim_expires_at'',
      ''last_progress_at'', ''claim_warning_sent_at'', ''scheduled_for'', ''cron_last_run'',
      ''reviewed_at'']"

text \<open>One round of the loop over the fields: the mapping and the fields repaired so far.\<close>

definition repair_timestamp :: "libs \<Rightarrow> string \<Rightarrow> ymapping \<times> string list \<Rightarrow> ymapping \<times> string list" where
  "repair_timestamp L field = (\<lambda>(m, repaired).
     case get_str m field of
       None \<Rightarrow> (m, repaired)
     | Some raw \<Rightarrow>
         (case normalize_legacy_timestamp_value L raw of
            None \<Rightarrow> (m, repaired)
          | Some normalized \<Rightarrow>
              if raw = normalized then (m, repaired)
              else (m(field \<mapsto> YStr normalized), repaired @ [field])))"

definition normalize_timestamp_frontmatter_fields ::
  "libs \<Rightarrow> ymapping \<Rightarrow> ymapping \<times> string list" where
  "normalize_timestamp_frontmatter_fields L m =
     fold (repair_timestamp L) compat_timestamp_fields (m, [])"

section \<open>Repair of legacy front matter\<close>

record compat_repair =
  repaired_fields :: "string list"
  repair_blocked_reason :: "string option"

definition hidden_string_block :: "ymapping \<Rightarrow> bool" where
  "hidden_string_block m = (case m ''blocked'' of Some (YStr s) \<Rightarrow> trim s \<noteq> [] | _ \<Rightarrow> False)"

definition legacy_reason :: "ymapping \<Rightarrow> string option" where
  "legacy_reason m =
     (let fallback = opt_or (get_str m ''block_reason'') (get_str m ''blocked_on'') in
      case m ''blocked'' of
        Some (YStr s) \<Rightarrow> if trim s \<noteq> [] then Some s else fallback
      | Some (YBool False) \<Rightarrow> None
      | _ \<Rightarrow> fallback)"

definition desired_blocked_on :: "ymapping \<Rightarrow> string option" where
  "desired_blocked_on m = opt_or (get_str m ''blocked_on'') (legacy_reason m)"

definition block_fields_differ :: "ymapping \<Rightarrow> bool" where
  "block_fields_differ m =
     (get_str m ''block_reason'' \<noteq> legacy_reason m \<or> get_str m ''blocked_on'' \<noteq> desired_blocked_on m)"

definition rewrites_incomplete_blocked_task :: "ymapping \<Rightarrow> bool" where
  "rewrites_incomplete_blocked_task m =
     (get_str m ''status'' = Some ''blocked'' \<and> legacy_reason m \<noteq> None
      \<and> (m ''blocked'' \<noteq> Some (YBool True) \<or> block_fields_differ m))"

definition rewrites_incomplete_bool_shape :: "ymapping \<Rightarrow> bool" where
  "rewrites_incomplete_bool_shape m = (m ''blocked'' = Some (YBool True) \<and> block_fields_differ m)"

definition rewrites_block :: "ymapping \<Rightarrow> bool" where
  "rewrites_block m =
     (hidden_string_block m \<or> rewrites_incomplete_blocked_task m \<or> rewrites_incomplete_bool_shape m)"

definition normalize_mapping :: "libs \<Rightarrow> ymapping \<Rightarrow> (ymapping \<times> compat_repair) option" where
  "normalize_mapping L m0 =
     (let (m, repaired) = normalize_timestamp_frontmatter_fields L m0 in
      if \<not> rewrites_block m \<and> repaired = [] then None
      else
        let fields = (if rewrites_block m then repaired @ [''blocked'', ''block_reason'', ''blocked_on'']
                      else repaired);
            m' = (if rewrites_block m then set_blocked_reason m (legacy_reason m) (desired_blocked_on m)
                  else m)
        in Some (m', \<lparr> repaired_fields = dedup (sort fields),
                       repair_blocked_reason = legacy_reason m \<rparr>))"

definition normalize_task_frontmatter_content ::
  "libs \<Rightarrow> string \<Rightarrow> task_error + (string \<times> compat_repair) option" where
  "normalize_task_frontmatter_content L content =
     res_bind (split_frontmatter content) (\<lambda>(frontmatter, body).
       case yaml_parse L frontmatter of
         None \<Rightarrow> Inl BadYaml
       | Some m \<Rightarrow>
           (case normalize_mapping L m of
              None \<Rightarrow> Inr None
            | Some (m', rep) \<Rightarrow>
                res_bind (render_frontmatter_content L m' body) (\<lambda>updated. Inr (Some (updated, rep)))))"

section \<open>Deserialising a task\<close>

record task =
  t_id :: nat
  t_title :: string
  t_status :: string
  t_priority :: string
  t_assignee :: "string option"
  t_claimed_by :: "string option"
  t_claimed_at :: "string option"
  t_claim_ttl_secs :: "nat option"
  t_claim_expires_at :: "string option"
  t_last_progress_at :: "string option"
  t_claim_warning_sent_at :: "string option"
  t_claim_extensions :: "nat option"
  t_last_output_bytes :: "nat option"
  t_blocked :: "string option"
  t_tags :: "string list"
  t_depends_on :: "nat list"
  t_review_owner :: "string option"
  t_blocked_on :: "string option"
  t_worktree_path :: "string option"
  t_branch :: "string option"
  t_commit :: "string option"
  t_artifacts :: "string list"
  t_next_action :: "string option"
  t_scheduled_for :: "string option"
  t_cron_schedule :: "string option"
  t_cron_last_run :: "string option"
  t_completed :: "string option"
  t_description :: string
  t_batty_config :: "task_batty_config option"
  t_source_path :: string

text \<open>
  The readers that \<open>serde\<close> derives for the types of the front matter: a text field takes the
  text of any scalar, a number must be a number in the range of its type, an optional field
  is absent when it is missing or null, a list field defaults to the empty list.

  The readers work on the value of a scalar, \<open>serde_yaml\<close> on its text: for a text field whose
  scalar is not written the way its value is printed (\<open>title: 1.10\<close>, \<open>priority: ~\<close>, an empty
  \<open>priority:\<close>) the program reads the text as it stands (\<open>1.10\<close>, \<open>~\<close>, the empty text), until a
  repair or an edit reprints the value (\<open>1.1\<close>, \<open>null\<close>).  Such front matter is outside the model;
  quoted strings and plain words, which every command here writes, are inside.
\<close>

fun de_string :: "libs \<Rightarrow> yaml \<Rightarrow> string option" where
  "de_string L (YStr s) = Some s"
| "de_string L (YSeq xs) = None"
| "de_string L (YMap kvs) = None"
| "de_string L v = Some (scalar_text L v)"

fun de_uint :: "nat \<Rightarrow> yaml \<Rightarrow> nat option" where
  "de_uint w (YNum n) = (if 0 \<le> n \<and> n < 2 ^ w then Some (nat n) else None)"
| "de_uint w _ = None"

fun de_bool :: "yaml \<Rightarrow> bool option" where
  "de_bool (YBool b) = Some b"
| "de_bool _ = None"

fun de_seq :: "(yaml \<Rightarrow> 'a option) \<Rightarrow> yaml \<Rightarrow> 'a list option" where
  "de_seq d (YSeq xs) = collect_opt (map d xs)"
| "de_seq d _ = None"

text \<open>A string is the reason itself, true stands for the reason \<open>blocked\<close>, false for none.\<close>

fun deserialize_blocked_field :: "yaml option \<Rightarrow> string option option" where
  "deserialize_blocked_field None = Some None"
| "deserialize_blocked_field (Some YNull) = Some None"
| "deserialize_blocked_field (Some (YStr s)) = Some (Some s)"
| "deserialize_blocked_field (Some (YBool b)) = Some (if b then Some ''blocked'' else None)"
| "deserialize_blocked_field (Some v) = None"

definition field_opt :: "(yaml \<Rightarrow> 'a option) \<Rightarrow> ymapping \<Rightarrow> string \<Rightarrow> 'a option option" where
  "field_opt d m k =
     (case m k of None \<Rightarrow> Some None | Some YNull \<Rightarrow> Some None | Some v \<Rightarrow> map_option Some (d v))"

definition field_req :: "(yaml \<Rightarrow> 'a option) \<Rightarrow> ymapping \<Rightarrow> string \<Rightarrow> 'a option" where
  "field_req d m k = Option.bind (m k) d"

definition field_default :: "'a \<Rightarrow> (yaml \<Rightarrow> 'a option) \<Rightarrow> ymapping \<Rightarrow> string \<Rightarrow> 'a option" where
  "field_default x d m k = (case m k of None \<Rightarrow> Some x | Some v \<Rightarrow> d v)"

definition default_status :: string where "default_status = ''backlog''"

text \<open>The \<open>Frontmatter\<close> structure and the construction of the task from it, in one step.\<close>

definition frontmatter_task ::
  "libs \<Rightarrow> ymapping \<Rightarrow> string \<Rightarrow> task_batty_config option \<Rightarrow> task option" where
  "frontmatter_task L m description config =
     do { id' \<leftarrow> field_req (de_uint 32) m ''id'';
          title \<leftarrow> field_req (de_string L) m ''title'';
          status \<leftarrow> field_default default_status (de_string L) m ''status'';
          priority \<leftarrow> field_default [] (de_string L) m ''priority'';
          assignee \<leftarrow> field_opt (de_string L) m ''assignee'';
          claimed_by \<leftarrow> field_opt (de_string L) m ''claimed_by'';
          claimed_at \<leftarrow> field_opt (de_string L) m ''claimed_at'';
          claim_ttl_secs \<leftarrow> field_opt (de_uint 64) m ''claim_ttl_secs'';
          claim_expires_at \<leftarrow> field_opt (de_string L) m ''claim_expires_at'';
          last_progress_at \<leftarrow> field_opt (de_string L) m ''last_progress_at'';
          claim_warning_sent_at \<leftarrow> field_opt (de_string L) m ''claim_warning_sent_at'';
          claim_extensions \<leftarrow> field_opt (de_uint 32) m ''claim_extensions'';
          last_output_bytes \<leftarrow> field_opt (de_uint 64) m ''last_output_bytes'';
          blocked \<leftarrow> deserialize_blocked_field (m ''blocked'');
          block_reason \<leftarrow> field_opt (de_string L) m ''block_reason'';
          tags \<leftarrow> field_default [] (de_seq (de_string L)) m ''tags'';
          depends_on \<leftarrow> field_default [] (de_seq (de_uint 32)) m ''depends_on'';
          review_owner \<leftarrow> field_opt (de_string L) m ''review_owner'';
          blocked_on \<leftarrow> field_opt (de_string L) m ''blocked_on'';
          worktree_path \<leftarrow> field_opt (de_string L) m ''worktree_path'';
          branch \<leftarrow> field_opt (de_string L) m ''branch'';
          commit \<leftarrow> field_opt (de_string L) m ''commit'';
          artifacts \<leftarrow> field_default [] (de_seq (de_string L)) m ''artifacts'';
          next_action \<leftarrow> field_opt (de_string L) m ''next_action'';
          scheduled_for \<leftarrow> field_opt (de_string L) m ''scheduled_for'';
          cron_schedule \<leftarrow> field_opt (de_string L) m ''cron_schedule'';
          cron_last_run \<leftarrow> field_opt (de_string L) m ''cron_last_run'';
          completed \<leftarrow> field_opt (de_string L) m ''completed'';
          Some \<lparr> t_id = id', t_title = title, t_status = status, t_priority = priority,
                 t_assignee = assignee, t_claimed_by = claimed_by, t_claimed_at = claimed_at,
                 t_claim_ttl_secs = claim_ttl_secs, t_claim_expires_at = claim_expires_at,
                 t_last_progress_at = last_progress_at,
                 t_claim_warning_sent_at = claim_warning_sent_at,
                 t_claim_extensions = claim_extensions, t_last_output_bytes = last_output_bytes,
                 t_blocked = opt_or (opt_or block_reason blocked) blocked_on,
                 t_tags = tags, t_depends_on = depends_on, t_review_owner = review_owner,
                 t_blocked_on = blocked_on, t_worktree_path = worktree_path, t_branch = branch,
                 t_commit = commit, t_artifacts = artifacts, t_next_action = next_action,
                 t_scheduled_for = scheduled_for, t_cron_schedule = cron_schedule,
                 t_cron_last_run = cron_last_run, t_completed = completed,
                 t_description = description, t_batty_config = config, t_source_path = [] \<rparr> }"

section \<open>The body\<close>

definition config_marker :: string where "config_marker = ''## Batty Config''"
definition code_fence :: string where "code_fence = [CHR 0x60, CHR 0x60, CHR 0x60]"

definition fenced_config :: "libs \<Rightarrow> string \<Rightarrow> task_batty_config option" where
  "fenced_config L config_text =
     Option.bind (split_once code_fence config_text) (\<lambda>(_, after_fence).
       let inner = (case split_once [newline] after_fence of Some (_, r) \<Rightarrow> r | None \<Rightarrow> after_fence)
       in Option.bind (split_once code_fence inner) (\<lambda>(block, _). toml_config L (trim block)))"

definition parse_body :: "libs \<Rightarrow> string \<Rightarrow> string \<times> task_batty_config option" where
  "parse_body L body =
     (case split_once config_marker body of
        None \<Rightarrow> (trim body, None)
      | Some (before, config_section) \<Rightarrow>
          (let config_text = trim config_section in
           (trim before, opt_or (toml_config L config_text) (fenced_config L config_text))))"

definition task_parse :: "libs \<Rightarrow> string \<Rightarrow> task_error + task" where
  "task_parse L content =
     res_bind (split_frontmatter content) (\<lambda>(frontmatter, body).
       case Option.bind (yaml_parse L frontmatter)
              (\<lambda>m. frontmatter_task L m (fst (parse_body L body)) (snd (parse_body L body))) of
         None \<Rightarrow> Inl BadYaml
       | Some t \<Rightarrow> Inr t)"

text \<open>Reading a task file repairs it first: the contents that are left in the file, with the
  task or the error.\<close>

definition task_from_file :: "libs \<Rightarrow> string \<Rightarrow> string \<Rightarrow> string \<times> (task_error + task)" where
  "task_from_file L path contents =
     (case normalize_task_frontmatter_content L contents of
        Inl e \<Rightarrow> (contents, Inl e)
      | Inr normalized \<Rightarrow>
          (let contents' = (case normalized of Some (updated, _) \<Rightarrow> updated | None \<Rightarrow> contents)
           in (contents', res_bind (task_parse L contents') (\<lambda>t. Inr (t\<lparr>t_source_path := path\<rparr>)))))"

definition repair_task_frontmatter_compat ::
  "libs \<Rightarrow> string \<Rightarrow> string \<times> (task_error + compat_repair option)" where
  "repair_task_frontmatter_compat L contents =
     (case normalize_task_frontmatter_content L contents of
        Inl e \<Rightarrow> (contents, Inl e)
      | Inr None \<Rightarrow> (contents, Inr None)
      | Inr (Some (updated, rep)) \<Rightarrow> (updated, Inr (Some rep)))"

definition is_schedule_blocked :: "libs \<Rightarrow> int \<Rightarrow> task \<Rightarrow> bool" where
  "is_schedule_blocked L now t =
     (case t_scheduled_for t of
        None \<Rightarrow> False
      | Some scheduled \<Rightarrow>
          (case parse_frontmatter_timestamp_compat L scheduled of
             None \<Rightarrow> False | Some ts \<Rightarrow> ts > now))"

section \<open>File hints\<close>

definition hint_punctuation :: "char \<Rightarrow> bool" where
  "hint_punctuation c =
     (c \<in> set [CHR 0x22, CHR 0x27, CHR '','', CHR '':'', CHR '';'', CHR ''('', CHR '')'', CHR ''['',
             CHR '']'', CHR 0x60])"

definition clean_file_hint_token :: "string \<Rightarrow> string option" where
  "clean_file_hint_token token =
     (let cleaned = trim_end_by (\<lambda>c. c = CHR ''.'') (trim_by hint_punctuation token) in
      if cleaned = [] then None
      else if starts_with ''**'' cleaned \<or> ends_with ''**'' cleaned
              \<or> starts_with ''__'' cleaned \<or> ends_with ''__'' cleaned then None
      else let has_parent = 2 \<le> length (path_components cleaned) in
        if has_parent \<or> CHR ''*'' \<in> set cleaned \<or> CHR ''?'' \<in> set cleaned then Some cleaned
        else None)"

definition extract_body_file_hints :: "string \<Rightarrow> string list" where
  "extract_body_file_hints body = List.map_filter clean_file_hint_token (split_whitespace body)"

text \<open>The contents behind the task's source path: absent for an empty or missing path.\<close>

definition extract_declared_files_frontmatter ::
  "libs \<Rightarrow> string option \<Rightarrow> task_error + string list" where
  "extract_declared_files_frontmatter L file =
     (case file of
        None \<Rightarrow> Inr []
      | Some content \<Rightarrow>
          res_bind (split_frontmatter content) (\<lambda>(frontmatter, _).
            case Option.bind (yaml_parse L frontmatter)
                   (\<lambda>m. field_default [] (de_seq (de_string L)) m ''files'') of
              None \<Rightarrow> Inl BadYaml
            | Some files \<Rightarrow> Inr files))"

definition task_file_hints :: "libs \<Rightarrow> string option \<Rightarrow> task \<Rightarrow> task_error + string list" where
  "task_file_hints L file t =
     res_bind (extract_declared_files_frontmatter L file) (\<lambda>declared.
       Inr (dedup (sort (filter (\<lambda>f. trim f \<noteq> [])
              (declared @ extract_body_file_hints (t_description t))))))"

section \<open>The tasks directory\<close>

text \<open>A directory is the list of its entries, file name and contents, in the order in which
  \<open>read_dir\<close> yields them.\<close>

type_synonym task_dir = "(string \<times> string) list"

text \<open>\<open>Path::extension\<close> is \<open>md\<close>: the text after the last dot of a name that does not start
  there.\<close>

definition has_md_extension :: "string \<Rightarrow> bool" where
  "has_md_extension name = (ends_with ''.md'' name \<and> 3 < length name)"

definition load_entry :: "libs \<Rightarrow> string \<times> string \<Rightarrow> (string \<times> string) \<times> task option" where
  "load_entry L = (\<lambda>(name, contents).
     if has_md_extension name then
       (case task_from_file L name contents of
          (contents', Inl e) \<Rightarrow> ((name, contents'), None)
        | (contents', Inr t) \<Rightarrow> ((name, contents'), Some t))
     else ((name, contents), None))"

definition load_tasks_from_dir :: "libs \<Rightarrow> task_dir \<Rightarrow> task_dir \<times> task list" where
  "load_tasks_from_dir L dir =
     (let loaded = map (load_entry L) dir
      in (map fst loaded, sort_key t_id (List.map_filter snd loaded)))"

definition task_id_from_filename :: "string \<Rightarrow> nat option" where
  "task_id_from_filename name =
     (if \<not> ends_with ''.md'' name then None
      else parse_u32 (hd (split_by (\<lambda>c. c = CHR ''-'') name)))"

text \<open>The first loop: the files whose names carry the id, read one after the other until one of
  them holds the task.\<close>

fun find_by_name :: "libs \<Rightarrow> nat \<Rightarrow> task_dir \<Rightarrow> task_dir \<times> string option" where
  "find_by_name L task_id [] = ([], None)"
| "find_by_name L task_id ((name, contents) # rest) =
     (if task_id_from_filename name = Some task_id then
        (case task_from_file L name contents of
           (contents', Inr t) \<Rightarrow>
             if t_id t = task_id then ((name, contents') # rest, Some name)
             else (let (rest', r) = find_by_name L task_id rest in ((name, contents') # rest', r))
         | (contents', Inl e) \<Rightarrow>
             (let (rest', r) = find_by_name L task_id rest in ((name, contents') # rest', r)))
      else (let (rest', r) = find_by_name L task_id rest in ((name, contents) # rest', r)))"

definition find_task_path_by_id :: "libs \<Rightarrow> task_dir \<Rightarrow> nat \<Rightarrow> task_dir \<times> (task_error + string)" where
  "find_task_path_by_id L dir task_id =
     (case find_by_name L task_id dir of
        (dir1, Some name) \<Rightarrow> (dir1, Inr name)
      | (dir1, None) \<Rightarrow>
          (let (dir2, tasks) = load_tasks_from_dir L dir1
           in (dir2, case find (\<lambda>t. t_id t = task_id) tasks of
                       Some t \<Rightarrow> Inr (t_source_path t)
                     | None \<Rightarrow> Inl (TaskNotFound task_id))))"

section \<open>What the model relies on\<close>

text \<open>RFC 3339: a printed time stamp can be read back.  YAML: the printer ends its text with a
  newline, indents what could be taken for a document marker, and its text parses to the
  mapping printed.\<close>

definition lawful_time :: "libs \<Rightarrow> bool" where
  "lawful_time L = (\<forall>d. rfc3339_parse L (trim (rfc3339_print L d)) \<noteq> None)"

definition plain_yaml_text :: "string \<Rightarrow> string \<Rightarrow> bool" where
  "plain_yaml_text z s =
     (s = z @ [newline] \<and> z \<noteq> [] \<and> hd z \<noteq> newline \<and> \<not> starts_with fence z
      \<and> \<not> contains closing_fence s)"

definition lawful_yaml :: "libs \<Rightarrow> bool" where
  "lawful_yaml L =
     (\<forall>m s. yaml_print L m = Some s \<longrightarrow> (\<exists>z. plain_yaml_text z s \<and> yaml_parse L z = Some m))"

section \<open>Lemmas: splitting and rendering\<close>

lemma trim_start_fence [simp]: "trim_start (CHR ''-'' # s) = CHR ''-'' # s"
  by (simp add: trim_start_by_def is_ws_def)

lemma strip_newline_Cons [simp]: "c \<noteq> newline \<Longrightarrow> strip_newline (c # s) = c # s"
  by (simp add: strip_newline_def)

lemma strip_newline_newline [simp]: "strip_newline (newline # s) = s"
  by (simp add: strip_newline_def)

lemma closing_fence_once:
  assumes "\<not> contains closing_fence (z @ [newline])"
  shows "split_once closing_fence (z @ closing_fence @ b) = Some (z, b)"
proof (rule split_once_first)
  fix u v assume eq: "z @ closing_fence = u @ closing_fence @ v"
  show "v = []"
  proof (rule ccontr)
    assume "v \<noteq> []"
    then obtain v' l where v: "v = v' @ [l]" by (metis rev_exhaust)
    let ?d = "CHR ''-''"
    have e1: "z @ [newline, ?d, ?d] = u @ [newline, ?d, ?d, ?d] @ v'"
      using arg_cong [OF eq, of butlast] v
      by (simp add: closing_fence_def fence_def butlast_append)
    have two: "x @ [newline] \<noteq> y @ [newline, ?d] @ w" if "w = [] \<or> w = [?d]" for x y w
      using that arg_cong [of "x @ [newline]" "y @ [newline, ?d] @ w" last] by auto
    show False
    proof (cases v' rule: rev_cases)
      case Nil
      with arg_cong [OF e1, of "\<lambda>x. butlast (butlast x)"] two [of "[]" z u]
      show False by (simp add: butlast_append)
    next
      case (snoc v2 l2)
      have e2: "z @ [newline, ?d] = u @ [newline, ?d, ?d, ?d] @ v2"
        using arg_cong [OF e1, of butlast] snoc by (simp add: butlast_append)
      show False
      proof (cases v2 rule: rev_cases)
        case Nil
        with arg_cong [OF e2, of butlast] two [of "[?d]" z u]
        show False by (simp add: butlast_append)
      next
        case (snoc v3 l3)
        have "z @ [newline] = u @ closing_fence @ v3"
          using arg_cong [OF e2, of butlast] snoc
          by (simp add: butlast_append closing_fence_def fence_def)
        with assms show False by (auto simp: contains_iff)
      qed
    qed
  qed
qed (simp add: closing_fence_def)

lemma split_render_text:
  assumes "plain_yaml_text z s"
  shows "split_frontmatter (render_text s body) = Inr (z, body)"
proof -
  from assms have s: "s = z @ [newline]" and z: "z \<noteq> []" "hd z \<noteq> newline" "\<not> starts_with fence z"
    and no: "\<not> contains closing_fence (z @ [newline])"
    by (auto simp: plain_yaml_text_def)
  have "strip_prefix (fence @ [newline]) s = None"
  proof (rule ccontr)
    assume "strip_prefix (fence @ [newline]) s \<noteq> None"
    then obtain r where r: "z @ [newline] = fence @ newline # r"
      using s by (auto simp: strip_prefix_Some)
    have "\<exists>u. z = fence @ u"
    proof (cases r rule: rev_cases)
      case Nil
      with r have "z @ [newline] = fence @ [newline]" by simp
      then show ?thesis by auto
    next
      case (snoc r' x)
      with r have "z @ [newline] = (fence @ newline # r') @ [x]" by simp
      then show ?thesis by (auto simp only: append1_eq_conv)
    qed
    with z(3) show False by (auto simp: starts_with_iff)
  qed
  then have "drop_document_start s = s" by (simp add: drop_document_start_def)
  moreover have "end_line (fence @ [newline] @ s) = fence @ [newline] @ s"
    using s by (auto simp: end_line_def ends_with_iff)
  ultimately have "render_text s body = fence @ newline # z @ closing_fence @ newline # body"
    using s by (simp add: render_text_def closing_fence_def)
  moreover have "trim_start (fence @ t) = fence @ t" for t by (simp add: fence_def)
  ultimately show ?thesis
    by (simp add: split_frontmatter_def closing_fence_once [OF no])
qed

section \<open>Lemmas: the repair reaches a fixed point\<close>

definition stamp_stable :: "libs \<Rightarrow> ymapping \<Rightarrow> string \<Rightarrow> bool" where
  "stamp_stable L m f =
     (case get_str m f of
        None \<Rightarrow> True
      | Some raw \<Rightarrow> (case normalize_legacy_timestamp_value L raw of None \<Rightarrow> True | Some n \<Rightarrow> raw = n))"

lemma stamp_stable_cong: "m f = m' f \<Longrightarrow> stamp_stable L m f = stamp_stable L m' f"
  by (simp add: stamp_stable_def get_str_def)

lemma repair_timestamp_stable: "stamp_stable L m f \<Longrightarrow> repair_timestamp L f (m, r) = (m, r)"
  by (auto simp: stamp_stable_def repair_timestamp_def split: option.splits)

lemma repair_timestamp_other: "repair_timestamp L f (m, r) = (m', r') \<Longrightarrow> k \<noteq> f \<Longrightarrow> m' k = m k"
  by (auto simp: repair_timestamp_def split: option.splits if_splits)

lemma normalized_is_stable:
  assumes "lawful_time L" and "normalize_legacy_timestamp_value L raw = Some n"
  shows "normalize_legacy_timestamp_value L n = None"
proof -
  from assms(2) obtain d where "n = rfc3339_print L d"
    by (auto simp: normalize_legacy_timestamp_value_def Let_def split: if_splits bind_splits)
  moreover from assms(1) have "rfc3339_parse L (trim (rfc3339_print L d)) \<noteq> None"
    unfolding lawful_time_def by blast
  ultimately show ?thesis
    by (simp only: normalize_legacy_timestamp_value_def Let_def simp_thms if_True)
qed

lemma repair_timestamp_makes_stable:
  assumes "lawful_time L" and "repair_timestamp L f (m, r) = (m', r')"
  shows "stamp_stable L m' f"
  using assms normalized_is_stable [OF assms(1)]
  by (auto simp: repair_timestamp_def stamp_stable_def get_str_def split: option.splits if_splits)

lemma fold_repair_other:
  "fold (repair_timestamp L) fs (m, r) = (m', r') \<Longrightarrow> k \<notin> set fs \<Longrightarrow> m' k = m k"
proof (induction fs arbitrary: m r)
  case (Cons f fs)
  obtain m1 r1 where s: "repair_timestamp L f (m, r) = (m1, r1)" by fastforce
  with Cons repair_timestamp_other [OF s] show ?case by auto
qed simp

lemma fold_repair_stable:
  assumes "lawful_time L"
  shows "fold (repair_timestamp L) fs (m, r) = (m', r') \<Longrightarrow> distinct fs
    \<Longrightarrow> \<forall>f \<in> set fs. stamp_stable L m' f"
proof (induction fs arbitrary: m r)
  case (Cons f fs)
  obtain m1 r1 where s: "repair_timestamp L f (m, r) = (m1, r1)" by fastforce
  with Cons.prems have "fold (repair_timestamp L) fs (m1, r1) = (m', r')" by simp
  with Cons fold_repair_other [OF this] repair_timestamp_makes_stable [OF assms s]
    stamp_stable_cong [of m' f m1] show ?case by auto
qed simp

lemma fold_repair_fixed:
  "\<forall>f \<in> set fs. stamp_stable L m f \<Longrightarrow> fold (repair_timestamp L) fs (m, r) = (m, r)"
  by (induction fs) (auto simp: repair_timestamp_stable)

lemma fold_repair_grows: "fold (repair_timestamp L) fs (m, r) = (m', r') \<Longrightarrow> length r \<le> length r'"
proof (induction fs arbitrary: m r)
  case (Cons g fs)
  obtain m1 r1 where s: "repair_timestamp L g (m, r) = (m1, r1)" by fastforce
  then have "length r \<le> length r1"
    by (auto simp: repair_timestamp_def split: option.splits if_splits)
  with Cons.IH [of m1 r1] Cons.prems s show ?case by simp
qed simp

lemma fold_repair_idle: "fold (repair_timestamp L) fs (m, []) = (m', r) \<Longrightarrow> r = [] \<Longrightarrow> m' = m"
proof (induction fs arbitrary: m)
  case (Cons g fs)
  obtain m1 r1 where s: "repair_timestamp L g (m, []) = (m1, r1)" by fastforce
  with Cons.prems have f: "fold (repair_timestamp L) fs (m1, r1) = (m', r)" by simp
  from fold_repair_grows [OF f] Cons.prems(2) have r1: "r1 = []" by simp
  with s have "m1 = m" by (auto simp: repair_timestamp_def split: option.splits if_splits)
  with Cons.IH [OF f [unfolded r1 \<open>m1 = m\<close>] Cons.prems(2)] \<open>m1 = m\<close> show ?case by simp
qed simp

lemma block_fields_not_stamps:
  "k \<in> {''blocked'', ''block_reason'', ''blocked_on'', ''status''} \<Longrightarrow> k \<notin> set compat_timestamp_fields"
  by (auto simp: compat_timestamp_fields_def)

lemma rewrites_block_reason:
  assumes "rewrites_block m" shows "\<exists>r. legacy_reason m = Some r"
proof -
  consider "hidden_string_block m" | "rewrites_incomplete_blocked_task m"
    | "rewrites_incomplete_bool_shape m"
    using assms by (auto simp: rewrites_block_def)
  then show ?thesis
  proof cases
    case 1
    then show ?thesis
      by (auto simp: hidden_string_block_def legacy_reason_def split: option.splits yaml.splits)
  next
    case 2
    then show ?thesis by (auto simp: rewrites_incomplete_blocked_task_def)
  next
    case 3
    then have "m ''blocked'' = Some (YBool True)" "block_fields_differ m"
      by (auto simp: rewrites_incomplete_bool_shape_def)
    then show ?thesis
      by (cases "get_str m ''block_reason''"; cases "get_str m ''blocked_on''")
        (simp_all add: legacy_reason_def block_fields_differ_def desired_blocked_on_def)
  qed
qed

lemma set_blocked_reason_Some:
  "set_blocked_reason m (Some r) b =
     m(''blocked'' \<mapsto> YBool True, ''block_reason'' \<mapsto> YStr r,
       ''blocked_on'' \<mapsto> YStr (case b of Some x \<Rightarrow> x | None \<Rightarrow> r))"
  by (auto simp: set_blocked_reason_def set_optional_string_def opt_or_def split: option.splits)

lemma set_blocked_reason_settles:
  assumes "legacy_reason m = Some r" and "m' = set_blocked_reason m (Some r) (desired_blocked_on m)"
  shows "\<not> rewrites_block m' \<and> legacy_reason m' = Some r"
proof -
  obtain b where b: "desired_blocked_on m = Some b"
    using assms(1) by (cases "get_str m ''blocked_on''") (auto simp: desired_blocked_on_def)
  have blocked: "m' ''blocked'' = Some (YBool True)"
    and reason: "get_str m' ''block_reason'' = Some r"
    and on: "get_str m' ''blocked_on'' = Some b"
    by (simp_all add: assms(2) b set_blocked_reason_Some get_str_def)
  have l: "legacy_reason m' = Some r" by (simp add: legacy_reason_def blocked reason)
  have "\<not> block_fields_differ m'"
    by (simp add: block_fields_differ_def desired_blocked_on_def l reason on)
  with l show ?thesis
    by (simp add: rewrites_block_def hidden_string_block_def rewrites_incomplete_blocked_task_def
        rewrites_incomplete_bool_shape_def blocked)
qed

lemma normalize_mapping_fixed:
  assumes "lawful_time L" and "normalize_mapping L m0 = Some (m', r)"
  shows "normalize_mapping L m' = None"
proof -
  obtain m rep where f: "normalize_timestamp_frontmatter_fields L m0 = (m, rep)" by fastforce
  have d: "distinct compat_timestamp_fields" by (simp add: compat_timestamp_fields_def)
  from fold_repair_stable [OF assms(1) f [unfolded normalize_timestamp_frontmatter_fields_def] d]
  have st: "\<forall>f \<in> set compat_timestamp_fields. stamp_stable L m f" .
  have fixed: "normalize_mapping L x = None"
    if "\<forall>k \<in> set compat_timestamp_fields. x k = m k" and "\<not> rewrites_block x" for x
  proof -
    have "\<forall>f \<in> set compat_timestamp_fields. stamp_stable L x f"
    proof
      fix k assume k: "k \<in> set compat_timestamp_fields"
      with that(1) have "x k = m k" by blast
      with k st stamp_stable_cong [of x k m L] show "stamp_stable L x k" by blast
    qed
    then have "normalize_timestamp_frontmatter_fields L x = (x, [])"
      unfolding normalize_timestamp_frontmatter_fields_def by (rule fold_repair_fixed)
    with that(2) show ?thesis by (simp add: normalize_mapping_def)
  qed
  show ?thesis
  proof (cases "rewrites_block m")
    case True
    from rewrites_block_reason [OF True] obtain q where q: "legacy_reason m = Some q" by blast
    with assms(2) f True have m': "m' = set_blocked_reason m (Some q) (desired_blocked_on m)"
      by (simp add: normalize_mapping_def Let_def)
    have same: "\<forall>k \<in> set compat_timestamp_fields. m' k = m k"
    proof
      fix k assume "k \<in> set compat_timestamp_fields"
      then have "k \<noteq> ''blocked''" "k \<noteq> ''block_reason''" "k \<noteq> ''blocked_on''"
        using block_fields_not_stamps by blast+
      then show "m' k = m k" by (simp add: m' set_blocked_reason_Some)
    qed
    show ?thesis
      by (rule fixed [OF same]) (rule conjunct1 [OF set_blocked_reason_settles [OF q m']])
  next
    case False
    with assms(2) f have "m' = m" by (auto simp: normalize_mapping_def Let_def split: if_splits)
    then show ?thesis by (intro fixed) (simp_all add: False)
  qed
qed

text \<open>The repair field by field: time stamps in an old format are rewritten, the block fields of a
  block in an old shape are made uniform, and no other field is touched.\<close>

definition block_keys :: "string list" where
  "block_keys = [''blocked'', ''block_reason'', ''blocked_on'']"

definition restamped :: "libs \<Rightarrow> yaml option \<Rightarrow> yaml option" where
  "restamped L v =
     (case v of
        Some (YStr raw) \<Rightarrow>
          Some (YStr (case normalize_legacy_timestamp_value L raw of None \<Rightarrow> raw | Some n \<Rightarrow> n))
      | _ \<Rightarrow> v)"

definition repaired_block :: "ymapping \<Rightarrow> ymapping" where
  "repaired_block m =
     (if rewrites_block m then set_blocked_reason m (legacy_reason m) (desired_blocked_on m) else m)"

definition settled_mapping :: "libs \<Rightarrow> ymapping \<Rightarrow> ymapping" where
  "settled_mapping L m =
     (\<lambda>k. if k \<in> set block_keys then repaired_block m k
          else if k \<in> set compat_timestamp_fields then restamped L (m k) else m k)"

lemma repair_timestamp_value: "repair_timestamp L f (m, r) = (m', r') \<Longrightarrow> m' f = restamped L (m f)"
  by (auto simp: repair_timestamp_def restamped_def get_str_def bind_eq_Some_conv
      split: option.splits if_splits yaml.splits)

lemma fold_repair_value:
  "fold (repair_timestamp L) fs (m, r) = (m', r') \<Longrightarrow> distinct fs \<Longrightarrow> f \<in> set fs \<Longrightarrow> m' f = restamped L (m f)"
proof (induction fs arbitrary: m r)
  case (Cons g fs)
  obtain m1 r1 where s: "repair_timestamp L g (m, r) = (m1, r1)" by fastforce
  with Cons.prems(1) have rest: "fold (repair_timestamp L) fs (m1, r1) = (m', r')" by simp
  show ?case
  proof (cases "f = g")
    case True
    with fold_repair_other [OF rest] Cons.prems(2) repair_timestamp_value [OF s] show ?thesis by simp
  next
    case False
    with Cons.IH [OF rest] Cons.prems(2,3) repair_timestamp_other [OF s] show ?thesis by simp
  qed
qed simp

lemma block_view_cong:
  assumes "m ''blocked'' = m' ''blocked''" "m ''block_reason'' = m' ''block_reason''"
    and "m ''blocked_on'' = m' ''blocked_on''" "m ''status'' = m' ''status''"
  shows "rewrites_block m = rewrites_block m'" "legacy_reason m = legacy_reason m'"
    "desired_blocked_on m = desired_blocked_on m'"
  using assms
  by (simp_all add: rewrites_block_def hidden_string_block_def rewrites_incomplete_blocked_task_def
      rewrites_incomplete_bool_shape_def block_fields_differ_def desired_blocked_on_def
      legacy_reason_def get_str_def)

lemma set_blocked_reason_other:
  "k \<notin> set block_keys \<Longrightarrow> set_blocked_reason m r b k = m k"
  by (auto simp: set_blocked_reason_def set_optional_string_def clear_blocked_def block_keys_def)

lemma normalize_mapping_settled:
  "(case normalize_mapping L m of None \<Rightarrow> m | Some (m', rep) \<Rightarrow> m') = settled_mapping L m"
proof -
  obtain m1 rep where f: "normalize_timestamp_frontmatter_fields L m = (m1, rep)" by fastforce
  note fo = fold_repair_other [OF f [unfolded normalize_timestamp_frontmatter_fields_def]]
  have b: "m1 ''blocked'' = m ''blocked''" "m1 ''block_reason'' = m ''block_reason''"
    "m1 ''blocked_on'' = m ''blocked_on''" "m1 ''status'' = m ''status''"
    by (rule fo, rule block_fields_not_stamps, simp)+
  note v = block_view_cong [OF b]
  have st: "m1 k = restamped L (m k)" if "k \<in> set compat_timestamp_fields" for k
    by (rule fold_repair_value [OF f [unfolded normalize_timestamp_frontmatter_fields_def] _ that])
      (simp add: compat_timestamp_fields_def)
  have same: "m1 = m" if "rep = []"
    using f that unfolding normalize_timestamp_frontmatter_fields_def by (rule fold_repair_idle)
  let ?m2 = "if rewrites_block m then set_blocked_reason m1 (legacy_reason m) (desired_blocked_on m) else m1"
  have n: "(case normalize_mapping L m of None \<Rightarrow> m | Some (m', rep) \<Rightarrow> m') = ?m2"
    using same by (auto simp: normalize_mapping_def f v Let_def)
  have "?m2 k = settled_mapping L m k" for k
  proof (cases "k \<in> set block_keys")
    case True
    then have "m1 k = m k" using b by (auto simp: block_keys_def)
    with True show ?thesis
      by (auto simp: settled_mapping_def repaired_block_def set_blocked_reason_def set_optional_string_def
          clear_blocked_def block_keys_def)
  next
    case False
    with st fo [of k] show ?thesis by (auto simp: settled_mapping_def set_blocked_reason_other)
  qed
  with n show ?thesis by (simp add: fun_eq_iff)
qed

lemma settled_mapping_idem:
  assumes "lawful_time L" shows "settled_mapping L (settled_mapping L m) = settled_mapping L m"
proof (cases "normalize_mapping L m")
  case None
  then show ?thesis using normalize_mapping_settled [of m L] by simp
next
  case (Some u)
  then obtain m' rep where u: "normalize_mapping L m = Some (m', rep)" by (cases u) simp
  with normalize_mapping_settled [of m L] normalize_mapping_fixed [OF assms u]
    normalize_mapping_settled [of m' L] show ?thesis by simp
qed

lemma normalize_content_fixed:
  assumes "lawful_time L" and "lawful_yaml L"
    and "normalize_task_frontmatter_content L c = Inr (Some (c', r))"
  shows "normalize_task_frontmatter_content L c' = Inr None"
proof -
  from assms(3) obtain fm body where sp: "split_frontmatter c = Inr (fm, body)"
    by (auto simp: normalize_task_frontmatter_content_def)
  with assms(3) obtain m where y: "yaml_parse L fm = Some m"
    by (cases "yaml_parse L fm") (auto simp: normalize_task_frontmatter_content_def)
  from assms(3) sp y obtain m' where m: "normalize_mapping L m = Some (m', r)"
    and r: "render_frontmatter_content L m' body = Inr c'"
    by (cases "normalize_mapping L m") (auto simp: normalize_task_frontmatter_content_def)
  then obtain s where s: "yaml_print L m' = Some s" and c': "c' = render_text s body"
    by (cases "yaml_print L m'") (auto simp: render_frontmatter_content_def)
  from assms(2) s obtain z where z: "plain_yaml_text z s" "yaml_parse L z = Some m'"
    unfolding lawful_yaml_def by blast
  show ?thesis
    by (simp add: normalize_task_frontmatter_content_def c' split_render_text [OF z(1)] z(2)
        normalize_mapping_fixed [OF assms(1) m])
qed

text \<open>The three ways in which a file with a readable mapping is read.\<close>

lemma task_from_file_steps:
  assumes "split_frontmatter c = Inr (fm, body)" and "yaml_parse L fm = Some m"
  shows "normalize_mapping L m = None \<Longrightarrow> task_from_file L path c =
      (c, res_bind (task_parse L c) (\<lambda>t. Inr (t\<lparr>t_source_path := path\<rparr>)))"
    and "normalize_mapping L m = Some (m', rep) \<Longrightarrow> yaml_print L m' = None
      \<Longrightarrow> task_from_file L path c = (c, Inl Unserializable)"
    and "normalize_mapping L m = Some (m', rep) \<Longrightarrow> yaml_print L m' = Some s
      \<Longrightarrow> task_from_file L path c = (render_text s body,
        res_bind (task_parse L (render_text s body)) (\<lambda>t. Inr (t\<lparr>t_source_path := path\<rparr>)))"
  using assms
  by (simp_all add: Let_def task_from_file_def normalize_task_frontmatter_content_def
      render_frontmatter_content_def)

lemma task_from_file_fixed:
  assumes "lawful_time L" and "lawful_yaml L" and "task_from_file L path c = (c', r)"
  shows "task_from_file L path c' = (c', r)"
proof (cases "normalize_task_frontmatter_content L c")
  case (Inl e)
  with assms(3) show ?thesis by (auto simp: task_from_file_def)
next
  case (Inr n)
  show ?thesis
  proof (cases n)
    case None
    with assms(3) Inr show ?thesis by (auto simp: task_from_file_def)
  next
    case (Some u)
    then obtain c2 rep where u: "u = (c2, rep)" by (cases u)
    with Some Inr assms(3) have c2: "c' = c2" by (auto simp: task_from_file_def Let_def)
    have "normalize_task_frontmatter_content L c2 = Inr None"
      by (rule normalize_content_fixed [OF assms(1,2)]) (use Inr Some u in auto)
    with assms(3) Inr Some u c2 show ?thesis by (simp add: task_from_file_def Let_def)
  qed
qed

lemma load_entry_fixed:
  assumes "lawful_time L" and "lawful_yaml L"
  shows "load_entry L (fst (load_entry L e)) = load_entry L e"
proof -
  obtain name c where e: "e = (name, c)" by (cases e)
  obtain c' r where f: "task_from_file L name c = (c', r)" by fastforce
  with task_from_file_fixed [OF assms f] show ?thesis
    by (cases r) (auto simp: load_entry_def e)
qed

lemma load_tasks_sorted: "sorted (map t_id (snd (load_tasks_from_dir L dir)))"
  by (simp add: load_tasks_from_dir_def Let_def)

lemma set_load_tasks:
  "set (snd (load_tasks_from_dir L dir)) = {t. \<exists>e \<in> set dir. snd (load_entry L e) = Some t}"
  by (force simp: load_tasks_from_dir_def Let_def List.map_filter_def)

lemma load_entry_Some:
  "snd (load_entry L (name, c)) = Some t \<longleftrightarrow>
     has_md_extension name \<and> snd (task_from_file L name c) = Inr t"
  by (auto simp: load_entry_def split: prod.splits sum.splits)

lemma load_entry_iff:
  "snd (load_entry L e) = Some t \<longleftrightarrow>
     (case e of (name, c) \<Rightarrow> has_md_extension name \<and> snd (task_from_file L name c) = Inr t)"
  by (cases e) (simp add: load_entry_Some)

lemma task_from_file_path: "snd (task_from_file L name c) = Inr t \<Longrightarrow> t_source_path t = name"
  by (auto simp: task_from_file_def Let_def split: sum.splits option.splits)

lemma load_after_load:
  assumes "lawful_time L" and "lawful_yaml L"
  shows "load_tasks_from_dir L (fst (load_tasks_from_dir L dir)) = load_tasks_from_dir L dir"
proof -
  have "map (load_entry L) (map fst (map (load_entry L) dir)) = map (load_entry L) dir"
    by (simp add: load_entry_fixed [OF assms])
  then show ?thesis by (simp only: load_tasks_from_dir_def Let_def fst_conv)
qed

section \<open>Lemmas: finding a task\<close>

text \<open>The search by name repairs some of the files it opens and nothing else.\<close>

definition opened :: "libs \<Rightarrow> (string \<times> string) \<Rightarrow> (string \<times> string) \<Rightarrow> bool" where
  "opened L e e' = (e' = e \<or> (fst e' = fst e \<and> snd e' = fst (task_from_file L (fst e) (snd e))))"

lemma find_by_name_opened: "list_all2 (opened L) dir (fst (find_by_name L i dir))"
proof (induction L i dir rule: find_by_name.induct)
  case (2 L i name c rest)
  have self: "list_all2 (opened L) xs xs" for xs :: task_dir
    by (rule list_all2_refl) (simp add: opened_def)
  obtain rest' r where rest: "find_by_name L i rest = (rest', r)" by fastforce
  obtain c' q where f: "task_from_file L name c = (c', q)" by fastforce
  have op: "opened L (name, c) (name, c')" by (simp add: opened_def f)
  show ?case
  proof (cases "task_id_from_filename name = Some i")
    case True
    with 2 f rest op self show ?thesis by (cases q) auto
  next
    case False
    with 2 rest show ?thesis by (simp add: opened_def)
  qed
qed simp

lemma find_by_name_Some:
  "find_by_name L i dir = (dir', Some name) \<Longrightarrow>
     \<exists>c t. (name, c) \<in> set dir \<and> snd (task_from_file L name c) = Inr t \<and> t_id t = i"
proof (induction L i dir arbitrary: dir' rule: find_by_name.induct)
  case (2 L i n c rest)
  obtain rest' r where rest: "find_by_name L i rest = (rest', r)" by fastforce
  obtain c' q where f: "task_from_file L n c = (c', q)" by fastforce
  show ?case
  proof (cases "task_id_from_filename n = Some i")
    case True
    show ?thesis
    proof (cases q)
      case (Inl e)
      with 2 True f rest have "\<exists>c t. (name, c) \<in> set rest \<and> snd (task_from_file L name c) = Inr t \<and> t_id t = i"
        by auto
      then show ?thesis by auto
    next
      case (Inr t)
      show ?thesis
      proof (cases "t_id t = i")
        case False
        with 2 True f rest Inr
        have "\<exists>c t. (name, c) \<in> set rest \<and> snd (task_from_file L name c) = Inr t \<and> t_id t = i"
          by auto
        then show ?thesis by auto
      qed (use 2 True f rest Inr in auto)
    qed
  next
    case False
    with 2 rest show ?thesis by auto
  qed
qed simp

lemma opened_load_entry:
  assumes "lawful_time L" and "lawful_yaml L" and "opened L e e'"
  shows "snd (load_entry L e') = snd (load_entry L e)"
proof -
  obtain name c where e: "e = (name, c)" by (cases e)
  obtain c' r where f: "task_from_file L name c = (c', r)" by fastforce
  from assms(3) e f have "e' = (name, c) \<or> e' = (name, c')" by (cases e') (auto simp: opened_def)
  with e f task_from_file_fixed [OF assms(1,2) f] show ?thesis
    by (cases r) (auto simp: load_entry_def)
qed

lemma find_task_load:
  assumes "lawful_time L" and "lawful_yaml L" and "find_task_path_by_id L dir i = (dir', r)"
  shows "(\<exists>name. r = Inr name \<and>
            (\<exists>c t. (name, c) \<in> set dir \<and> snd (task_from_file L name c) = Inr t \<and> t_id t = i))
       \<or> (r = Inl (TaskNotFound i) \<and> (\<forall>e \<in> set dir. \<forall>t. snd (load_entry L e) = Some t \<longrightarrow> t_id t \<noteq> i))"
proof -
  obtain dir1 n where n: "find_by_name L i dir = (dir1, n)" by fastforce
  obtain dir2 tasks where l: "load_tasks_from_dir L dir1 = (dir2, tasks)" by fastforce
  show ?thesis
  proof (cases n)
    case (Some name)
    with n assms(3) have "r = Inr name" by (simp add: find_task_path_by_id_def)
    with find_by_name_Some [of L i dir dir1 name] n Some show ?thesis by blast
  next
    case None
    have op: "list_all2 (opened L) dir dir1" using find_by_name_opened [of L dir i] n by simp
    have all: "(\<exists>e \<in> set dir1. snd (load_entry L e) = Some t) = (\<exists>e \<in> set dir. snd (load_entry L e) = Some t)" for t
      using op by (induction rule: list_all2_induct)
        (auto simp: opened_load_entry [OF assms(1,2)])
    from l set_load_tasks [of L dir1] all
    have tasks: "t \<in> set tasks \<longleftrightarrow> (\<exists>e \<in> set dir. snd (load_entry L e) = Some t)" for t by auto
    show ?thesis
    proof (cases "find (\<lambda>t. t_id t = i) tasks")
      case None': None
      with n None l assms(3) have "r = Inl (TaskNotFound i)" by (simp add: find_task_path_by_id_def)
      moreover from None' have "\<forall>t \<in> set tasks. t_id t \<noteq> i" by (simp add: find_None_all)
      ultimately show ?thesis using tasks by blast
    next
      case (Some t)
      with n None l assms(3) have r: "r = Inr (t_source_path t)" by (simp add: find_task_path_by_id_def)
      from find_Some_in [OF Some] tasks obtain name c where
        c: "(name, c) \<in> set dir" "snd (load_entry L (name, c)) = Some t" "t_id t = i" by auto
      with r load_entry_Some task_from_file_path show ?thesis by metis
    qed
  qed
qed

section \<open>Lemmas: reading a field of an updated mapping\<close>

lemma field_other [batty_simps]:
  "k \<noteq> k' \<Longrightarrow> field_req d (m(k' := v)) k = field_req d m k"
  "k \<noteq> k' \<Longrightarrow> field_opt d (m(k' := v)) k = field_opt d m k"
  "k \<noteq> k' \<Longrightarrow> field_default x d (m(k' := v)) k = field_default x d m k"
  by (simp_all add: field_req_def field_opt_def field_default_def)

lemma field_same [batty_simps]:
  "field_opt d (m(k := None)) k = Some None"
  "field_opt (de_string L) (m(k \<mapsto> YStr s)) k = Some (Some s)"
  "field_opt (de_uint w) (m(k \<mapsto> YNum (int n))) k = (if n < 2 ^ w then Some (Some n) else None)"
  "field_default y (de_string L) (m(k \<mapsto> YStr s)) k = Some s"
  "field_req (de_string L) (m(k \<mapsto> YStr s)) k = Some s"
  "field_default y d (m(k := None)) k = Some y"
  by (auto simp: field_req_def field_opt_def field_default_def)

lemma frontmatter_status:
  assumes "frontmatter_task L m d c = Some t"
  shows "frontmatter_task L (m(''status'' \<mapsto> YStr s)) d c = Some (t\<lparr>t_status := s\<rparr>)"
  using assms unfolding frontmatter_task_def
  by (clarsimp simp: batty_simps bind_eq_Some_conv)

section \<open>Lemmas: what the repair leaves alone\<close>

text \<open>A task without its time stamps and block fields: all that the repair may not touch.\<close>

definition task_core :: "task \<Rightarrow> task" where
  "task_core t = t\<lparr>t_claimed_at := None, t_claim_expires_at := None, t_last_progress_at := None,
     t_claim_warning_sent_at := None, t_scheduled_for := None, t_cron_last_run := None,
     t_completed := None, t_blocked := None, t_blocked_on := None\<rparr>"

lemma task_core_stamps [simp]:
  "task_core (t\<lparr>t_claimed_at := x\<rparr>) = task_core t"
  "task_core (t\<lparr>t_claim_expires_at := x\<rparr>) = task_core t"
  "task_core (t\<lparr>t_last_progress_at := x\<rparr>) = task_core t"
  "task_core (t\<lparr>t_claim_warning_sent_at := x\<rparr>) = task_core t"
  "task_core (t\<lparr>t_scheduled_for := x\<rparr>) = task_core t"
  "task_core (t\<lparr>t_cron_last_run := x\<rparr>) = task_core t"
  "task_core (t\<lparr>t_completed := x\<rparr>) = task_core t"
  "task_core (t\<lparr>t_blocked := x\<rparr>) = task_core t"
  "task_core (t\<lparr>t_blocked_on := x\<rparr>) = task_core t"
  by (simp_all add: task_core_def)

definition read_timestamp_fields :: "string list" where
  "read_timestamp_fields =
     [''claimed_at'', ''claim_expires_at'', ''last_progress_at'', ''claim_warning_sent_at'',
      ''scheduled_for'', ''cron_last_run'', ''completed'']"

lemma frontmatter_stamps:
  assumes "frontmatter_task L m d c = Some t"
  shows
    "frontmatter_task L (m(''claimed_at'' \<mapsto> YStr s)) d c = Some (t\<lparr>t_claimed_at := Some s\<rparr>)"
    "frontmatter_task L (m(''claim_expires_at'' \<mapsto> YStr s)) d c = Some (t\<lparr>t_claim_expires_at := Some s\<rparr>)"
    "frontmatter_task L (m(''last_progress_at'' \<mapsto> YStr s)) d c = Some (t\<lparr>t_last_progress_at := Some s\<rparr>)"
    "frontmatter_task L (m(''claim_warning_sent_at'' \<mapsto> YStr s)) d c
       = Some (t\<lparr>t_claim_warning_sent_at := Some s\<rparr>)"
    "frontmatter_task L (m(''scheduled_for'' \<mapsto> YStr s)) d c = Some (t\<lparr>t_scheduled_for := Some s\<rparr>)"
    "frontmatter_task L (m(''cron_last_run'' \<mapsto> YStr s)) d c = Some (t\<lparr>t_cron_last_run := Some s\<rparr>)"
    "frontmatter_task L (m(''completed'' \<mapsto> YStr s)) d c = Some (t\<lparr>t_completed := Some s\<rparr>)"
  using assms unfolding frontmatter_task_def
  by (clarsimp simp: batty_simps bind_eq_Some_conv)+

lemma frontmatter_unread:
  assumes "frontmatter_task L m d c = Some t"
    and "k \<in> {''created'', ''started'', ''updated'', ''reviewed_at''}"
  shows "frontmatter_task L (m(k := v)) d c = Some t"
proof -
  from assms(2) have "frontmatter_task L (m(k := v)) d c = frontmatter_task L m d c"
    unfolding frontmatter_task_def by (elim insertE emptyE) (simp_all add: batty_simps)
  with assms(1) show ?thesis by simp
qed

lemma frontmatter_repair_timestamp:
  assumes "frontmatter_task L m d c = Some t" and "f \<in> set compat_timestamp_fields"
    and "repair_timestamp L f (m, r) = (m', r')"
  shows "\<exists>t'. frontmatter_task L m' d c = Some t' \<and> task_core t' = task_core t
    \<and> t_blocked t' = t_blocked t"
proof -
  from assms(3) consider "m' = m" | n where "m' = m(f \<mapsto> YStr n)"
    by (auto simp: repair_timestamp_def split: option.splits if_splits)
  then show ?thesis
  proof cases
    case 1
    with assms(1) show ?thesis by auto
  next
    case 2
    from assms(2) have
      "f \<in> set read_timestamp_fields \<or> f \<in> {''created'', ''started'', ''updated'', ''reviewed_at''}"
      by (auto simp: compat_timestamp_fields_def read_timestamp_fields_def)
    then show ?thesis
    proof
      assume "f \<in> set read_timestamp_fields"
      with 2 frontmatter_stamps [OF assms(1), of n] show ?thesis
        by (auto simp: read_timestamp_fields_def)
    next
      assume "f \<in> {''created'', ''started'', ''updated'', ''reviewed_at''}"
      with 2 frontmatter_unread [OF assms(1)] show ?thesis by blast
    qed
  qed
qed

lemma frontmatter_fold_repair:
  assumes "frontmatter_task L m d c = Some t" and "set fs \<subseteq> set compat_timestamp_fields"
    and "fold (repair_timestamp L) fs (m, r) = (m', r')"
  shows "\<exists>t'. frontmatter_task L m' d c = Some t' \<and> task_core t' = task_core t
    \<and> t_blocked t' = t_blocked t"
  using assms
proof (induction fs arbitrary: m r t)
  case (Cons f fs)
  obtain m1 r1 where s: "repair_timestamp L f (m, r) = (m1, r1)" by fastforce
  from Cons.prems have "f \<in> set compat_timestamp_fields" "set fs \<subseteq> set compat_timestamp_fields" by auto
  with frontmatter_repair_timestamp [OF Cons.prems(1) _ s] Cons.IH Cons.prems(3) s
  show ?case by fastforce
qed auto

lemma frontmatter_blocked:
  assumes "frontmatter_task L m d c = Some t"
  shows "frontmatter_task L (set_blocked_reason m (Some r) (Some b)) d c
       = Some (t\<lparr>t_blocked := Some r, t_blocked_on := Some b\<rparr>)"
  using assms unfolding frontmatter_task_def set_blocked_reason_Some
  by (clarsimp simp: batty_simps bind_eq_Some_conv)

lemma get_str_field: "get_str m k = Some s \<Longrightarrow> field_opt (de_string L) m k = Some (Some s)"
  by (cases "m k"; cases "the (m k)") (auto simp: get_str_def field_opt_def)

lemma legacy_reason_blocked:
  assumes "frontmatter_task L m d c = Some t" and "rewrites_block m"
  shows "t_blocked t \<noteq> None"
proof -
  from assms(1) obtain bl br on where
    b: "deserialize_blocked_field (m ''blocked'') = Some bl"
      "field_opt (de_string L) m ''block_reason'' = Some br"
      "field_opt (de_string L) m ''blocked_on'' = Some on"
      "t_blocked t = opt_or (opt_or br bl) on"
    unfolding frontmatter_task_def by (clarsimp simp: bind_eq_Some_conv)
  show ?thesis
  proof
    assume none: "t_blocked t = None"
    then have "br = None" "on = None" and bl: "bl = None" using b(4) by simp_all
    then have g: "get_str m ''block_reason'' = None" "get_str m ''blocked_on'' = None"
      using b(2,3) get_str_field [of m _ _ L] by (metis option.distinct(1) option.exhaust option.inject)+
    from rewrites_block_reason [OF assms(2)] obtain r where r: "legacy_reason m = Some r" by blast
    show False
    proof (cases "m ''blocked''")
      case None
      with r g show False by (simp add: legacy_reason_def)
    next
      case (Some a)
      with r g b(1) bl show False
        by (cases a) (auto simp: legacy_reason_def split: if_splits bool.splits)
    qed
  qed
qed

lemma frontmatter_normalize:
  assumes t: "frontmatter_task L m d c = Some t" and n: "normalize_mapping L m = Some (m', r)"
  shows "\<exists>t'. frontmatter_task L m' d c = Some t' \<and> task_core t' = task_core t
    \<and> (t_blocked t' = None) = (t_blocked t = None)"
proof -
  obtain m1 rep where f: "normalize_timestamp_frontmatter_fields L m = (m1, rep)" by fastforce
  from frontmatter_fold_repair [OF t order_refl f [unfolded normalize_timestamp_frontmatter_fields_def]]
  obtain t1 where t1: "frontmatter_task L m1 d c = Some t1" "task_core t1 = task_core t"
    "t_blocked t1 = t_blocked t" by blast
  show ?thesis
  proof (cases "rewrites_block m1")
    case True
    from rewrites_block_reason [OF True] obtain q where q: "legacy_reason m1 = Some q" by blast
    then obtain b where b: "desired_blocked_on m1 = Some b"
      by (cases "get_str m1 ''blocked_on''") (auto simp: desired_blocked_on_def)
    from n f True q b have "m' = set_blocked_reason m1 (Some q) (Some b)"
      by (simp add: normalize_mapping_def Let_def)
    with frontmatter_blocked [OF t1(1)] t1 legacy_reason_blocked [OF t1(1) True] show ?thesis by simp
  next
    case False
    with n f have "m' = m1" by (auto simp: normalize_mapping_def Let_def split: if_splits)
    with t1 show ?thesis by auto
  qed
qed

lemma task_parse_Inr:
  "task_parse L c = Inr t \<longleftrightarrow>
     (\<exists>fm body m. split_frontmatter c = Inr (fm, body) \<and> yaml_parse L fm = Some m
        \<and> frontmatter_task L m (fst (parse_body L body)) (snd (parse_body L body)) = Some t)"
proof (cases "split_frontmatter c")
  case (Inr x)
  obtain fm body where x: "x = (fm, body)" by (cases x)
  show ?thesis
  proof (cases "yaml_parse L fm")
    case (Some m)
    with Inr x show ?thesis by (auto simp: task_parse_def split: option.splits)
  qed (use Inr x in \<open>auto simp: task_parse_def\<close>)
qed (simp add: task_parse_def)

lemma frontmatter_path: "task_core (t\<lparr>t_source_path := p\<rparr>) = (task_core t)\<lparr>t_source_path := p\<rparr>"
  by (simp add: task_core_def)

lemma from_file_keeps_task:
  assumes "lawful_yaml L" and "task_parse L c = Inr t" and "task_from_file L path c = (c', r)"
    and "r \<noteq> Inl Unserializable"
  shows "\<exists>t'. r = Inr t' \<and> task_core t' = (task_core t)\<lparr>t_source_path := path\<rparr>
    \<and> (t_blocked t' = None) = (t_blocked t = None)"
proof -
  from assms(2) obtain fm body m where c: "split_frontmatter c = Inr (fm, body)" "yaml_parse L fm = Some m"
    and t: "frontmatter_task L m (fst (parse_body L body)) (snd (parse_body L body)) = Some t"
    by (auto simp: task_parse_Inr)
  show ?thesis
  proof (cases "normalize_mapping L m")
    case None
    with task_from_file_steps(1) [OF c None, of path] assms(2,3)
    have "r = Inr (t\<lparr>t_source_path := path\<rparr>)" by simp
    then show ?thesis by (simp add: frontmatter_path)
  next
    case (Some n)
    then obtain m' rep where n: "normalize_mapping L m = Some (m', rep)" by (cases n) simp
    show ?thesis
    proof (cases "yaml_print L m'")
      case None
      with task_from_file_steps(2) [OF c n None, of path] assms(3,4) show ?thesis by simp
    next
      case (Some s)
      with assms(1) obtain z where z: "plain_yaml_text z s" "yaml_parse L z = Some m'"
        unfolding lawful_yaml_def by blast
      from frontmatter_normalize [OF t n] obtain t' where
        all: "frontmatter_task L m' (fst (parse_body L body)) (snd (parse_body L body)) = Some t'
          \<and> task_core t' = task_core t \<and> (t_blocked t' = None) = (t_blocked t = None)" ..
      note d = conjunct1 [OF all] and t' = conjunct1 [OF conjunct2 [OF all]] conjunct2 [OF conjunct2 [OF all]]
      have "task_parse L (render_text s body) = Inr t'"
        unfolding task_parse_Inr using split_render_text [OF z(1)] z(2) d by blast
      with task_from_file_steps(3) [OF c n Some, of path] assms(3)
      have "r = Inr (t'\<lparr>t_source_path := path\<rparr>)" by simp
      with t' show ?thesis by (simp add: frontmatter_path)
    qed
  qed
qed

text \<open>An opened file still parses to the task, up to the repair.\<close>

lemma opened_parse:
  assumes "lawful_yaml L" and "task_parse L c = Inr t" and "opened L (n, c) (n', c')"
  shows "\<exists>t'. task_parse L c' = Inr t' \<and> task_core t' = task_core t
    \<and> (t_blocked t' = None) = (t_blocked t = None)"
proof (cases "c' = c")
  case False
  obtain r where f: "task_from_file L n c = (c', r)"
    using assms(3) False by (cases "task_from_file L n c") (auto simp: opened_def)
  with False have "\<exists>rep. normalize_task_frontmatter_content L c = Inr (Some (c', rep))"
    by (auto simp: task_from_file_def Let_def split: sum.splits option.splits)
  then have nu: "r \<noteq> Inl Unserializable"
    using f by (auto simp: task_from_file_def task_parse_def split_frontmatter_def Let_def res_bind_Inl
        split: option.splits)
  from from_file_keeps_task [OF assms(1,2) f nu] obtain t' where
    t': "r = Inr t' \<and> task_core t' = (task_core t)\<lparr>t_source_path := n\<rparr>
      \<and> (t_blocked t' = None) = (t_blocked t = None)" ..
  then obtain t1 where t1: "task_parse L c' = Inr t1" "t' = t1\<lparr>t_source_path := n\<rparr>"
    using f by (auto simp: task_from_file_def Let_def split: sum.splits option.splits)
  have "t_source_path t1 = []" "t_source_path t = []"
    using t1(1) assms(2) by (auto simp: task_parse_Inr frontmatter_task_def bind_eq_Some_conv)
  then have p: "t1\<lparr>t_source_path := []\<rparr> = t1" "t\<lparr>t_source_path := []\<rparr> = t" by (cases t1, simp, cases t, simp)
  from t' t1(2) have "(task_core t1)\<lparr>t_source_path := n\<rparr> = (task_core t)\<lparr>t_source_path := n\<rparr>"
    by (simp add: frontmatter_path)
  from arg_cong [OF this, of "\<lambda>x. x\<lparr>t_source_path := []\<rparr>"]
  have "task_core t1 = task_core t" by (simp add: frontmatter_path [symmetric] p)
  with t1 t' show ?thesis by auto
qed (use assms(2) in auto)

text \<open>The same on the front matter itself: an opened file has the mapping it had or the settled one,
  and the body it had; a file that was read has the settled one.\<close>

definition holds_mapping :: "libs \<Rightarrow> string \<Rightarrow> ymapping \<Rightarrow> string \<Rightarrow> bool" where
  "holds_mapping L c m body =
     (case split_frontmatter c of
        Inl e \<Rightarrow> False
      | Inr (fm, body') \<Rightarrow> body' = body \<and> yaml_parse L fm = Some m)"

lemma holds_mapping_iff:
  "holds_mapping L c m body \<longleftrightarrow> (\<exists>fm. split_frontmatter c = Inr (fm, body) \<and> yaml_parse L fm = Some m)"
  by (auto simp: holds_mapping_def split: sum.splits)

lemma from_file_mapping:
  assumes "lawful_yaml L" and "holds_mapping L c m body" and "task_from_file L path c = (c', r)"
  shows "holds_mapping L c' (settled_mapping L m) body \<or> (c' = c \<and> r = Inl Unserializable)"
proof -
  from assms(2) obtain fm where c: "split_frontmatter c = Inr (fm, body)" "yaml_parse L fm = Some m"
    by (auto simp: holds_mapping_iff)
  note n = normalize_mapping_settled [of m L]
  show ?thesis
  proof (cases "normalize_mapping L m")
    case None
    with task_from_file_steps(1) [OF c None, of path] assms(2,3) n show ?thesis by simp
  next
    case (Some u)
    then obtain m' rep where u: "normalize_mapping L m = Some (m', rep)" by (cases u) simp
    with n have m': "m' = settled_mapping L m" by simp
    show ?thesis
    proof (cases "yaml_print L m'")
      case None
      with task_from_file_steps(2) [OF c u None, of path] assms(3) show ?thesis by simp
    next
      case (Some s)
      with assms(1) obtain z where z: "plain_yaml_text z s" "yaml_parse L z = Some m'"
        unfolding lawful_yaml_def by blast
      from task_from_file_steps(3) [OF c u Some, of path] assms(3) have "c' = render_text s body" by simp
      with split_render_text [OF z(1), of body] z(2) m' show ?thesis by (auto simp: holds_mapping_iff)
    qed
  qed
qed

lemma opened_mapping:
  assumes "lawful_yaml L" and "holds_mapping L c m body" and "opened L (n, c) (n', c')"
  shows "holds_mapping L c' m body \<or> holds_mapping L c' (settled_mapping L m) body"
  using from_file_mapping [OF assms(1,2), of n] assms(2,3)
  by (cases "task_from_file L n c") (auto simp: opened_def)

section \<open>A concrete library for the examples\<close>

definition sample_mapping :: ymapping where
  "sample_mapping = [''id'' \<mapsto> YNum 7, ''title'' \<mapsto> YStr ''Fix'', ''blocked'' \<mapsto> YStr ''wait'']"

definition sample_repaired :: ymapping where
  "sample_repaired = set_blocked_reason sample_mapping (Some ''wait'') (Some ''wait'')"

definition sample_libs :: libs where
  "sample_libs = \<lparr>
     yaml_parse = (\<lambda>s. if s = ''old'' then Some sample_mapping
                       else if s = ''new'' then Some sample_repaired else None),
     yaml_print = (\<lambda>m. if m = sample_repaired then Some (''new'' @ [newline]) else None),
     scalar_text = (\<lambda>v. ''null''), toml_config = (\<lambda>s. None),
     rfc3339_parse = (\<lambda>s. if s = ''T+01:00'' then Some (0, 3600) else None),
     rfc3339_print = (\<lambda>d. ''T+01:00''),
     datetime_add = (\<lambda>t s. Some (t + s)), cron_valid = (\<lambda>s. True) \<rparr>"

definition sample_file :: string where
  "sample_file = fence @ [newline] @ ''old'' @ closing_fence @ [newline] @ ''Body''"

lemma sample_lawful: "lawful_time sample_libs" "lawful_yaml sample_libs"
proof -
  have "trim ''T+01:00'' = ''T+01:00''" by code_simp
  then show "lawful_time sample_libs" by (simp add: lawful_time_def sample_libs_def)
  have "plain_yaml_text ''new'' (''new'' @ [newline])" by code_simp
  then show "lawful_yaml sample_libs"
    by (auto simp: lawful_yaml_def sample_libs_def intro!: exI [of _ "''new''"])
qed

definition sample_task :: task where
  "sample_task = \<lparr> t_id = 7, t_title = ''Fix'', t_status = ''backlog'', t_priority = [],
     t_assignee = None, t_claimed_by = None, t_claimed_at = None, t_claim_ttl_secs = None,
     t_claim_expires_at = None, t_last_progress_at = None, t_claim_warning_sent_at = None,
     t_claim_extensions = None, t_last_output_bytes = None, t_blocked = Some ''wait'', t_tags = [],
     t_depends_on = [], t_review_owner = None, t_blocked_on = None, t_worktree_path = None,
     t_branch = None, t_commit = None, t_artifacts = [], t_next_action = None,
     t_scheduled_for = None, t_cron_schedule = None, t_cron_last_run = None, t_completed = None,
     t_description = ''Body'', t_batty_config = None, t_source_path = [] \<rparr>"

lemma sample_split: "split_frontmatter sample_file = Inr (''old'', ''Body'')"
  by code_simp

lemma sample_body: "parse_body sample_libs ''Body'' = (''Body'', None)"
proof -
  have "split_once config_marker ''Body'' = None" "trim ''Body'' = ''Body''" by code_simp+
  then show ?thesis by (simp add: parse_body_def)
qed

lemma sample_libs_fields [simp]:
  "yaml_parse sample_libs ''old'' = Some sample_mapping"
  "yaml_parse sample_libs ''new'' = Some sample_repaired"
  "yaml_print sample_libs sample_repaired = Some (''new'' @ [newline])"
  by (simp_all add: sample_libs_def)

lemma sample_parse: "task_parse sample_libs sample_file = Inr sample_task"
proof -
  have "frontmatter_task sample_libs sample_mapping ''Body'' None = Some sample_task"
    by (simp add: frontmatter_task_def sample_mapping_def sample_task_def field_req_def field_opt_def
        field_default_def default_status_def)
  then show ?thesis
    by (simp add: task_parse_def sample_split sample_body)
qed

lemma sample_normalize: "map_option fst (normalize_mapping sample_libs sample_mapping) = Some sample_repaired"
proof -
  have n: "normalize_timestamp_frontmatter_fields sample_libs sample_mapping = (sample_mapping, [])"
    by (simp add: normalize_timestamp_frontmatter_fields_def compat_timestamp_fields_def
        repair_timestamp_def get_str_def sample_mapping_def)
  have t: "trim ''wait'' = ''wait''" by code_simp
  then have "hidden_string_block sample_mapping" and l: "legacy_reason sample_mapping = Some ''wait''"
    by (simp_all add: hidden_string_block_def legacy_reason_def sample_mapping_def)
  moreover from l have "desired_blocked_on sample_mapping = Some ''wait''"
    by (simp add: desired_blocked_on_def get_str_def) (simp add: sample_mapping_def)
  ultimately show ?thesis by (simp add: normalize_mapping_def n rewrites_block_def sample_repaired_def)
qed

lemma sample_from_file:
  "\<exists>c'. task_from_file sample_libs path sample_file =
     (c', Inr (sample_task\<lparr>t_blocked_on := Some ''wait'', t_source_path := path\<rparr>))"
proof -
  obtain rep where n: "normalize_mapping sample_libs sample_mapping = Some (sample_repaired, rep)"
    using sample_normalize by auto
  have plain: "plain_yaml_text ''new'' (''new'' @ [newline])" by code_simp
  have "frontmatter_task sample_libs sample_repaired ''Body'' None = Some (sample_task\<lparr>t_blocked_on := Some ''wait''\<rparr>)"
    unfolding sample_repaired_def set_blocked_reason_Some sample_mapping_def
    by (simp add: frontmatter_task_def sample_task_def field_req_def field_opt_def field_default_def
        default_status_def)
  then show ?thesis
    using split_render_text [OF plain, of "''Body''"]
    by (simp add: task_from_file_def normalize_task_frontmatter_content_def sample_split n
        render_frontmatter_content_def task_parse_def sample_body)
qed

section \<open>Properties\<close>

text \<open>
  C10. Writing front matter and body and splitting the file again gives both back, for every
  body, also one that has fences of its own: the body is never altered by an update of the
  front matter.
\<close>

theorem split_render_roundtrip:
  assumes "plain_yaml_text z s"
  shows "split_frontmatter (render_text s body) = Inr (z, body)"
  using assms by (rule split_render_text)

theorem split_render_roundtrip_witness:
  "split_frontmatter (render_text (''id: 1'' @ [newline]) ''a --- b'') = Inr (''id: 1'', ''a --- b'')"
  by (rule split_render_roundtrip) code_simp

text \<open>
  C8. The repair of legacy front matter settles at once: loading the board a second time
  changes no file and yields the same tasks, which are sorted by id and are exactly the tasks
  of the Markdown files that can be read.
\<close>

theorem load_settles:
  assumes "lawful_time L" and "lawful_yaml L" and "load_tasks_from_dir L dir = (dir', tasks)"
  shows "load_tasks_from_dir L dir' = (dir', tasks) \<and> sorted (map t_id tasks)
    \<and> set tasks = {t. \<exists>(name, c) \<in> set dir. has_md_extension name \<and> snd (task_from_file L name c) = Inr t}"
proof -
  have "load_tasks_from_dir L dir' = (dir', tasks)"
    using load_after_load [OF assms(1,2), of dir] assms(3) by simp
  moreover have "sorted (map t_id tasks)" using load_tasks_sorted [of L dir] assms(3) by simp
  moreover have "set tasks = {t. \<exists>(name, c) \<in> set dir. has_md_extension name \<and> snd (task_from_file L name c) = Inr t}"
    using set_load_tasks [of L dir] assms(3) by (simp add: load_entry_iff)
  ultimately show ?thesis by blast
qed

theorem load_settles_witness:
  "load_tasks_from_dir sample_libs (fst (load_tasks_from_dir sample_libs [(''7-fix.md'', sample_file)]))
     = load_tasks_from_dir sample_libs [(''7-fix.md'', sample_file)]"
  using load_settles [OF sample_lawful surjective_pairing, of "[(''7-fix.md'', sample_file)]"] by simp

text \<open>
  C13. The look-up of a task by its id is sound and complete, however the files are named: it
  returns a file whose task has the id, and fails only when no readable Markdown file has it.
\<close>

theorem find_task_sound_complete:
  assumes "lawful_time L" and "lawful_yaml L" and "find_task_path_by_id L dir i = (dir', r)"
  shows "case r of
      Inr name \<Rightarrow> \<exists>c t. (name, c) \<in> set dir \<and> snd (task_from_file L name c) = Inr t \<and> t_id t = i
    | Inl e \<Rightarrow> e = TaskNotFound i
        \<and> i \<notin> t_id ` {t. \<exists>(name, c) \<in> set dir. has_md_extension name \<and> snd (task_from_file L name c) = Inr t}"
  using find_task_load [OF assms] load_entry_Some [of L] by (fastforce split: sum.split)

theorem find_task_sound_complete_witness:
  "\<exists>dir' r. find_task_path_by_id sample_libs [(''7-fix.md'', sample_file)] 7 = (dir', r)
   \<and> (case r of Inr name \<Rightarrow> name = ''7-fix.md'' | Inl e \<Rightarrow> False)"
proof -
  obtain dir' r where r: "find_task_path_by_id sample_libs [(''7-fix.md'', sample_file)] 7 = (dir', r)"
    by fastforce
  have "has_md_extension ''7-fix.md''" by code_simp
  moreover obtain c' where "task_from_file sample_libs ''7-fix.md'' sample_file
      = (c', Inr (sample_task\<lparr>t_blocked_on := Some ''wait'', t_source_path := ''7-fix.md''\<rparr>))"
    using sample_from_file by blast
  ultimately show ?thesis
    using find_task_sound_complete [OF sample_lawful r] r
    by (cases r) (auto simp: sample_task_def)
qed

text \<open>
  A legacy time stamp with an offset such as \<open>+0100\<close> is read as the same time stamp with
  the colon in the offset: the daemon's clocks do not depend on which tool wrote the file.
\<close>

theorem legacy_timestamp_read:
  assumes "is_digit a" "is_digit b" "is_digit c" "is_digit d" and "sign \<in> {CHR ''+'', CHR ''-''}"
    and "trim (s @ [sign, a, b, c, d]) = s @ [sign, a, b, c, d]"
    and "rfc3339_parse L (s @ [sign, a, b, c, d]) = None"
    and "rfc3339_parse L (s @ [sign, a, b, CHR '':'', c, d]) = Some ts"
    and "rfc3339_parse L (rfc3339_print L ts) = Some ts"
  shows "parse_frontmatter_timestamp L (s @ [sign, a, b, c, d]) = Some ts"
proof -
  have "legacy_offset_candidate (s @ [sign, a, b, c, d]) = Some (s @ [sign, a, b, CHR '':'', c, d])"
    using assms(1-5) by (auto simp: legacy_offset_candidate_def Let_def assms(6) starts_with_def)
  with assms(6-9) show ?thesis
    by (simp add: parse_frontmatter_timestamp_def normalize_legacy_timestamp_value_def Let_def)
qed

theorem legacy_timestamp_read_witness:
  "parse_frontmatter_timestamp sample_libs ''T+0100'' = Some (0, 3600)"
  using legacy_timestamp_read [of "CHR ''0''" "CHR ''1''" "CHR ''0''" "CHR ''0''" "CHR ''+''" "''T''"
      sample_libs "(0, 3600)"]
  by (simp add: is_digit_def digits_def sample_libs_def trim_by_def trim_end_by_def trim_start_by_def is_ws_def)

end
