(* ===== verification/Board_Metadata.thy ===== *)
theory Board_Metadata
  imports Task_Model
begin

text \<open>
  The workflow metadata that the daemon keeps in the front matter of a task file
  (\<open>src/team/board.rs\<close>, with the test results of \<open>src/team/test_results.rs\<close>):
  how it is read from a mapping and written back into one.
\<close>

section \<open>Test results\<close>

record test_failure =
  tf_test_name :: string
  tf_message :: "string option"
  tf_location :: "string option"

record test_results =
  tr_framework :: string
  tr_total :: "nat option"
  tr_passed :: nat
  tr_failed :: nat
  tr_ignored :: nat
  tr_failures :: "test_failure list"
  tr_summary :: "string option"

definition failure_text :: "test_failure \<Rightarrow> string" where
  "failure_text f =
     tf_test_name f @
     (case opt_filter (\<lambda>m. m \<noteq> []) (tf_message f) of
        Some message \<Rightarrow>
          '' ('' @ message
          @ (case opt_filter (\<lambda>l. l \<noteq> []) (tf_location f) of
               Some location \<Rightarrow> '' at '' @ location | None \<Rightarrow> [])
          @ '')''
      | None \<Rightarrow>
          (case opt_filter (\<lambda>l. l \<noteq> []) (tf_location f) of
             Some location \<Rightarrow> '' (at '' @ location @ '')'' | None \<Rightarrow> []))"

definition failure_summary :: "test_results \<Rightarrow> string" where
  "failure_summary r =
     (if tr_failed r = 0 \<or> tr_failures r = [] then ''tests failed''
      else
        let details = join ''; '' (map failure_text (take 3 (tr_failures r)));
            more = length (tr_failures r) - 3
        in if 0 < more
           then show_nat (tr_failed r) @ '' tests failed: '' @ details @ ''; +'' @ show_nat more @ '' more''
           else show_nat (tr_failed r) @ '' tests failed: '' @ details)"

text \<open>The serialised forms: absent options are left out.\<close>

definition opt_entry :: "string \<Rightarrow> yaml option \<Rightarrow> (yaml \<times> yaml) list" where
  "opt_entry k v = (case v of None \<Rightarrow> [] | Some y \<Rightarrow> [(YStr k, y)])"

definition ser_test_failure :: "test_failure \<Rightarrow> yaml" where
  "ser_test_failure f = YMap ([(YStr ''test_name'', YStr (tf_test_name f))]
     @ opt_entry ''message'' (map_option YStr (tf_message f))
     @ opt_entry ''location'' (map_option YStr (tf_location f)))"

definition ser_test_results :: "test_results \<Rightarrow> yaml" where
  "ser_test_results r = YMap ([(YStr ''framework'', YStr (tr_framework r))]
     @ opt_entry ''total'' (map_option (\<lambda>n. YNum (int n)) (tr_total r))
     @ [(YStr ''passed'', YNum (int (tr_passed r))), (YStr ''failed'', YNum (int (tr_failed r))),
        (YStr ''ignored'', YNum (int (tr_ignored r))),
        (YStr ''failures'', YSeq (map ser_test_failure (tr_failures r)))]
     @ opt_entry ''summary'' (map_option YStr (tr_summary r)))"

definition entries :: "(yaml \<times> yaml) list \<Rightarrow> ymapping" where
  "entries kvs k = map_of kvs (YStr k)"

fun de_test_failure :: "libs \<Rightarrow> yaml \<Rightarrow> test_failure option" where
  "de_test_failure L (YMap kvs) =
     do { name \<leftarrow> field_req (de_string L) (entries kvs) ''test_name'';
          message \<leftarrow> field_opt (de_string L) (entries kvs) ''message'';
          location \<leftarrow> field_opt (de_string L) (entries kvs) ''location'';
          Some \<lparr> tf_test_name = name, tf_message = message, tf_location = location \<rparr> }"
| "de_test_failure L _ = None"

fun de_test_results :: "libs \<Rightarrow> yaml \<Rightarrow> test_results option" where
  "de_test_results L (YMap kvs) =
     do { framework \<leftarrow> field_req (de_string L) (entries kvs) ''framework'';
          total \<leftarrow> field_opt (de_uint 32) (entries kvs) ''total'';
          passed \<leftarrow> field_req (de_uint 32) (entries kvs) ''passed'';
          failed \<leftarrow> field_req (de_uint 32) (entries kvs) ''failed'';
          ignored \<leftarrow> field_req (de_uint 32) (entries kvs) ''ignored'';
          failures \<leftarrow> field_default [] (de_seq (de_test_failure L)) (entries kvs) ''failures'';
          summary \<leftarrow> field_opt (de_string L) (entries kvs) ''summary'';
          Some \<lparr> tr_framework = framework, tr_total = total, tr_passed = passed,
                 tr_failed = failed, tr_ignored = ignored, tr_failures = failures,
                 tr_summary = summary \<rparr> }"
| "de_test_results L _ = None"

section \<open>Workflow metadata\<close>

record workflow_metadata =
  md_branch :: "string option"
  md_worktree_path :: "string option"
  md_commit :: "string option"
  md_changed_paths :: "string list"
  md_tests_run :: "bool option"
  md_tests_passed :: "bool option"
  md_test_results :: "test_results option"
  md_artifacts :: "string list"
  md_outcome :: "string option"
  md_review_blockers :: "string list"

definition default_metadata :: workflow_metadata where
  "default_metadata = \<lparr> md_branch = None, md_worktree_path = None, md_commit = None,
     md_changed_paths = [], md_tests_run = None, md_tests_passed = None, md_test_results = None,
     md_artifacts = [], md_outcome = None, md_review_blockers = [] \<rparr>"

text \<open>The \<open>WorkflowFrontmatter\<close> structure and its conversion, in one step.\<close>

definition metadata_of_mapping :: "libs \<Rightarrow> ymapping \<Rightarrow> workflow_metadata option" where
  "metadata_of_mapping L m =
     do { branch \<leftarrow> field_opt (de_string L) m ''branch'';
          worktree_path \<leftarrow> field_opt (de_string L) m ''worktree_path'';
          commit \<leftarrow> field_opt (de_string L) m ''commit'';
          changed_paths \<leftarrow> field_default [] (de_seq (de_string L)) m ''changed_paths'';
          tests_run \<leftarrow> field_opt de_bool m ''tests_run'';
          tests_passed \<leftarrow> field_opt de_bool m ''tests_passed'';
          test_results \<leftarrow> field_opt (de_test_results L) m ''test_results'';
          artifacts \<leftarrow> field_default [] (de_seq (de_string L)) m ''artifacts'';
          outcome \<leftarrow> field_opt (de_string L) m ''outcome'';
          review_blockers \<leftarrow> field_default [] (de_seq (de_string L)) m ''review_blockers'';
          Some \<lparr> md_branch = branch, md_worktree_path = worktree_path, md_commit = commit,
                 md_changed_paths = changed_paths, md_tests_run = tests_run,
                 md_tests_passed = tests_passed, md_test_results = test_results,
                 md_artifacts = artifacts, md_outcome = outcome,
                 md_review_blockers = review_blockers \<rparr> }"

definition set_optional_bool :: "ymapping \<Rightarrow> string \<Rightarrow> bool option \<Rightarrow> ymapping" where
  "set_optional_bool m k v = m(k := map_option YBool v)"

definition set_string_list :: "ymapping \<Rightarrow> string \<Rightarrow> string list \<Rightarrow> ymapping" where
  "set_string_list m k vs = (if vs = [] then m(k := None) else m(k \<mapsto> YSeq (map YStr vs)))"

definition set_optional_value :: "ymapping \<Rightarrow> string \<Rightarrow> yaml option \<Rightarrow> ymapping" where
  "set_optional_value m k v = m(k := v)"

definition write_metadata_mapping :: "workflow_metadata \<Rightarrow> ymapping \<Rightarrow> ymapping" where
  "write_metadata_mapping md m =
     (let m = set_optional_string m ''branch'' (md_branch md);
          m = set_optional_string m ''worktree_path'' (md_worktree_path md);
          m = set_optional_string m ''commit'' (md_commit md);
          m = set_string_list m ''changed_paths'' (md_changed_paths md);
          m = set_optional_bool m ''tests_run'' (md_tests_run md);
          m = set_optional_bool m ''tests_passed'' (md_tests_passed md);
          m = set_optional_value m ''test_results'' (map_option ser_test_results (md_test_results md));
          m = set_string_list m ''artifacts'' (md_artifacts md);
          m = set_optional_string m ''outcome'' (md_outcome md);
          m = set_string_list m ''review_blockers'' (md_review_blockers md)
      in m)"

text \<open>On the contents of a file.\<close>

definition read_workflow_metadata :: "libs \<Rightarrow> string \<Rightarrow> task_error + workflow_metadata" where
  "read_workflow_metadata L content =
     res_bind (split_frontmatter content) (\<lambda>(frontmatter, _).
       case Option.bind (yaml_parse L frontmatter) (metadata_of_mapping L) of
         None \<Rightarrow> Inl BadYaml
       | Some md \<Rightarrow> Inr md)"

definition write_workflow_metadata :: "libs \<Rightarrow> workflow_metadata \<Rightarrow> string \<Rightarrow> task_error + string" where
  "write_workflow_metadata L md content =
     res_bind (split_frontmatter content) (\<lambda>(frontmatter, body).
       case yaml_parse L frontmatter of
         None \<Rightarrow> Inl BadYaml
       | Some m \<Rightarrow> render_frontmatter_content L (write_metadata_mapping md m) body)"

section \<open>Lemmas\<close>

definition results_in_range :: "test_results \<Rightarrow> bool" where
  "results_in_range r =
     (tr_passed r < 2 ^ 32 \<and> tr_failed r < 2 ^ 32 \<and> tr_ignored r < 2 ^ 32
      \<and> (case tr_total r of None \<Rightarrow> True | Some n \<Rightarrow> n < 2 ^ 32))"

lemma entries_simps [simp]:
  "entries [] k = None"
  "entries ((YStr k', v) # kvs) k = (if k = k' then Some v else entries kvs k)"
  "entries (opt_entry k' u @ kvs) k = (if k = k' \<and> u \<noteq> None then u else entries kvs k)"
  "entries (opt_entry k' u) k = (if k = k' then u else None)"
  by (auto simp: entries_def opt_entry_def split: option.splits)

lemma field_opt_None: "m k = None \<Longrightarrow> field_opt d m k = Some None"
  by (simp add: field_opt_def)

lemma field_opt_str: "m k = map_option YStr v \<Longrightarrow> field_opt (de_string L) m k = Some v"
  by (cases v) (simp_all add: field_opt_def)

lemma field_opt_bool: "m k = map_option YBool v \<Longrightarrow> field_opt de_bool m k = Some v"
  by (cases v) (simp_all add: field_opt_def)

lemma field_opt_num:
  "m k = map_option (\<lambda>n. YNum (int n)) v \<Longrightarrow> (case v of None \<Rightarrow> True | Some n \<Rightarrow> n < 2 ^ w)
     \<Longrightarrow> field_opt (de_uint w) m k = Some v"
  by (cases v) (simp_all add: field_opt_def)

lemma collect_opt_map_Some: "(\<And>x. x \<in> set xs \<Longrightarrow> f (g x) = Some x) \<Longrightarrow> collect_opt (map f (map g xs)) = Some xs"
  by (simp add: collect_opt_Some)

lemma field_strings:
  "m k = (if vs = [] then None else Some (YSeq (map YStr vs)))
     \<Longrightarrow> field_default [] (de_seq (de_string L)) m k = Some vs"
  using collect_opt_map_Some [of vs "de_string L" YStr] by (simp add: field_default_def)

lemma de_ser_failure: "de_test_failure L (ser_test_failure f) = Some f"
proof -
  let ?m = "entries ([(YStr ''test_name'', YStr (tf_test_name f))]
     @ opt_entry ''message'' (map_option YStr (tf_message f))
     @ opt_entry ''location'' (map_option YStr (tf_location f)))"
  have "field_req (de_string L) ?m ''test_name'' = Some (tf_test_name f)"
    by (simp add: field_req_def)
  moreover have "field_opt (de_string L) ?m ''message'' = Some (tf_message f)"
    by (rule field_opt_str) simp
  moreover have "field_opt (de_string L) ?m ''location'' = Some (tf_location f)"
    by (rule field_opt_str) simp
  ultimately show ?thesis by (simp add: ser_test_failure_def)
qed

lemma de_ser_results:
  assumes "results_in_range r" shows "de_test_results L (ser_test_results r) = Some r"
proof -
  let ?kvs = "[(YStr ''framework'', YStr (tr_framework r))]
     @ opt_entry ''total'' (map_option (\<lambda>n. YNum (int n)) (tr_total r))
     @ [(YStr ''passed'', YNum (int (tr_passed r))), (YStr ''failed'', YNum (int (tr_failed r))),
        (YStr ''ignored'', YNum (int (tr_ignored r))),
        (YStr ''failures'', YSeq (map ser_test_failure (tr_failures r)))]
     @ opt_entry ''summary'' (map_option YStr (tr_summary r))"
  let ?m = "entries ?kvs"
  have f: "field_req (de_string L) ?m ''framework'' = Some (tr_framework r)"
    "field_req (de_uint 32) ?m ''passed'' = Some (tr_passed r)"
    "field_req (de_uint 32) ?m ''failed'' = Some (tr_failed r)"
    "field_req (de_uint 32) ?m ''ignored'' = Some (tr_ignored r)"
    using assms by (simp_all add: field_req_def results_in_range_def)
  have t: "field_opt (de_uint 32) ?m ''total'' = Some (tr_total r)"
    by (rule field_opt_num) (use assms in \<open>simp_all add: results_in_range_def\<close>)
  have s: "field_opt (de_string L) ?m ''summary'' = Some (tr_summary r)"
    by (rule field_opt_str) simp
  have "collect_opt (map (de_test_failure L) (map ser_test_failure (tr_failures r))) = Some (tr_failures r)"
    by (rule collect_opt_map_Some) (rule de_ser_failure)
  then have fs: "field_default [] (de_seq (de_test_failure L)) ?m ''failures'' = Some (tr_failures r)"
    by (simp add: field_default_def)
  show ?thesis
    unfolding ser_test_results_def de_test_results.simps f t s fs by simp
qed

lemma set_string_list_upd:
  "set_string_list m k vs = m(k := (if vs = [] then None else Some (YSeq (map YStr vs))))"
  by (simp add: set_string_list_def)

lemma write_metadata_upd:
  "write_metadata_mapping md m = m(
     ''branch'' := map_option YStr (md_branch md),
     ''worktree_path'' := map_option YStr (md_worktree_path md),
     ''commit'' := map_option YStr (md_commit md),
     ''changed_paths'' := (if md_changed_paths md = [] then None else Some (YSeq (map YStr (md_changed_paths md)))),
     ''tests_run'' := map_option YBool (md_tests_run md),
     ''tests_passed'' := map_option YBool (md_tests_passed md),
     ''test_results'' := map_option ser_test_results (md_test_results md),
     ''artifacts'' := (if md_artifacts md = [] then None else Some (YSeq (map YStr (md_artifacts md)))),
     ''outcome'' := map_option YStr (md_outcome md),
     ''review_blockers'' := (if md_review_blockers md = [] then None else Some (YSeq (map YStr (md_review_blockers md)))))"
  unfolding write_metadata_mapping_def Let_def set_optional_string_def set_string_list_upd
    set_optional_bool_def set_optional_value_def by (rule refl)

lemma metadata_of_written:
  assumes "case md_test_results md of None \<Rightarrow> True | Some r \<Rightarrow> results_in_range r"
  shows "metadata_of_mapping L (write_metadata_mapping md m) = Some md"
proof -
  let ?w = "write_metadata_mapping md m"
  have t: "field_opt (de_test_results L) ?w ''test_results'' = Some (md_test_results md)"
  proof (cases "md_test_results md")
    case (Some r)
    then have "?w ''test_results'' = Some (ser_test_results r)" by (simp add: write_metadata_upd)
    moreover have "de_test_results L (ser_test_results r) = Some r"
      using assms Some by (simp add: de_ser_results)
    ultimately show ?thesis using Some by (simp add: field_opt_def ser_test_results_def del: de_test_results.simps)
  qed (simp add: field_opt_def write_metadata_upd)
  have s: "field_opt (de_string L) ?w ''branch'' = Some (md_branch md)"
    "field_opt (de_string L) ?w ''worktree_path'' = Some (md_worktree_path md)"
    "field_opt (de_string L) ?w ''commit'' = Some (md_commit md)"
    "field_opt (de_string L) ?w ''outcome'' = Some (md_outcome md)"
    by (rule field_opt_str, simp add: write_metadata_upd)+
  have l: "field_default [] (de_seq (de_string L)) ?w ''changed_paths'' = Some (md_changed_paths md)"
    "field_default [] (de_seq (de_string L)) ?w ''artifacts'' = Some (md_artifacts md)"
    "field_default [] (de_seq (de_string L)) ?w ''review_blockers'' = Some (md_review_blockers md)"
    by (rule field_strings, simp add: write_metadata_upd)+
  have b: "field_opt de_bool ?w ''tests_run'' = Some (md_tests_run md)"
    "field_opt de_bool ?w ''tests_passed'' = Some (md_tests_passed md)"
    by (rule field_opt_bool, simp add: write_metadata_upd)+
  show ?thesis unfolding metadata_of_mapping_def s l b t by simp
qed

section \<open>Properties\<close>

text \<open>
  C26. Workflow metadata round trip: what is written into a task file is read back from it,
  test results included, whatever the file held before, and the body of the file stays.
\<close>

theorem metadata_roundtrip:
  assumes "lawful_yaml L" and "write_workflow_metadata L md content = Inr content'"
    and "case md_test_results md of None \<Rightarrow> True | Some r \<Rightarrow> results_in_range r"
  shows "read_workflow_metadata L content' = Inr md
    \<and> map_sum id snd (split_frontmatter content') = map_sum id snd (split_frontmatter content)"
proof -
  from assms(2) obtain fm body where sp: "split_frontmatter content = Inr (fm, body)"
    by (auto simp: write_workflow_metadata_def)
  with assms(2) obtain m where m: "yaml_parse L fm = Some m"
    by (cases "yaml_parse L fm") (auto simp: write_workflow_metadata_def)
  from assms(2) sp m obtain s where s: "yaml_print L (write_metadata_mapping md m) = Some s"
    and c': "content' = render_text s body"
    by (cases "yaml_print L (write_metadata_mapping md m)")
      (auto simp: write_workflow_metadata_def render_frontmatter_content_def)
  from assms(1) s obtain z where z: "plain_yaml_text z s"
    "yaml_parse L z = Some (write_metadata_mapping md m)"
    unfolding lawful_yaml_def by blast
  show ?thesis
    using metadata_of_written [OF assms(3), of L m]
    by (simp add: read_workflow_metadata_def c' split_render_text [OF z(1)] z(2) sp)
qed

definition metadata_sample :: workflow_metadata where
  "metadata_sample = default_metadata\<lparr>md_branch := Some ''eng-1/7'', md_tests_passed := Some True,
     md_test_results := Some \<lparr> tr_framework = ''cargo'', tr_total = Some 3, tr_passed = 3,
       tr_failed = 0, tr_ignored = 0, tr_failures = [], tr_summary = None \<rparr>\<rparr>"

definition metadata_libs :: libs where
  "metadata_libs = sample_libs\<lparr>
     yaml_print := (\<lambda>m. if m = write_metadata_mapping metadata_sample sample_mapping
                        then Some (''new'' @ [newline]) else None),
     yaml_parse := (\<lambda>s. if s = ''old'' then Some sample_mapping
                        else Some (write_metadata_mapping metadata_sample sample_mapping)) \<rparr>"

theorem metadata_roundtrip_witness:
  "\<exists>content'. write_workflow_metadata metadata_libs metadata_sample sample_file = Inr content'
    \<and> read_workflow_metadata metadata_libs content' = Inr metadata_sample"
proof -
  have plain: "plain_yaml_text ''new'' (''new'' @ [newline])" by code_simp
  then have law: "lawful_yaml metadata_libs"
    by (auto simp: lawful_yaml_def metadata_libs_def intro!: exI [of _ "''new''"])
  have w: "write_workflow_metadata metadata_libs metadata_sample sample_file
      = Inr (render_text (''new'' @ [newline]) ''Body'')"
    by (simp add: write_workflow_metadata_def sample_split metadata_libs_def render_frontmatter_content_def)
  have "read_workflow_metadata metadata_libs (render_text (''new'' @ [newline]) ''Body'') = Inr metadata_sample"
    by (rule conjunct1 [OF metadata_roundtrip [OF law w]])
      (simp add: metadata_sample_def results_in_range_def)
  with w show ?thesis by blast
qed

end
