(* ===== verification/Task_Cmd.thy ===== *)
theory Task_Cmd
  imports Workflow Board_Metadata
begin

text \<open>
  The commands on tasks (\<open>src/team/task_cmd.rs\<close>): transitions, blocking, ownership and
  claims, dependencies, reviews, updates and schedules, each of them an edit of the front
  matter of one task file, with the entry it leaves in the activity log and the message it may
  leave in an inbox.

  A command is a function of the board that returns the new board and a result: an error can
  come after some of the files have been written, so the board that is left is part of the
  result.  Reading and writing a task file is assumed to succeed; the activity log may refuse an
  entry, which every command that writes one reports after the task file has been rewritten.
\<close>

section \<open>The board and its commands\<close>

record activity =
  ac_timestamp :: int
  ac_action :: string
  ac_task_id :: nat
  ac_detail :: string
  ac_actor :: string
  ac_source :: string
  ac_actor_id :: "string option"

record attribution =
  at_actor :: string
  at_source :: string
  at_actor_id :: "string option"

record inbox_send =
  is_from :: string
  is_to :: string
  is_body :: string

text \<open>The activity log may fail to be opened or written: whether it takes another entry when it
  holds \<open>n\<close> of them is part of the board's surroundings and changed by no command.\<close>

record board =
  bd_files :: task_dir
  bd_activity :: "activity list"
  bd_inbox :: "inbox_send list"
  bd_log_takes :: "nat \<Rightarrow> bool"

datatype cmd_error =
    TaskError task_error
  | FileMissing string
  | NoOwnerGiven
  | NoFieldsGiven
  | NoScheduleGiven
  | UnknownTaskState string
  | UnknownDisposition string
  | IllegalTransition string
  | InvalidTimestamp string
  | InvalidCron string
  | DateOverflow
  | ActivityLogFailed

type_synonym 'a cmd = "board \<Rightarrow> board \<times> (cmd_error + 'a)"

definition cmd_return :: "'a \<Rightarrow> 'a cmd" where "cmd_return x b = (b, Inr x)"
definition cmd_fail :: "cmd_error \<Rightarrow> 'a cmd" where "cmd_fail e b = (b, Inl e)"

definition cmd_bind :: "'a cmd \<Rightarrow> ('a \<Rightarrow> 'c cmd) \<Rightarrow> 'c cmd" where
  "cmd_bind c f b = (case c b of (b', Inl e) \<Rightarrow> (b', Inl e) | (b', Inr x) \<Rightarrow> f x b')"

definition cmd_lift :: "cmd_error + 'a \<Rightarrow> 'a cmd" where "cmd_lift r b = (b, r)"

fun task_err :: "task_error + 'a \<Rightarrow> cmd_error + 'a" where
  "task_err (Inl e) = Inl (TaskError e)"
| "task_err (Inr x) = Inr x"

definition write_file :: "string \<Rightarrow> string \<Rightarrow> task_dir \<Rightarrow> task_dir" where
  "write_file path c dir = map (\<lambda>(n, c0). if n = path then (n, c) else (n, c0)) dir"

section \<open>States and dispositions by name\<close>

definition parse_task_state :: "string \<Rightarrow> cmd_error + task_state" where
  "parse_task_state value =
     (let v = replace_char (CHR ''-'') (CHR ''_'') (trim value) in
      if v = ''backlog'' then Inr Backlog
      else if v = ''todo'' then Inr Todo
      else if v = ''in_progress'' then Inr In_Progress
      else if v = ''review'' then Inr Review
      else if v = ''blocked'' then Inr Blocked
      else if v = ''done'' then Inr Done
      else if v = ''archived'' then Inr Archived
      else Inl (UnknownTaskState v))"

fun state_name :: "task_state \<Rightarrow> string" where
  "state_name Backlog = ''backlog''"
| "state_name Todo = ''todo''"
| "state_name In_Progress = ''in-progress''"
| "state_name Review = ''review''"
| "state_name Blocked = ''blocked''"
| "state_name Done = ''done''"
| "state_name Archived = ''archived''"

definition parse_review_disposition :: "string \<Rightarrow> cmd_error + review_disposition" where
  "parse_review_disposition value =
     (let v = replace_char (CHR ''-'') (CHR ''_'') (trim value) in
      if v = ''approved'' then Inr Approved
      else if v = ''changes_requested'' then Inr Changes_Requested
      else if v = ''rejected'' then Inr Rejected
      else Inl (UnknownDisposition v))"

fun review_disposition_name :: "review_disposition \<Rightarrow> string" where
  "review_disposition_name Approved = ''approved''"
| "review_disposition_name Changes_Requested = ''changes_requested''"
| "review_disposition_name Rejected = ''rejected''"

definition normalize_optional :: "string \<Rightarrow> string option" where
  "normalize_optional value = (let t = trim value in if t = [] then None else Some t)"

definition normalize_cron :: "string \<Rightarrow> string" where
  "normalize_cron expr = (if length (split_whitespace expr) = 5 then ''0 '' @ expr else expr)"

section \<open>Edits of the mapping\<close>

definition set_status :: "task_state \<Rightarrow> ymapping \<Rightarrow> ymapping" where
  "set_status s m = m(''status'' \<mapsto> YStr (state_name s))"

definition set_optional_u64 :: "ymapping \<Rightarrow> string \<Rightarrow> nat option \<Rightarrow> ymapping" where
  "set_optional_u64 m k v = m(k := map_option (\<lambda>n. YNum (int n)) v)"

definition set_optional_u32 :: "ymapping \<Rightarrow> string \<Rightarrow> nat option \<Rightarrow> ymapping" where
  "set_optional_u32 m k v = set_optional_u64 m k v"

definition transition_edit :: "task_state \<Rightarrow> ymapping \<Rightarrow> ymapping" where
  "transition_edit target m =
     (let m = set_status target m in if target \<noteq> Blocked then clear_blocked m else m)"

definition block_edit :: "string \<Rightarrow> ymapping \<Rightarrow> ymapping" where
  "block_edit reason m = set_blocked_reason (set_status Blocked m) (Some reason) (Some reason)"

definition rfc_now :: "libs \<Rightarrow> int \<Rightarrow> string" where
  "rfc_now L now = rfc3339_print L (now, 0)"

definition assign_edit ::
  "libs \<Rightarrow> int \<Rightarrow> string option \<Rightarrow> string option \<Rightarrow> ymapping \<Rightarrow> ymapping" where
  "assign_edit L now exec_owner review_owner m0 =
     (let m =
        (case exec_owner of
           None \<Rightarrow> m0
         | Some owner \<Rightarrow>
             (let normalized_owner = normalize_optional owner;
                  m = set_optional_string m0 ''claimed_by'' normalized_owner
              in if normalized_owner \<noteq> None then
                   (let m = set_optional_string m ''claimed_at'' (Some (rfc_now L now));
                        m = set_optional_string m ''last_progress_at'' (Some (rfc_now L now));
                        m = set_optional_u64 m ''claim_ttl_secs'' None;
                        m = set_optional_string m ''claim_expires_at'' None;
                        m = set_optional_string m ''claim_warning_sent_at'' None;
                        m = set_optional_u32 m ''claim_extensions'' None;
                        m = set_optional_u64 m ''last_output_bytes'' None
                    in m)
                 else
                   (let m = set_optional_string m ''claimed_at'' None;
                        m = set_optional_string m ''last_progress_at'' None;
                        m = set_optional_u64 m ''claim_ttl_secs'' None;
                        m = set_optional_string m ''claim_expires_at'' None;
                        m = set_optional_string m ''claim_warning_sent_at'' None;
                        m = set_optional_u32 m ''claim_extensions'' None;
                        m = set_optional_u64 m ''last_output_bytes'' None
                    in m)))
      in case review_owner of
           None \<Rightarrow> m
         | Some owner \<Rightarrow> set_optional_string m ''review_owner'' (normalize_optional owner))"

definition release_edit :: "ymapping \<Rightarrow> ymapping" where
  "release_edit m0 =
     (let m = set_optional_string m0 ''claimed_by'' None;
          m = set_optional_string m ''claimed_at'' None;
          m = set_optional_u64 m ''claim_ttl_secs'' None;
          m = set_optional_string m ''claim_expires_at'' None;
          m = set_optional_string m ''last_progress_at'' None;
          m = set_optional_string m ''claim_warning_sent_at'' None;
          m = set_optional_u32 m ''claim_extensions'' None;
          m = set_optional_u64 m ''last_output_bytes'' None
      in m)"

definition unclaim_edit :: "ymapping \<Rightarrow> ymapping" where
  "unclaim_edit m0 =
     (let m = set_optional_string m0 ''claimed_by'' None;
          m = set_optional_string m ''review_owner'' None;
          m = set_optional_string m ''claimed_at'' None;
          m = set_optional_u64 m ''claim_ttl_secs'' None;
          m = set_optional_string m ''claim_expires_at'' None;
          m = set_optional_string m ''last_progress_at'' None;
          m = set_optional_string m ''claim_warning_sent_at'' None;
          m = set_optional_u32 m ''claim_extensions'' None;
          m = set_optional_u64 m ''last_output_bytes'' None
      in m)"

definition reclaim_edit :: "string \<Rightarrow> ymapping \<Rightarrow> ymapping" where
  "reclaim_edit next_action m0 =
     (let m = set_optional_string m0 ''claimed_by'' None;
          m = set_optional_string m ''review_owner'' None;
          m = set_optional_string m ''claimed_at'' None;
          m = set_optional_u64 m ''claim_ttl_secs'' None;
          m = set_optional_string m ''claim_expires_at'' None;
          m = set_optional_string m ''last_progress_at'' None;
          m = set_optional_string m ''claim_warning_sent_at'' None;
          m = set_optional_u32 m ''claim_extensions'' None;
          m = set_optional_u64 m ''last_output_bytes'' None;
          m = set_optional_string m ''next_action'' (Some next_action)
      in set_status Todo m)"

definition initialize_claim_edit :: "libs \<Rightarrow> int \<Rightarrow> int \<Rightarrow> nat \<Rightarrow> nat \<Rightarrow> ymapping \<Rightarrow> ymapping" where
  "initialize_claim_edit L now expires_at ttl_secs output_bytes m0 =
     (let m = set_optional_string m0 ''claimed_at'' (Some (rfc_now L now));
          m = set_optional_u64 m ''claim_ttl_secs'' (Some ttl_secs);
          m = set_optional_string m ''claim_expires_at'' (Some (rfc_now L expires_at));
          m = set_optional_string m ''last_progress_at'' (Some (rfc_now L now));
          m = set_optional_string m ''claim_warning_sent_at'' None;
          m = set_optional_u32 m ''claim_extensions'' (Some 0);
          m = set_optional_u64 m ''last_output_bytes'' (Some output_bytes)
      in m)"

definition refresh_claim_edit ::
  "libs \<Rightarrow> int \<Rightarrow> int \<Rightarrow> nat \<Rightarrow> nat \<Rightarrow> nat \<Rightarrow> ymapping \<Rightarrow> ymapping" where
  "refresh_claim_edit L now expires_at ttl_secs output_bytes extensions m0 =
     (let m = set_optional_u64 m0 ''claim_ttl_secs'' (Some ttl_secs);
          m = set_optional_string m ''claim_expires_at'' (Some (rfc_now L expires_at));
          m = set_optional_string m ''last_progress_at'' (Some (rfc_now L now));
          m = set_optional_string m ''claim_warning_sent_at'' None;
          m = set_optional_u32 m ''claim_extensions'' (Some extensions);
          m = set_optional_u64 m ''last_output_bytes'' (Some output_bytes)
      in m)"

text \<open>\<open>Value::as_u64\<close> followed by a cast to \<open>u32\<close>, which keeps the low 32 bits.\<close>

fun yaml_dep_id :: "yaml \<Rightarrow> nat option" where
  "yaml_dep_id (YNum n) = (if 0 \<le> n \<and> n < 2 ^ 64 then Some (nat n mod 2 ^ 32) else None)"
| "yaml_dep_id _ = None"

definition merged_dependencies :: "nat list \<Rightarrow> ymapping \<Rightarrow> nat list" where
  "merged_dependencies dependency_ids m =
     btree_set ((case m ''depends_on'' of Some (YSeq xs) \<Rightarrow> List.map_filter yaml_dep_id xs | _ \<Rightarrow> [])
                @ dependency_ids)"

definition append_dependencies_edit :: "nat list \<Rightarrow> ymapping \<Rightarrow> ymapping" where
  "append_dependencies_edit dependency_ids m =
     (let merged = merged_dependencies dependency_ids m
      in if merged = [] then m(''depends_on'' := None)
         else m(''depends_on'' \<mapsto> YSeq (map (\<lambda>d. YNum (int d)) merged)))"

definition review_edit :: "task_state \<Rightarrow> string option \<Rightarrow> ymapping \<Rightarrow> ymapping" where
  "review_edit target feedback m =
     (let m = clear_blocked (set_status target m)
      in case feedback of None \<Rightarrow> m | Some text \<Rightarrow> set_optional_string m ''review_feedback'' (Some text))"

definition structured_review_edit ::
  "libs \<Rightarrow> int \<Rightarrow> task_state \<Rightarrow> string \<Rightarrow> string option \<Rightarrow> string \<Rightarrow> ymapping \<Rightarrow> ymapping" where
  "structured_review_edit L now target_state disposition_str feedback reviewer' m0 =
     (let m = set_status target_state m0;
          m = set_optional_string m ''review_disposition'' (Some disposition_str);
          m = set_optional_string m ''reviewed_by'' (Some reviewer');
          m = set_optional_string m ''reviewed_at'' (Some (rfc_now L now));
          m = (case feedback of None \<Rightarrow> m
               | Some text \<Rightarrow> set_optional_string m ''review_feedback'' (Some text))
      in if target_state = Blocked then
           (let reason = (case feedback of Some text \<Rightarrow> text | None \<Rightarrow> ''rejected by '' @ reviewer')
            in set_blocked_reason m (Some reason) (Some reason))
         else clear_blocked m)"

definition update_block_edit ::
  "string option \<Rightarrow> string option \<Rightarrow> bool \<Rightarrow> ymapping \<Rightarrow> ymapping" where
  "update_block_edit blocked_on block_reason should_clear m0 =
     (let m = (if should_clear then clear_blocked m0 else m0);
          normalized_blocked_on = Option.bind blocked_on normalize_optional;
          normalized_reason = opt_or (Option.bind block_reason normalize_optional) normalized_blocked_on
      in if normalized_reason \<noteq> None \<or> normalized_blocked_on \<noteq> None
         then set_blocked_reason m normalized_reason normalized_blocked_on else m)"

definition schedule_edit :: "string option \<Rightarrow> string option \<Rightarrow> bool \<Rightarrow> ymapping \<Rightarrow> ymapping" where
  "schedule_edit at' cron_expr clear m0 =
     (if clear then m0(''scheduled_for'' := None, ''cron_schedule'' := None)
      else
        let m = (case at' of None \<Rightarrow> m0 | Some ts \<Rightarrow> m0(''scheduled_for'' \<mapsto> YStr ts))
        in case cron_expr of None \<Rightarrow> m | Some e \<Rightarrow> m(''cron_schedule'' \<mapsto> YStr e))"

section \<open>Attribution and the activity log\<close>

definition new_attribution :: "string \<Rightarrow> string \<Rightarrow> string option \<Rightarrow> attribution" where
  "new_attribution actor source actor_id =
     \<lparr> at_actor = actor, at_source = source, at_actor_id = actor_id \<rparr>"

definition user_attribution :: "string \<Rightarrow> attribution" where
  "user_attribution source = new_attribution ''user'' source None"
definition agent_attribution :: "string \<Rightarrow> string \<Rightarrow> attribution" where
  "agent_attribution source member = new_attribution ''agent'' source (Some member)"
definition daemon_attribution :: "string \<Rightarrow> attribution" where
  "daemon_attribution source = new_attribution ''daemon-module'' source None"
definition bridge_attribution :: "string \<Rightarrow> attribution" where
  "bridge_attribution source = new_attribution ''bridge'' source None"

text \<open>The sender that the environment names, if any.\<close>

definition current_cli :: "string option \<Rightarrow> string \<Rightarrow> attribution" where
  "current_cli sender source =
     (case sender of Some member \<Rightarrow> agent_attribution source member | None \<Rightarrow> user_attribution source)"

definition record_status_transition_activity ::
  "int \<Rightarrow> nat \<Rightarrow> string \<Rightarrow> string \<Rightarrow> attribution \<Rightarrow> unit cmd" where
  "record_status_transition_activity now task_id from_status to_status att b =
     (if from_status = to_status then (b, Inr ())
      else if \<not> bd_log_takes b (length (bd_activity b)) then (b, Inl ActivityLogFailed)
      else (b\<lparr>bd_activity := bd_activity b @
              [\<lparr> ac_timestamp = now, ac_action = ''move'', ac_task_id = task_id,
                 ac_detail = from_status @ '' -> '' @ to_status, ac_actor = at_actor att,
                 ac_source = at_source att, ac_actor_id = at_actor_id att \<rparr>]\<rparr>, Inr ()))"

section \<open>Files of the board\<close>

definition split_task_frontmatter :: "string \<Rightarrow> task_error + (string \<times> string)" where
  "split_task_frontmatter content =
     (let trimmed = trim_start content in
      if \<not> starts_with fence trimmed then Inl MissingFrontmatter
      else let after_open = strip_newline (drop 3 trimmed) in
        case str_find closing_fence after_open of
          None \<Rightarrow> Inl UnclosedFrontmatter
        | Some close_pos \<Rightarrow>
            Inr (take close_pos after_open, strip_newline (drop (close_pos + 4) after_open)))"

definition edit_contents :: "libs \<Rightarrow> (ymapping \<Rightarrow> ymapping) \<Rightarrow> string \<Rightarrow> task_error + string" where
  "edit_contents L f content =
     res_bind (split_task_frontmatter content) (\<lambda>(frontmatter, body).
       case yaml_parse L frontmatter of
         None \<Rightarrow> Inl BadYaml
       | Some m \<Rightarrow> render_frontmatter_content L (f m) body)"

definition with_file :: "string \<Rightarrow> (string \<Rightarrow> task_error + string) \<Rightarrow> unit cmd" where
  "with_file path f b =
     (case map_of (bd_files b) path of
        None \<Rightarrow> (b, Inl (FileMissing path))
      | Some content \<Rightarrow>
          (case f content of
             Inl e \<Rightarrow> (b, Inl (TaskError e))
           | Inr content' \<Rightarrow> (b\<lparr>bd_files := write_file path content' (bd_files b)\<rparr>, Inr ())))"

definition update_task_frontmatter :: "libs \<Rightarrow> string \<Rightarrow> (ymapping \<Rightarrow> ymapping) \<Rightarrow> unit cmd" where
  "update_task_frontmatter L path f = with_file path (edit_contents L f)"

definition find_task_path :: "libs \<Rightarrow> nat \<Rightarrow> string cmd" where
  "find_task_path L task_id b =
     (let (dir, r) = find_task_path_by_id L (bd_files b) task_id
      in (b\<lparr>bd_files := dir\<rparr>, task_err r))"

definition read_task :: "libs \<Rightarrow> string \<Rightarrow> task cmd" where
  "read_task L path b =
     (case map_of (bd_files b) path of
        None \<Rightarrow> (b, Inl (FileMissing path))
      | Some content \<Rightarrow>
          (let (content', r) = task_from_file L path content
           in (b\<lparr>bd_files := write_file path content' (bd_files b)\<rparr>, task_err r)))"

definition read_metadata :: "libs \<Rightarrow> string \<Rightarrow> workflow_metadata cmd" where
  "read_metadata L path b =
     (case map_of (bd_files b) path of
        None \<Rightarrow> (b, Inl (FileMissing path))
      | Some content \<Rightarrow> (b, task_err (read_workflow_metadata L content)))"

definition write_metadata :: "libs \<Rightarrow> string \<Rightarrow> workflow_metadata \<Rightarrow> unit cmd" where
  "write_metadata L path md = with_file path (write_workflow_metadata L md)"

section \<open>Commands\<close>

definition guard_transition :: "task_state \<Rightarrow> task_state \<Rightarrow> unit cmd" where
  "guard_transition current target =
     cmd_lift (case can_transition current target of Inl e \<Rightarrow> Inl (IllegalTransition e) | Inr u \<Rightarrow> Inr u)"

definition transition_with_attribution ::
  "(task_state \<Rightarrow> ymapping \<Rightarrow> ymapping) \<Rightarrow> libs \<Rightarrow> int \<Rightarrow> nat \<Rightarrow> string \<Rightarrow> attribution \<Rightarrow> unit cmd" where
  "transition_with_attribution edit L now task_id target att =
     cmd_bind (find_task_path L task_id) (\<lambda>path.
     cmd_bind (read_task L path) (\<lambda>t.
     cmd_bind (cmd_lift (parse_task_state (t_status t))) (\<lambda>current.
     cmd_bind (cmd_lift (parse_task_state target)) (\<lambda>target_state.
     cmd_bind (guard_transition current target_state) (\<lambda>_.
     cmd_bind (update_task_frontmatter L path (edit target_state)) (\<lambda>_.
     record_status_transition_activity now task_id (t_status t) (state_name target_state) att))))))"

definition transition_task_with_attribution ::
  "libs \<Rightarrow> int \<Rightarrow> nat \<Rightarrow> string \<Rightarrow> attribution \<Rightarrow> unit cmd" where
  "transition_task_with_attribution = transition_with_attribution transition_edit"

definition transition_task :: "libs \<Rightarrow> int \<Rightarrow> nat \<Rightarrow> string \<Rightarrow> unit cmd" where
  "transition_task L now task_id target =
     transition_task_with_attribution L now task_id target (daemon_attribution ''daemon.task.transition'')"

definition cmd_transition :: "libs \<Rightarrow> int \<Rightarrow> string option \<Rightarrow> nat \<Rightarrow> string \<Rightarrow> unit cmd" where
  "cmd_transition L now sender task_id target =
     transition_task_with_attribution L now task_id target (current_cli sender ''cli.task.transition'')"

definition transition_task_preserving_block_with_attribution ::
  "libs \<Rightarrow> int \<Rightarrow> nat \<Rightarrow> string \<Rightarrow> attribution \<Rightarrow> unit cmd" where
  "transition_task_preserving_block_with_attribution = transition_with_attribution set_status"

definition clear_blocked_fields :: "libs \<Rightarrow> nat \<Rightarrow> unit cmd" where
  "clear_blocked_fields L task_id =
     cmd_bind (find_task_path L task_id) (\<lambda>path. update_task_frontmatter L path clear_blocked)"

definition block_task_with_reason_and_attribution ::
  "libs \<Rightarrow> int \<Rightarrow> nat \<Rightarrow> string \<Rightarrow> attribution \<Rightarrow> unit cmd" where
  "block_task_with_reason_and_attribution L now task_id reason att =
     cmd_bind (find_task_path L task_id) (\<lambda>path.
     cmd_bind (read_task L path) (\<lambda>t.
     cmd_bind (update_task_frontmatter L path (block_edit reason)) (\<lambda>_.
     record_status_transition_activity now task_id (t_status t) ''blocked'' att)))"

definition assign_task_owners ::
  "libs \<Rightarrow> int \<Rightarrow> nat \<Rightarrow> string option \<Rightarrow> string option \<Rightarrow> unit cmd" where
  "assign_task_owners L now task_id exec_owner review_owner =
     (if exec_owner = None \<and> review_owner = None then cmd_fail NoOwnerGiven
      else cmd_bind (find_task_path L task_id) (\<lambda>path.
             update_task_frontmatter L path (assign_edit L now exec_owner review_owner)))"

definition cmd_assign :: "libs \<Rightarrow> int \<Rightarrow> nat \<Rightarrow> string option \<Rightarrow> string option \<Rightarrow> unit cmd" where
  "cmd_assign L now task_id exec_owner review_owner =
     (if exec_owner = None \<and> review_owner = None then cmd_fail NoOwnerGiven
      else assign_task_owners L now task_id exec_owner review_owner)"

definition unclaim_task :: "libs \<Rightarrow> nat \<Rightarrow> unit cmd" where
  "unclaim_task L task_id =
     cmd_bind (find_task_path L task_id) (\<lambda>path. update_task_frontmatter L path unclaim_edit)"

definition release_engineer_claim :: "libs \<Rightarrow> nat \<Rightarrow> unit cmd" where
  "release_engineer_claim L task_id =
     cmd_bind (find_task_path L task_id) (\<lambda>path. update_task_frontmatter L path release_edit)"

text \<open>\<open>ttl_secs as i64\<close> and the sum with the current time, which panics out of range.\<close>

definition as_i64 :: "nat \<Rightarrow> int" where
  "as_i64 n = (if n < 2 ^ 63 then int n else int n - 2 ^ 64)"

definition claim_expiry :: "libs \<Rightarrow> int \<Rightarrow> nat \<Rightarrow> int cmd" where
  "claim_expiry L now ttl_secs =
     cmd_lift (case datetime_add L now (as_i64 ttl_secs) of None \<Rightarrow> Inl DateOverflow | Some e \<Rightarrow> Inr e)"

definition initialize_task_claim :: "libs \<Rightarrow> nat \<Rightarrow> nat \<Rightarrow> int \<Rightarrow> nat \<Rightarrow> unit cmd" where
  "initialize_task_claim L task_id ttl_secs now output_bytes =
     cmd_bind (find_task_path L task_id) (\<lambda>path.
     cmd_bind (claim_expiry L now ttl_secs) (\<lambda>expires_at.
     update_task_frontmatter L path (initialize_claim_edit L now expires_at ttl_secs output_bytes)))"

definition refresh_task_claim_progress :: "libs \<Rightarrow> nat \<Rightarrow> nat \<Rightarrow> int \<Rightarrow> nat \<Rightarrow> nat \<Rightarrow> unit cmd" where
  "refresh_task_claim_progress L task_id ttl_secs now output_bytes extensions =
     cmd_bind (find_task_path L task_id) (\<lambda>path.
     cmd_bind (claim_expiry L now ttl_secs) (\<lambda>expires_at.
     update_task_frontmatter L path
       (refresh_claim_edit L now expires_at ttl_secs output_bytes extensions)))"

definition set_task_assignment_context ::
  "libs \<Rightarrow> nat \<Rightarrow> string option \<Rightarrow> string option \<Rightarrow> unit cmd" where
  "set_task_assignment_context L task_id branch worktree_path =
     cmd_bind (find_task_path L task_id) (\<lambda>path.
     cmd_bind (read_metadata L path) (\<lambda>md.
     write_metadata L path (md\<lparr>md_branch := Option.bind branch normalize_optional,
                               md_worktree_path := Option.bind worktree_path normalize_optional\<rparr>)))"

definition mark_task_claim_warning :: "libs \<Rightarrow> nat \<Rightarrow> int \<Rightarrow> unit cmd" where
  "mark_task_claim_warning L task_id now =
     cmd_bind (find_task_path L task_id) (\<lambda>path.
     update_task_frontmatter L path
       (\<lambda>m. set_optional_string m ''claim_warning_sent_at'' (Some (rfc_now L now))))"

definition reclaim_task_claim_with_attribution ::
  "libs \<Rightarrow> int \<Rightarrow> nat \<Rightarrow> string \<Rightarrow> attribution \<Rightarrow> unit cmd" where
  "reclaim_task_claim_with_attribution L now task_id next_action att =
     cmd_bind (find_task_path L task_id) (\<lambda>path.
     cmd_bind (read_task L path) (\<lambda>t.
     cmd_bind (update_task_frontmatter L path (reclaim_edit next_action)) (\<lambda>_.
     record_status_transition_activity now task_id (t_status t) ''todo'' att)))"

definition append_task_dependencies :: "libs \<Rightarrow> nat \<Rightarrow> nat list \<Rightarrow> nat list cmd" where
  "append_task_dependencies L task_id dependency_ids =
     cmd_bind (find_task_path L task_id) (\<lambda>path b.
       case map_of (bd_files b) path of
         None \<Rightarrow> (b, Inl (FileMissing path))
       | Some content \<Rightarrow>
           (case res_bind (split_task_frontmatter content) (\<lambda>(fm, _).
                   case yaml_parse L fm of None \<Rightarrow> Inl BadYaml
                   | Some m \<Rightarrow> Inr (merged_dependencies dependency_ids m)) of
              Inl e \<Rightarrow> (b, Inl (TaskError e))
            | Inr merged \<Rightarrow>
                cmd_bind (update_task_frontmatter L path (append_dependencies_edit dependency_ids))
                  (\<lambda>_. cmd_return merged) b))"

definition queue_review_feedback :: "string \<Rightarrow> nat \<Rightarrow> string \<Rightarrow> unit cmd" where
  "queue_review_feedback engineer task_id feedback b =
     (b\<lparr>bd_inbox := bd_inbox b @
        [\<lparr> is_from = ''reviewer'', is_to = engineer,
           is_body = ''Review feedback for task #'' @ show_nat task_id @ '': '' @ feedback \<rparr>]\<rparr>, Inr ())"

text \<open>Feedback goes to the engineer who has claimed the task.\<close>

definition deliver_feedback :: "task \<Rightarrow> nat \<Rightarrow> string option \<Rightarrow> unit cmd" where
  "deliver_feedback t task_id feedback =
     (case (feedback, t_claimed_by t) of
        (Some text, Some engineer) \<Rightarrow> queue_review_feedback engineer task_id text
      | _ \<Rightarrow> cmd_return ())"

definition record_outcome :: "libs \<Rightarrow> string \<Rightarrow> string \<Rightarrow> bool \<Rightarrow> unit cmd" where
  "record_outcome L path outcome approved =
     cmd_bind (read_metadata L path) (\<lambda>md.
       let md = md\<lparr>md_outcome := Some outcome\<rparr>;
           md = (if approved then md\<lparr>md_review_blockers := []\<rparr> else md)
       in write_metadata L path md)"

fun disposition_target :: "review_disposition \<Rightarrow> task_state" where
  "disposition_target Approved = Done"
| "disposition_target Changes_Requested = In_Progress"
| "disposition_target Rejected = Archived"

definition cmd_review_with_attribution ::
  "libs \<Rightarrow> int \<Rightarrow> nat \<Rightarrow> string \<Rightarrow> string option \<Rightarrow> attribution \<Rightarrow> unit cmd" where
  "cmd_review_with_attribution L now task_id disp feedback att =
     cmd_bind (find_task_path L task_id) (\<lambda>path.
     cmd_bind (read_task L path) (\<lambda>t.
     cmd_bind (cmd_lift (parse_task_state (t_status t))) (\<lambda>current.
     cmd_bind (cmd_lift (parse_review_disposition disp)) (\<lambda>d.
     let target = disposition_target d in
     cmd_bind (guard_transition current target) (\<lambda>_.
     cmd_bind (update_task_frontmatter L path (review_edit target feedback)) (\<lambda>_.
     cmd_bind (record_status_transition_activity now task_id (t_status t) (state_name target) att) (\<lambda>_.
     cmd_bind (record_outcome L path (review_disposition_name d) (d = Approved)) (\<lambda>_.
     if d = Changes_Requested then deliver_feedback t task_id feedback else cmd_return ()))))))))"

definition structured_disposition :: "string \<Rightarrow> cmd_error + (task_state \<times> string)" where
  "structured_disposition disp =
     (if disp = ''approve'' then Inr (Done, ''approved'')
      else if disp = ''request-changes'' \<or> disp = ''request_changes'' then Inr (In_Progress, ''changes_requested'')
      else if disp = ''reject'' then Inr (Blocked, ''rejected'')
      else Inl (UnknownDisposition disp))"

definition cmd_review_structured_with_attribution ::
  "libs \<Rightarrow> int \<Rightarrow> nat \<Rightarrow> string \<Rightarrow> string option \<Rightarrow> string \<Rightarrow> attribution \<Rightarrow> unit cmd" where
  "cmd_review_structured_with_attribution L now task_id disp feedback reviewer' att =
     cmd_bind (find_task_path L task_id) (\<lambda>path.
     cmd_bind (read_task L path) (\<lambda>t.
     cmd_bind (cmd_lift (parse_task_state (t_status t))) (\<lambda>current.
     cmd_bind (cmd_lift (structured_disposition disp)) (\<lambda>(target, disposition_str).
     cmd_bind (guard_transition current target) (\<lambda>_.
     cmd_bind (update_task_frontmatter L path
                 (structured_review_edit L now target disposition_str feedback reviewer')) (\<lambda>_.
     cmd_bind (record_status_transition_activity now task_id (t_status t) (state_name target) att) (\<lambda>_.
     cmd_bind (record_outcome L path disposition_str (disp = ''approve'')) (\<lambda>_.
     if disp = ''request-changes'' \<or> disp = ''request_changes''
     then deliver_feedback t task_id feedback else cmd_return ()))))))))"

definition cmd_update :: "libs \<Rightarrow> nat \<Rightarrow> (string \<rightharpoonup> string) \<Rightarrow> unit cmd" where
  "cmd_update L task_id changes =
     (if dom changes = {} then cmd_fail NoFieldsGiven
      else
        cmd_bind (find_task_path L task_id) (\<lambda>path.
        cmd_bind (read_metadata L path) (\<lambda>md.
        cmd_bind
          (if changes ''branch'' = None \<and> changes ''commit'' = None then cmd_return ()
           else
             let md = (case changes ''branch'' of None \<Rightarrow> md
                       | Some v \<Rightarrow> md\<lparr>md_branch := normalize_optional v\<rparr>);
                 md = (case changes ''commit'' of None \<Rightarrow> md
                       | Some v \<Rightarrow> md\<lparr>md_commit := normalize_optional v\<rparr>)
             in write_metadata L path md) (\<lambda>_.
        if changes ''blocked_on'' \<noteq> None \<or> changes ''block_reason'' \<noteq> None \<or> changes ''clear_blocked'' \<noteq> None
        then update_task_frontmatter L path
               (update_block_edit (changes ''blocked_on'') (changes ''block_reason'')
                  (changes ''clear_blocked'' \<noteq> None))
        else cmd_return ()))))"

definition cmd_schedule ::
  "libs \<Rightarrow> nat \<Rightarrow> string option \<Rightarrow> string option \<Rightarrow> bool \<Rightarrow> unit cmd" where
  "cmd_schedule L task_id at' cron_expr clear =
     (if \<not> clear \<and> at' = None \<and> cron_expr = None then cmd_fail NoScheduleGiven
      else if (case at' of None \<Rightarrow> False | Some ts \<Rightarrow> rfc3339_parse L ts = None)
      then cmd_fail (InvalidTimestamp (the at'))
      else if (case cron_expr of None \<Rightarrow> False | Some e \<Rightarrow> \<not> cron_valid L (normalize_cron e))
      then cmd_fail (InvalidCron (the cron_expr))
      else cmd_bind (find_task_path L task_id) (\<lambda>path.
             update_task_frontmatter L path (schedule_edit at' cron_expr clear)))"

section \<open>Lemmas: names and splitting\<close>

lemma parse_state_names:
  "parse_task_state ''backlog'' = Inr Backlog" "parse_task_state ''todo'' = Inr Todo"
  "parse_task_state ''in-progress'' = Inr In_Progress" "parse_task_state ''review'' = Inr Review"
  "parse_task_state ''blocked'' = Inr Blocked" "parse_task_state ''done'' = Inr Done"
  "parse_task_state ''archived'' = Inr Archived"
  by code_simp+

lemma parse_state_name [simp]: "parse_task_state (state_name s) = Inr s"
  by (cases s) (simp_all add: parse_state_names)

lemma state_name_inj: "state_name s = state_name t \<longleftrightarrow> s = t"
  by (metis parse_state_name sum.inject(2))

lemma split_once_take_drop:
  "split_once pat s = Some (a, b) \<Longrightarrow> take (length a) s = a \<and> drop (length a + length pat) s = b"
  by (auto dest: split_once_append)

text \<open>The copy of the splitter in this file is the splitter of the task model.\<close>

lemma split_task_frontmatter_same: "split_task_frontmatter content = split_frontmatter content"
proof (cases "strip_prefix fence (trim_start content)")
  case None
  then show ?thesis
    by (simp add: split_task_frontmatter_def split_frontmatter_def starts_with_def)
next
  case (Some rest)
  then have "trim_start content = fence @ rest" by (simp add: strip_prefix_Some)
  then have d: "drop 3 (trim_start content) = rest" by (simp add: fence_def)
  show ?thesis
  proof (cases "split_once closing_fence (strip_newline rest)")
    case None
    with Some d show ?thesis
      by (simp add: split_task_frontmatter_def split_frontmatter_def starts_with_def str_find_def)
  next
    case (Some ab)
    obtain a b where ab: "ab = (a, b)" by (cases ab)
    have "length closing_fence = 4" by (simp add: closing_fence_def fence_def)
    with split_once_take_drop [of closing_fence "strip_newline rest" a b] Some ab
    have "take (length a) (strip_newline rest) = a" "drop (length a + 4) (strip_newline rest) = b"
      by simp_all
    with Some ab d \<open>strip_prefix fence (trim_start content) = Some rest\<close> show ?thesis
      by (simp add: split_task_frontmatter_def split_frontmatter_def starts_with_def str_find_def)
  qed
qed

section \<open>The contract of an edit\<close>

text \<open>An edit of the mapping implements a function on tasks.  What a client of the contract may
  conclude about the file.\<close>

locale task_edit =
  fixes L :: libs and edit :: "ymapping \<Rightarrow> ymapping" and spec :: "task \<Rightarrow> task"
  assumes edit_refines:
    "frontmatter_task L m d c = Some t \<Longrightarrow> frontmatter_task L (edit m) d c = Some (spec t)"
begin

lemma edited_file:
  assumes "lawful_yaml L" and "task_parse L content = Inr t"
    and "edit_contents L edit content = Inr content'"
  shows "task_parse L content' = Inr (spec t)"
proof -
  from assms(2) obtain fm body m where sp: "split_frontmatter content = Inr (fm, body)"
    and m: "yaml_parse L fm = Some m"
    and t: "frontmatter_task L m (fst (parse_body L body)) (snd (parse_body L body)) = Some t"
    by (auto simp: task_parse_Inr)
  from assms(3) sp m obtain s where s: "yaml_print L (edit m) = Some s"
    and c': "content' = render_text s body"
    by (cases "yaml_print L (edit m)")
      (auto simp: edit_contents_def split_task_frontmatter_same render_frontmatter_content_def)
  from assms(1) s obtain z where z: "plain_yaml_text z s" "yaml_parse L z = Some (edit m)"
    unfolding lawful_yaml_def by blast
  show ?thesis
    unfolding task_parse_Inr c'
    using split_render_text [OF z(1), of body] z(2) edit_refines [OF t] by blast
qed

text \<open>The whole path of a command: the file may be repaired when it is found, then edited.\<close>

lemma opened_and_edited:
  assumes "lawful_yaml L" and "task_parse L content = Inr t"
    and "opened L (n, content) (n, content1)" and "edit_contents L edit content1 = Inr content'"
  shows "\<exists>t1. task_core t1 = task_core t \<and> (t_blocked t1 = None) = (t_blocked t = None)
    \<and> task_parse L content' = Inr (spec t1)"
proof -
  from opened_parse [OF assms(1,2,3)] obtain t1 where t1: "task_parse L content1 = Inr t1
    \<and> task_core t1 = task_core t \<and> (t_blocked t1 = None) = (t_blocked t = None)" ..
  then have "task_parse L content' = Inr (spec t1)"
    by (intro edited_file [OF assms(1) _ assms(4)]) simp
  with t1 show ?thesis by (intro exI [of _ t1]) simp
qed

end

text \<open>The functions on tasks that the edits implement.\<close>

definition spec_transition :: "task_state \<Rightarrow> task \<Rightarrow> task" where
  "spec_transition s t =
     (let t = t\<lparr>t_status := state_name s\<rparr>
      in if s = Blocked then t else t\<lparr>t_blocked := None, t_blocked_on := None\<rparr>)"

definition spec_status :: "task_state \<Rightarrow> task \<Rightarrow> task" where
  "spec_status s t = t\<lparr>t_status := state_name s\<rparr>"

definition spec_block :: "string \<Rightarrow> task \<Rightarrow> task" where
  "spec_block reason t =
     t\<lparr>t_status := ''blocked'', t_blocked := Some reason, t_blocked_on := Some reason\<rparr>"

definition spec_release :: "task \<Rightarrow> task" where
  "spec_release t = t\<lparr>t_claimed_by := None, t_claimed_at := None, t_claim_ttl_secs := None,
     t_claim_expires_at := None, t_last_progress_at := None, t_claim_warning_sent_at := None,
     t_claim_extensions := None, t_last_output_bytes := None\<rparr>"

definition spec_unclaim :: "task \<Rightarrow> task" where
  "spec_unclaim t = (spec_release t)\<lparr>t_review_owner := None\<rparr>"

definition spec_reclaim :: "string \<Rightarrow> task \<Rightarrow> task" where
  "spec_reclaim next_action t =
     (spec_unclaim t)\<lparr>t_next_action := Some next_action, t_status := ''todo''\<rparr>"

definition spec_claim :: "libs \<Rightarrow> int \<Rightarrow> string \<Rightarrow> task \<Rightarrow> task" where
  "spec_claim L now owner t = (spec_release t)\<lparr>t_claimed_by := Some owner,
     t_claimed_at := Some (rfc_now L now), t_last_progress_at := Some (rfc_now L now)\<rparr>"

definition spec_initialize_claim :: "libs \<Rightarrow> int \<Rightarrow> int \<Rightarrow> nat \<Rightarrow> nat \<Rightarrow> task \<Rightarrow> task" where
  "spec_initialize_claim L now expires ttl output_bytes t =
     t\<lparr>t_claimed_at := Some (rfc_now L now), t_claim_ttl_secs := Some ttl,
       t_claim_expires_at := Some (rfc_now L expires), t_last_progress_at := Some (rfc_now L now),
       t_claim_warning_sent_at := None, t_claim_extensions := Some 0,
       t_last_output_bytes := Some output_bytes\<rparr>"

definition spec_refresh_claim :: "libs \<Rightarrow> int \<Rightarrow> int \<Rightarrow> nat \<Rightarrow> nat \<Rightarrow> nat \<Rightarrow> task \<Rightarrow> task" where
  "spec_refresh_claim L now expires ttl output_bytes extensions t =
     t\<lparr>t_claim_ttl_secs := Some ttl, t_claim_expires_at := Some (rfc_now L expires),
       t_last_progress_at := Some (rfc_now L now), t_claim_warning_sent_at := None,
       t_claim_extensions := Some extensions, t_last_output_bytes := Some output_bytes\<rparr>"

text \<open>One field at a time.\<close>

lemma frontmatter_set_status:
  "frontmatter_task L m d c = Some t
     \<Longrightarrow> frontmatter_task L (set_status s m) d c = Some (t\<lparr>t_status := state_name s\<rparr>)"
  unfolding set_status_def by (rule frontmatter_status)

lemma field_same_opt:
  "field_opt (de_string L) (m(k := map_option YStr v)) k = Some v"
  "(case v' of None \<Rightarrow> True | Some n \<Rightarrow> n < 2 ^ w)
     \<Longrightarrow> field_opt (de_uint w) (m(k := map_option (\<lambda>n. YNum (int n)) v')) k = Some v'"
  by (cases v; simp add: field_opt_def) (cases v'; simp add: field_opt_def)

lemma frontmatter_set_string:
  assumes "frontmatter_task L m d c = Some t"
  shows
    "frontmatter_task L (set_optional_string m ''claimed_by'' v) d c = Some (t\<lparr>t_claimed_by := v\<rparr>)"
    "frontmatter_task L (set_optional_string m ''review_owner'' v) d c = Some (t\<lparr>t_review_owner := v\<rparr>)"
    "frontmatter_task L (set_optional_string m ''claimed_at'' v) d c = Some (t\<lparr>t_claimed_at := v\<rparr>)"
    "frontmatter_task L (set_optional_string m ''claim_expires_at'' v) d c = Some (t\<lparr>t_claim_expires_at := v\<rparr>)"
    "frontmatter_task L (set_optional_string m ''last_progress_at'' v) d c = Some (t\<lparr>t_last_progress_at := v\<rparr>)"
    "frontmatter_task L (set_optional_string m ''claim_warning_sent_at'' v) d c
       = Some (t\<lparr>t_claim_warning_sent_at := v\<rparr>)"
    "frontmatter_task L (set_optional_string m ''next_action'' v) d c = Some (t\<lparr>t_next_action := v\<rparr>)"
  using assms unfolding frontmatter_task_def set_optional_string_def
  by (clarsimp simp: field_other field_same_opt bind_eq_Some_conv)+

definition fits :: "nat \<Rightarrow> nat option \<Rightarrow> bool" where
  "fits w v = (case v of None \<Rightarrow> True | Some n \<Rightarrow> n < 2 ^ w)"

lemma fits_simps [simp]: "fits w None" "fits w (Some n) \<longleftrightarrow> n < 2 ^ w"
  by (simp_all add: fits_def)

lemma frontmatter_set_number:
  assumes "frontmatter_task L m d c = Some t"
  shows
    "fits 64 v \<Longrightarrow> frontmatter_task L (set_optional_u64 m ''claim_ttl_secs'' v) d c
       = Some (t\<lparr>t_claim_ttl_secs := v\<rparr>)"
    "fits 64 v \<Longrightarrow> frontmatter_task L (set_optional_u64 m ''last_output_bytes'' v) d c
       = Some (t\<lparr>t_last_output_bytes := v\<rparr>)"
    "fits 32 v \<Longrightarrow> frontmatter_task L (set_optional_u32 m ''claim_extensions'' v) d c
       = Some (t\<lparr>t_claim_extensions := v\<rparr>)"
  using assms unfolding frontmatter_task_def set_optional_u32_def set_optional_u64_def fits_def
  by (clarsimp simp: field_other field_same_opt bind_eq_Some_conv)+

lemma frontmatter_clear_blocked:
  "frontmatter_task L m d c = Some t
     \<Longrightarrow> frontmatter_task L (clear_blocked m) d c = Some (t\<lparr>t_blocked := None, t_blocked_on := None\<rparr>)"
  unfolding frontmatter_task_def clear_blocked_def
  by (clarsimp simp: batty_simps bind_eq_Some_conv)

lemmas frontmatter_set = frontmatter_set_status frontmatter_set_string frontmatter_set_number
  frontmatter_clear_blocked frontmatter_blocked

interpretation transition_spec: task_edit L "transition_edit s" "spec_transition s" for L s
  by unfold_locales (simp add: transition_edit_def spec_transition_def Let_def frontmatter_set)

interpretation status_spec: task_edit L "set_status s" "spec_status s" for L s
  by unfold_locales (simp add: spec_status_def frontmatter_set)

interpretation clear_spec: task_edit L clear_blocked "\<lambda>t. t\<lparr>t_blocked := None, t_blocked_on := None\<rparr>" for L
  by unfold_locales (rule frontmatter_clear_blocked)

interpretation block_spec: task_edit L "block_edit reason" "spec_block reason" for L reason
  unfolding block_edit_def spec_block_def state_name.simps(5) [symmetric]
  by unfold_locales (intro frontmatter_set)

interpretation release_spec: task_edit L release_edit spec_release for L
  unfolding release_edit_def spec_release_def Let_def
  by unfold_locales (intro frontmatter_set fits_simps)

interpretation unclaim_spec: task_edit L unclaim_edit spec_unclaim for L
proof
  fix m d c t assume t: "frontmatter_task L m d c = Some t"
  have "frontmatter_task L (unclaim_edit m) d c = Some (t\<lparr>t_claimed_by := None,
     t_review_owner := None, t_claimed_at := None, t_claim_ttl_secs := None,
     t_claim_expires_at := None, t_last_progress_at := None, t_claim_warning_sent_at := None,
     t_claim_extensions := None, t_last_output_bytes := None\<rparr>)"
    unfolding unclaim_edit_def Let_def by (intro frontmatter_set fits_simps t)
  then show "frontmatter_task L (unclaim_edit m) d c = Some (spec_unclaim t)"
    by (simp add: spec_unclaim_def spec_release_def)
qed

interpretation reclaim_spec: task_edit L "reclaim_edit act" "spec_reclaim act" for L act
proof
  fix m d c t assume t: "frontmatter_task L m d c = Some t"
  have "frontmatter_task L (reclaim_edit act m) d c = Some (t\<lparr>t_claimed_by := None,
     t_review_owner := None, t_claimed_at := None, t_claim_ttl_secs := None,
     t_claim_expires_at := None, t_last_progress_at := None, t_claim_warning_sent_at := None,
     t_claim_extensions := None, t_last_output_bytes := None, t_next_action := Some act,
     t_status := state_name Todo\<rparr>)"
    unfolding reclaim_edit_def Let_def by (intro frontmatter_set fits_simps t)
  then show "frontmatter_task L (reclaim_edit act m) d c = Some (spec_reclaim act t)"
    by (simp add: spec_reclaim_def spec_unclaim_def spec_release_def)
qed

interpretation claim_spec:
  task_edit L "assign_edit L now (Some owner) None"
    "case normalize_optional owner of Some o' \<Rightarrow> spec_claim L now o' | None \<Rightarrow> spec_release" for L now owner
proof
  fix m d c t assume t: "frontmatter_task L m d c = Some t"
  show "frontmatter_task L (assign_edit L now (Some owner) None m) d c =
    Some ((case normalize_optional owner of Some o' \<Rightarrow> spec_claim L now o' | None \<Rightarrow> spec_release) t)"
  proof (cases "normalize_optional owner")
    case None
    have "frontmatter_task L (assign_edit L now (Some owner) None m) d c = Some (t\<lparr>t_claimed_by := None,
       t_claimed_at := None, t_last_progress_at := None, t_claim_ttl_secs := None,
       t_claim_expires_at := None, t_claim_warning_sent_at := None,
       t_claim_extensions := None, t_last_output_bytes := None\<rparr>)"
      using None by (simp add: assign_edit_def Let_def, intro frontmatter_set fits_simps t)
    then show ?thesis using None by (simp add: spec_release_def)
  next
    case (Some o')
    have "frontmatter_task L (assign_edit L now (Some owner) None m) d c = Some (t\<lparr>t_claimed_by := Some o',
       t_claimed_at := Some (rfc_now L now), t_last_progress_at := Some (rfc_now L now),
       t_claim_ttl_secs := None, t_claim_expires_at := None, t_claim_warning_sent_at := None,
       t_claim_extensions := None, t_last_output_bytes := None\<rparr>)"
      using Some by (simp add: assign_edit_def Let_def, intro frontmatter_set fits_simps t)
    then show ?thesis using Some by (simp add: spec_claim_def spec_release_def)
  qed
qed

interpretation initialize_spec:
  task_edit L "initialize_claim_edit L now expires (ttl mod 2 ^ 64) (bytes mod 2 ^ 64)"
    "spec_initialize_claim L now expires (ttl mod 2 ^ 64) (bytes mod 2 ^ 64)" for L now expires ttl bytes
  unfolding initialize_claim_edit_def spec_initialize_claim_def Let_def
  by unfold_locales (intro frontmatter_set; simp)

interpretation refresh_spec:
  task_edit L "refresh_claim_edit L now expires (ttl mod 2 ^ 64) (bytes mod 2 ^ 64) (ext mod 2 ^ 32)"
    "spec_refresh_claim L now expires (ttl mod 2 ^ 64) (bytes mod 2 ^ 64) (ext mod 2 ^ 32)"
  for L now expires ttl bytes ext
  unfolding refresh_claim_edit_def spec_refresh_claim_def Let_def
  by unfold_locales (intro frontmatter_set; simp)

section \<open>Lemmas: the files of the board\<close>

text \<open>The task's file: file names are distinct, and no other file is read as a task with the id.\<close>

definition lives_in :: "libs \<Rightarrow> task_dir \<Rightarrow> nat \<Rightarrow> string \<Rightarrow> bool" where
  "lives_in L dir i path =
     (distinct (map fst dir) \<and>
      list_all (\<lambda>(n, c). n = path \<or> (case snd (task_from_file L n c) of Inr t \<Rightarrow> t_id t \<noteq> i | Inl e \<Rightarrow> True)) dir)"

lemma lives_in_other:
  "lives_in L dir i path \<Longrightarrow> (n, c) \<in> set dir \<Longrightarrow> snd (task_from_file L n c) = Inr t \<Longrightarrow> t_id t = i
     \<Longrightarrow> n = path"
  by (auto simp: lives_in_def list_all_iff)

lemma write_file_names [simp]: "map fst (write_file path c dir) = map fst dir"
  by (induction dir) (auto simp: write_file_def)

lemma map_of_write_file:
  "map_of (write_file path c dir) n = (if n = path then map_option (\<lambda>_. c) (map_of dir n) else map_of dir n)"
  by (induction dir) (auto simp: write_file_def)

lemma write_file_same: "distinct (map fst dir) \<Longrightarrow> map_of dir path = Some c \<Longrightarrow> write_file path c dir = dir"
  unfolding write_file_def by (rule map_idI) (auto dest!: map_of_SomeD dest: eq_key_imp_eq_value)

lemma lives_in_write: "lives_in L dir i path \<Longrightarrow> lives_in L (write_file path c dir) i path"
proof -
  assume l: "lives_in L dir i path"
  have "list_all (\<lambda>(n, c). n = path \<or> (case snd (task_from_file L n c) of Inr t \<Rightarrow> t_id t \<noteq> i | Inl e \<Rightarrow> True))
      (write_file path c dir)"
    using l by (auto simp: lives_in_def list_all_iff write_file_def split: if_splits)
  with l show ?thesis by (simp add: lives_in_def)
qed

lemma opened_refl [simp]: "opened L e e"
  by (simp add: opened_def)

lemma opened_pair:
  "opened L (n, c) e' \<longleftrightarrow> (\<exists>c'. e' = (n, c') \<and> (c' = c \<or> c' = fst (task_from_file L n c)))"
  by (cases e') (auto simp: opened_def)

lemma opened_trans:
  assumes "lawful_time L" and "lawful_yaml L" and "opened L a b" and "opened L b c"
  shows "opened L a c"
proof -
  obtain n x where a: "a = (n, x)" by (cases a)
  obtain x' r where f: "task_from_file L n x = (x', r)" by fastforce
  from task_from_file_fixed [OF assms(1,2) f] assms(3,4) a f show ?thesis
    by (cases b; cases c) (auto simp: opened_def)
qed

lemma opened_reads:
  assumes "lawful_time L" and "lawful_yaml L" and "opened L (n, c) (n, c')"
  shows "task_from_file L n c' = (c', snd (task_from_file L n c)) \<or> c' = c"
proof -
  obtain x r where f: "task_from_file L n c = (x, r)" by fastforce
  from task_from_file_fixed [OF assms(1,2) f] assms(3) f show ?thesis by (auto simp: opened_def)
qed

abbreviation dir_opened :: "libs \<Rightarrow> task_dir \<Rightarrow> task_dir \<Rightarrow> bool" where
  "dir_opened L \<equiv> list_all2 (opened L)"

lemma dir_opened_names: "dir_opened L dir dir' \<Longrightarrow> map fst dir' = map fst dir"
  by (induction rule: list_all2_induct) (auto simp: opened_def)

lemma dir_opened_refl [simp]: "dir_opened L dir dir"
  by (rule list_all2_refl) simp

lemma dir_opened_trans:
  assumes "lawful_time L" and "lawful_yaml L" and "dir_opened L a b" and "dir_opened L b c"
  shows "dir_opened L a c"
  using list_all2_trans [of "opened L" "opened L" "opened L"] opened_trans [OF assms(1,2)] assms(3,4)
  by blast

lemma dir_opened_map_of:
  "dir_opened L dir dir' \<Longrightarrow> map_of dir n = Some c \<Longrightarrow>
     \<exists>c'. map_of dir' n = Some c' \<and> opened L (n, c) (n, c')"
  by (induction rule: list_all2_induct) (auto simp: opened_def split: if_splits)

lemma dir_opened_load: "dir_opened L dir (fst (load_tasks_from_dir L dir))"
proof -
  have "opened L e (fst (load_entry L e))" for e
    by (cases e) (auto simp: load_entry_def opened_def split: prod.splits sum.splits)
  then show ?thesis
    by (simp add: load_tasks_from_dir_def Let_def list_all2_map2 list_all2_same)
qed

lemma dir_opened_find:
  assumes "lawful_time L" and "lawful_yaml L"
  shows "dir_opened L dir (fst (find_task_path_by_id L dir i))"
proof -
  obtain dir1 n where n: "find_by_name L i dir = (dir1, n)" by fastforce
  obtain dir2 tasks where l: "load_tasks_from_dir L dir1 = (dir2, tasks)" by fastforce
  have "dir_opened L dir dir1" using find_by_name_opened [of L dir i] n by simp
  moreover have "dir_opened L dir1 dir2" using dir_opened_load [of L dir1] l by simp
  ultimately show ?thesis using n l dir_opened_trans [OF assms]
    by (cases n) (auto simp: find_task_path_by_id_def)
qed

lemma lives_in_opened:
  assumes "lawful_time L" and "lawful_yaml L" and "dir_opened L dir dir'" and "lives_in L dir i path"
  shows "lives_in L dir' i path"
proof -
  have "list_all (\<lambda>(n, c). n = path \<or> (case snd (task_from_file L n c) of Inr t \<Rightarrow> t_id t \<noteq> i | Inl e \<Rightarrow> True)) dir'"
    using assms(3) assms(4) [unfolded lives_in_def, THEN conjunct2]
  proof (induction rule: list_all2_induct)
    case (Cons e dir e' dir')
    obtain n c where e: "e = (n, c)" by (cases e)
    with Cons(1) obtain c' where e': "e' = (n, c')" by (auto simp: opened_pair)
    from Cons(1) e e' opened_reads [OF assms(1,2), of n c c']
    have "snd (task_from_file L n c') = snd (task_from_file L n c)" by auto
    with Cons e e' show ?case by simp
  qed simp
  with assms(4) dir_opened_names [OF assms(3)] show ?thesis by (simp add: lives_in_def)
qed

lemma dir_opened_write:
  assumes "distinct (map fst dir)" and "map_of dir path = Some c" and "opened L (path, c) (path, c')"
  shows "dir_opened L dir (write_file path c' dir)"
proof -
  have "opened L e (if fst e = path then (fst e, c') else e)" if "e \<in> set dir" for e
  proof (cases "fst e = path")
    case True
    with that assms(1,2) have "e = (path, c)" by (metis map_of_is_SomeI option.inject prod.collapse)
    with assms(3) show ?thesis by simp
  qed simp
  then have "list_all2 (opened L) dir (map (\<lambda>e. if fst e = path then (fst e, c') else e) dir)"
    by (simp add: list_all2_map2 list_all2_same)
  moreover have "write_file path c' dir = map (\<lambda>e. if fst e = path then (fst e, c') else e) dir"
    by (simp add: write_file_def case_prod_beta)
  ultimately show ?thesis by simp
qed

section \<open>Lemmas: commands\<close>

lemma cmd_bind_Inr:
  "cmd_bind c f b = (b', Inr y) \<longleftrightarrow> (\<exists>b1 x. c b = (b1, Inr x) \<and> f x b1 = (b', Inr y))"
  by (auto simp: cmd_bind_def split: prod.splits sum.splits)

lemma cmd_bind_Inl:
  "cmd_bind c f b = (b', Inl e) \<longleftrightarrow>
     c b = (b', Inl e) \<or> (\<exists>b1 x. c b = (b1, Inr x) \<and> f x b1 = (b', Inl e))"
  by (auto simp: cmd_bind_def split: prod.splits sum.splits)

lemma task_err_Inr [simp]: "task_err r = Inr x \<longleftrightarrow> r = Inr x"
  by (cases r) auto

lemma find_task_path_Inr:
  assumes "lawful_time L" and "lawful_yaml L" and "lives_in L (bd_files b) i path"
    and "find_task_path L i b = (b1, r)"
  shows "dir_opened L (bd_files b) (bd_files b1) \<and> bd_activity b1 = bd_activity b
    \<and> bd_inbox b1 = bd_inbox b \<and> lives_in L (bd_files b1) i path
    \<and> (\<forall>name. r = Inr name \<longrightarrow> name = path)"
proof -
  obtain dir q where f: "find_task_path_by_id L (bd_files b) i = (dir, q)" by fastforce
  with assms(4) have b1: "b1 = b\<lparr>bd_files := dir\<rparr>" "r = task_err q"
    by (auto simp: find_task_path_def)
  have op: "dir_opened L (bd_files b) dir" using dir_opened_find [OF assms(1,2), of "bd_files b" i] f by simp
  have "name = path" if "r = Inr name" for name
    using find_task_load [OF assms(1,2) f] that b1 lives_in_other [OF assms(3)] by auto
  with op b1 lives_in_opened [OF assms(1,2) op assms(3)] show ?thesis by simp
qed

lemma read_task_step:
  assumes "lawful_time L" and "lawful_yaml L" and "lives_in L (bd_files b) i path"
    and "read_task L path b = (b1, r)"
  shows "dir_opened L (bd_files b) (bd_files b1) \<and> bd_activity b1 = bd_activity b
    \<and> bd_inbox b1 = bd_inbox b \<and> lives_in L (bd_files b1) i path
    \<and> (\<forall>t. r = Inr t \<longrightarrow> (\<exists>c t0. map_of (bd_files b1) path = Some c \<and> task_parse L c = Inr t0
          \<and> t = t0\<lparr>t_source_path := path\<rparr>))"
proof (cases "map_of (bd_files b) path")
  case None
  with assms(3,4) show ?thesis by (auto simp: read_task_def)
next
  case (Some c)
  obtain c' q where f: "task_from_file L path c = (c', q)" by fastforce
  with Some assms(4) have b1: "b1 = b\<lparr>bd_files := write_file path c' (bd_files b)\<rparr>" "r = task_err q"
    by (auto simp: read_task_def)
  have "opened L (path, c) (path, c')" using f by (simp add: opened_def)
  with Some assms(3) have op: "dir_opened L (bd_files b) (write_file path c' (bd_files b))"
    by (intro dir_opened_write) (auto simp: lives_in_def)
  have "\<exists>t0. task_parse L c' = Inr t0 \<and> t = t0\<lparr>t_source_path := path\<rparr>" if "q = Inr t" for t
    using f that by (auto simp: task_from_file_def Let_def split: sum.splits option.splits)
  with op b1 Some lives_in_write [OF assms(3)] show ?thesis by (simp add: map_of_write_file)
qed

lemma update_step:
  "update_task_frontmatter L path f b = (b', Inr u) \<longleftrightarrow>
     (\<exists>c c'. map_of (bd_files b) path = Some c \<and> edit_contents L f c = Inr c'
        \<and> b' = b\<lparr>bd_files := write_file path c' (bd_files b)\<rparr>)"
  by (auto simp: update_task_frontmatter_def with_file_def split: option.splits sum.splits)

lemma update_error: "update_task_frontmatter L path f b = (b', Inl e) \<Longrightarrow> b' = b"
  by (auto simp: update_task_frontmatter_def with_file_def split: option.splits sum.splits)

lemma record_effect:
  "record_status_transition_activity now i old new att b = (b', r) \<Longrightarrow>
     bd_files b' = bd_files b \<and> bd_inbox b' = bd_inbox b
     \<and> (r = Inr () \<or> (b' = b \<and> r = Inl ActivityLogFailed \<and> old \<noteq> new))"
  by (auto simp: record_status_transition_activity_def split: if_splits)

lemma core_fields:
  assumes "task_core t1 = task_core t"
  shows "t_status t1 = t_status t" "t_id t1 = t_id t" "t_claimed_by t1 = t_claimed_by t"
    "t_depends_on t1 = t_depends_on t"
proof -
  show "t_status t1 = t_status t" using arg_cong [OF assms, of t_status] by (simp add: task_core_def)
  show "t_id t1 = t_id t" using arg_cong [OF assms, of t_id] by (simp add: task_core_def)
  show "t_claimed_by t1 = t_claimed_by t"
    using arg_cong [OF assms, of t_claimed_by] by (simp add: task_core_def)
  show "t_depends_on t1 = t_depends_on t"
    using arg_cong [OF assms, of t_depends_on] by (simp add: task_core_def)
qed

text \<open>What a task file holds after a command found it (and read it) before the edit.\<close>

definition file_task :: "libs \<Rightarrow> board \<Rightarrow> string \<Rightarrow> task \<Rightarrow> bool" where
  "file_task L b path t =
     (case map_of (bd_files b) path of Some c \<Rightarrow> task_parse L c = Inr t | None \<Rightarrow> False)"

definition same_task :: "task \<Rightarrow> task \<Rightarrow> bool" where
  "same_task t t1 = (task_core t1 = task_core t \<and> (t_blocked t1 = None) = (t_blocked t = None))"

lemma file_task_opened:
  assumes "lawful_yaml L" and "file_task L b path t" and "dir_opened L (bd_files b) (bd_files b1)"
  shows "\<exists>t1. file_task L b1 path t1 \<and> same_task t t1"
proof -
  from assms(2) obtain c where c: "map_of (bd_files b) path = Some c" "task_parse L c = Inr t"
    by (auto simp: file_task_def split: option.splits)
  from dir_opened_map_of [OF assms(3) c(1)] obtain c1 where
    c1: "map_of (bd_files b1) path = Some c1" "opened L (path, c) (path, c1)" by blast
  from opened_parse [OF assms(1) c(2) c1(2)] obtain t1 where
    "task_parse L c1 = Inr t1 \<and> task_core t1 = task_core t \<and> (t_blocked t1 = None) = (t_blocked t = None)" ..
  with c1(1) show ?thesis by (intro exI [of _ t1]) (simp add: file_task_def same_task_def)
qed

lemma same_task_trans: "same_task a b \<Longrightarrow> same_task b c \<Longrightarrow> same_task a c"
  by (simp add: same_task_def)

lemma file_task_det: "file_task L b path t \<Longrightarrow> file_task L b path t' \<Longrightarrow> t' = t"
  by (auto simp: file_task_def split: option.splits)

context task_edit
begin

lemma update_effect:
  assumes "lawful_yaml L" and "file_task L b path t"
    and "update_task_frontmatter L path edit b = (b', Inr u)"
  shows "file_task L b' path (spec t)"
  using assms edited_file by (auto simp: update_step file_task_def map_of_write_file)

end

lemma found_and_read:
  assumes law: "lawful_time L" "lawful_yaml L" and "lives_in L (bd_files b) i path"
    and "file_task L b path t" and "find_task_path L i b = (b1, Inr name)"
    and "read_task L name b1 = (b2, Inr t2)"
  shows "name = path \<and> lives_in L (bd_files b2) i path \<and> bd_activity b2 = bd_activity b
    \<and> bd_inbox b2 = bd_inbox b \<and> (\<exists>t1. file_task L b2 path t1 \<and> same_task t t1
    \<and> t2 = t1\<lparr>t_source_path := path\<rparr>)"
proof -
  from find_task_path_Inr [OF law assms(3,5)] have f: "dir_opened L (bd_files b) (bd_files b1)"
    "bd_activity b1 = bd_activity b" "bd_inbox b1 = bd_inbox b" "lives_in L (bd_files b1) i path"
    "name = path" by auto
  from read_task_step [OF law f(4) assms(6) [unfolded f(5)]] obtain c t0 where
    r: "dir_opened L (bd_files b1) (bd_files b2)" "bd_activity b2 = bd_activity b1"
    "bd_inbox b2 = bd_inbox b1" "lives_in L (bd_files b2) i path"
    "map_of (bd_files b2) path = Some c" "task_parse L c = Inr t0" "t2 = t0\<lparr>t_source_path := path\<rparr>"
    by auto
  have "dir_opened L (bd_files b) (bd_files b2)" by (rule dir_opened_trans [OF law f(1) r(1)])
  from file_task_opened [OF law(2) assms(4) this] obtain t1 where
    t1: "file_task L b2 path t1" "same_task t t1" by blast
  moreover from r(5,6) have "file_task L b2 path t0" by (simp add: file_task_def)
  ultimately have "t0 = t1" by (blast dest: file_task_det)
  with f r t1 show ?thesis by auto
qed

lemma transition_steps:
  assumes law: "lawful_time L" "lawful_yaml L" and "lives_in L (bd_files b) i path"
    and "file_task L b path t" and ref: "\<And>s. task_edit L (edit s) (spec s)"
    and run: "transition_with_attribution edit L now i target att b = (b', Inr u)"
  shows "\<exists>s0 s t1. parse_task_state (t_status t) = Inr s0 \<and> parse_task_state target = Inr s
    \<and> legal_move s0 s \<and> same_task t t1 \<and> file_task L b' path (spec s t1)
    \<and> lives_in L (bd_files b') i path \<and> bd_inbox b' = bd_inbox b
    \<and> bd_activity b' = bd_activity b @ (if t_status t = state_name s then [] else
        [\<lparr> ac_timestamp = now, ac_action = ''move'', ac_task_id = i,
           ac_detail = t_status t @ '' -> '' @ state_name s, ac_actor = at_actor att,
           ac_source = at_source att, ac_actor_id = at_actor_id att \<rparr>])"
proof -
  from run obtain b1 name b2 t2 s0 s b3 u1 where
    f: "find_task_path L i b = (b1, Inr name)" and r: "read_task L name b1 = (b2, Inr t2)"
    and s0: "parse_task_state (t_status t2) = Inr s0" and s: "parse_task_state target = Inr s"
    and g: "guard_transition s0 s b2 = (b2, Inr u1)"
    and up: "update_task_frontmatter L name (edit s) b2 = (b3, Inr ())"
    and rec: "record_status_transition_activity now i (t_status t2) (state_name s) att b3 = (b', Inr u)"
    by (auto simp: transition_with_attribution_def cmd_bind_Inr cmd_lift_def guard_transition_def)
  from found_and_read [OF law assms(3,4) f r] obtain t1 where
    n: "name = path" "lives_in L (bd_files b2) i path" "bd_activity b2 = bd_activity b"
      "bd_inbox b2 = bd_inbox b"
    and t1: "file_task L b2 path t1" "same_task t t1" "t2 = t1\<lparr>t_source_path := path\<rparr>" by blast
  have st: "t_status t2 = t_status t" using t1 core_fields(1) [of t1 t] by (simp add: same_task_def)
  have "legal_move s0 s"
    using g by (auto simp: guard_transition_def cmd_lift_def can_transition_def split: if_splits)
  moreover have "file_task L b3 path (spec s t1)"
    by (rule task_edit.update_effect [OF ref law(2) t1(1) up [unfolded n(1)]])
  moreover have "lives_in L (bd_files b3) i path \<and> bd_activity b3 = bd_activity b2 \<and> bd_inbox b3 = bd_inbox b2"
    using up n lives_in_write [OF n(2)] by (auto simp: update_step)
  ultimately show ?thesis
    using rec st s0 s t1(2) n
    by (intro exI [of _ s0] exI [of _ s] exI [of _ t1])
      (auto simp: record_status_transition_activity_def file_task_def split: if_splits)
qed

lemma not_log_errors:
  "find_task_path L i b = (b1, Inl e) \<Longrightarrow> e \<noteq> ActivityLogFailed"
  "read_task L p b = (b2, Inl e) \<Longrightarrow> e \<noteq> ActivityLogFailed"
  "parse_task_state x = Inl e \<Longrightarrow> e \<noteq> ActivityLogFailed"
  "update_task_frontmatter L p f b = (b3, Inl e) \<Longrightarrow> e \<noteq> ActivityLogFailed"
proof -
  have t: "task_err r = Inl e \<Longrightarrow> e \<noteq> ActivityLogFailed" for r :: "task_error + 'z" by (cases r) auto
  show "find_task_path L i b = (b1, Inl e) \<Longrightarrow> e \<noteq> ActivityLogFailed"
    using t by (auto simp: find_task_path_def split: prod.splits)
  show "read_task L p b = (b2, Inl e) \<Longrightarrow> e \<noteq> ActivityLogFailed"
    using t by (auto simp: read_task_def Let_def split: prod.splits option.splits)
  show "parse_task_state x = Inl e \<Longrightarrow> e \<noteq> ActivityLogFailed"
    by (auto simp: parse_task_state_def Let_def split: if_splits)
  show "update_task_frontmatter L p f b = (b3, Inl e) \<Longrightarrow> e \<noteq> ActivityLogFailed"
    by (auto simp: update_task_frontmatter_def with_file_def split: option.splits sum.splits)
qed

text \<open>What a command does to the files: the task's file holds the edited mapping, and every other
  file is as it was or as the repair on reading leaves it.\<close>

definition file_mapping :: "libs \<Rightarrow> board \<Rightarrow> string \<Rightarrow> ymapping \<Rightarrow> string \<Rightarrow> bool" where
  "file_mapping L b path m body =
     (case map_of (bd_files b) path of Some c \<Rightarrow> holds_mapping L c m body | None \<Rightarrow> False)"

definition others_opened :: "libs \<Rightarrow> string \<Rightarrow> task_dir \<Rightarrow> task_dir \<Rightarrow> bool" where
  "others_opened L path =
     list_all2 (\<lambda>e e'. if fst e = path then fst e' = path else opened L e e')"

lemma file_mapping_iff:
  "file_mapping L b path m body \<longleftrightarrow>
     (\<exists>c. map_of (bd_files b) path = Some c \<and> holds_mapping L c m body)"
  by (auto simp: file_mapping_def split: option.splits)

lemma opened_others: "dir_opened L dir dir' \<Longrightarrow> others_opened L path dir (write_file path c dir')"
  unfolding others_opened_def
  by (induction rule: list_all2_induct) (auto simp: write_file_def opened_def)

lemma file_mapping_opened:
  assumes "lawful_time L" "lawful_yaml L" and "file_mapping L b path m body"
    and "dir_opened L (bd_files b) (bd_files b1)"
  shows "\<exists>m1. file_mapping L b1 path m1 body \<and> settled_mapping L m1 = settled_mapping L m"
proof -
  from assms(3) obtain c where c: "map_of (bd_files b) path = Some c" "holds_mapping L c m body"
    by (auto simp: file_mapping_iff)
  from dir_opened_map_of [OF assms(4) c(1)] obtain c1 where
    c1: "map_of (bd_files b1) path = Some c1" "opened L (path, c) (path, c1)" by blast
  from opened_mapping [OF assms(2) c(2) c1(2)] c1(1) settled_mapping_idem [OF assms(1)] show ?thesis
    by (auto simp: file_mapping_iff)
qed

lemma read_task_mapping:
  assumes "lawful_yaml L" and "file_mapping L b path m body" and "read_task L path b = (b1, Inr t)"
  shows "file_mapping L b1 path (settled_mapping L m) body"
proof -
  from assms(2) obtain c where c: "map_of (bd_files b) path = Some c" "holds_mapping L c m body"
    by (auto simp: file_mapping_iff)
  obtain c' r where f: "task_from_file L path c = (c', r)" by fastforce
  with c(1) assms(3) have b1: "b1 = b\<lparr>bd_files := write_file path c' (bd_files b)\<rparr>" "r = Inr t"
    by (auto simp: read_task_def)
  with from_file_mapping [OF assms(1) c(2) f] c(1) show ?thesis
    by (auto simp: file_mapping_iff map_of_write_file)
qed

lemma update_mapping:
  assumes "lawful_yaml L" and "file_mapping L b path m body"
    and "update_task_frontmatter L path edit b = (b', Inr u)"
  shows "file_mapping L b' path (edit m) body"
proof -
  from assms(2) obtain c fm where c: "map_of (bd_files b) path = Some c"
    "split_frontmatter c = Inr (fm, body)" "yaml_parse L fm = Some m"
    by (auto simp: file_mapping_iff holds_mapping_iff)
  from assms(3) c(1) obtain c' where c': "edit_contents L edit c = Inr c'"
    and b': "b' = b\<lparr>bd_files := write_file path c' (bd_files b)\<rparr>" by (auto simp: update_step)
  from c' c(2,3) obtain s where s: "yaml_print L (edit m) = Some s" and cs: "c' = render_text s body"
    by (cases "yaml_print L (edit m)")
      (auto simp: edit_contents_def split_task_frontmatter_same render_frontmatter_content_def)
  from assms(1) s obtain z where z: "plain_yaml_text z s" "yaml_parse L z = Some (edit m)"
    unfolding lawful_yaml_def by blast
  with split_render_text [OF z(1), of body] cs have "holds_mapping L c' (edit m) body"
    by (simp add: holds_mapping_iff)
  with b' c(1) show ?thesis by (simp add: file_mapping_iff map_of_write_file)
qed

text \<open>The four ways in which a transition ends: it stops before its edit, with the files repaired
  at most; or the edit is done, and then the log takes the entry or refuses it.\<close>

lemma transition_files:
  assumes law: "lawful_time L" "lawful_yaml L" and l: "lives_in L (bd_files b) i path"
    and fm: "file_mapping L b path m body"
    and run: "transition_with_attribution edit L now i target att b = (b', r)"
  shows "(\<exists>e. r = Inl e \<and> e \<noteq> ActivityLogFailed \<and> dir_opened L (bd_files b) (bd_files b')
      \<and> bd_activity b' = bd_activity b \<and> bd_inbox b' = bd_inbox b)
    \<or> (\<exists>s0 s. legal_move s0 s \<and> parse_task_state target = Inr s
      \<and> file_mapping L b' path (edit s (settled_mapping L m)) body
      \<and> others_opened L path (bd_files b) (bd_files b') \<and> bd_inbox b' = bd_inbox b
      \<and> (r = Inr () \<or> (r = Inl ActivityLogFailed \<and> bd_activity b' = bd_activity b)))"
proof (cases "find_task_path L i b")
  case (Pair b1 r1)
  note f = find_task_path_Inr [OF law l Pair]
  show ?thesis
  proof (cases r1)
    case (Inl e)
    with run Pair have "b' = b1" "r = Inl e"
      by (simp_all add: transition_with_attribution_def cmd_bind_def)
    with f Inl Pair not_log_errors(1) show ?thesis by blast
  next
    case (Inr name)
    with f have n: "name = path" "lives_in L (bd_files b1) i path" by auto
    from f have o1: "dir_opened L (bd_files b) (bd_files b1)" by simp
    obtain b2 r2 where rd: "read_task L path b1 = (b2, r2)" by fastforce
    note rs = read_task_step [OF law n(2) rd]
    have o2: "dir_opened L (bd_files b) (bd_files b2)" "bd_activity b2 = bd_activity b"
      "bd_inbox b2 = bd_inbox b" using f rs dir_opened_trans [OF law o1] by auto
    show ?thesis
    proof (cases r2)
      case (Inl e)
      with run Pair Inr n rd have "b' = b2" "r = Inl e"
        by (simp_all add: transition_with_attribution_def cmd_bind_def)
      with o2 Inl rd not_log_errors(2) show ?thesis by blast
    next
      case (Inr t2)
      from run Pair \<open>r1 = Inr name\<close> n rd Inr have run2:
        "cmd_bind (cmd_lift (parse_task_state (t_status t2))) (\<lambda>current.
         cmd_bind (cmd_lift (parse_task_state target)) (\<lambda>target_state.
         cmd_bind (guard_transition current target_state) (\<lambda>_.
         cmd_bind (update_task_frontmatter L path (edit target_state)) (\<lambda>_.
         record_status_transition_activity now i (t_status t2) (state_name target_state) att)))) b2 = (b', r)"
        by (simp add: transition_with_attribution_def cmd_bind_def [of "find_task_path L i"]
            cmd_bind_def [of "read_task L path"])
      have stop: ?thesis if "b' = b2" "r = Inl e" "e \<noteq> ActivityLogFailed" for e
        using that o2 by blast
      show ?thesis
      proof (cases "parse_task_state (t_status t2)")
        case (Inl e)
        with run2 have "b' = b2" "r = Inl e" by (simp_all add: cmd_bind_def cmd_lift_def)
        with stop Inl not_log_errors(3) show ?thesis by blast
      next
        case (Inr s0)
        note p0 = this
        show ?thesis
        proof (cases "parse_task_state target")
          case (Inl e)
          with run2 p0 have "b' = b2" "r = Inl e" by (simp_all add: cmd_bind_def cmd_lift_def)
          with stop Inl not_log_errors(3) show ?thesis by blast
        next
          case (Inr s)
          with run2 p0 have run3: "cmd_bind (guard_transition s0 s) (\<lambda>_.
            cmd_bind (update_task_frontmatter L path (edit s)) (\<lambda>_.
            record_status_transition_activity now i (t_status t2) (state_name s) att)) b2 = (b', r)"
            by (simp add: cmd_bind_def [of "cmd_lift c" for c] cmd_lift_def)
          show ?thesis
          proof (cases "legal_move s0 s")
            case False
            then obtain x where "guard_transition s0 s b2 = (b2, Inl (IllegalTransition x))"
              by (auto simp: guard_transition_def cmd_lift_def can_transition_def)
            with run3 have "b' = b2" "r = Inl (IllegalTransition x)" by (simp_all add: cmd_bind_def)
            with stop show ?thesis by blast
          next
            case True
            then have "guard_transition s0 s b2 = (b2, Inr ())"
              by (auto simp: guard_transition_def cmd_lift_def can_transition_def)
            with run3 have run4: "cmd_bind (update_task_frontmatter L path (edit s)) (\<lambda>_.
              record_status_transition_activity now i (t_status t2) (state_name s) att) b2 = (b', r)"
              by (simp add: cmd_bind_def [of "guard_transition s0 s"])
            obtain b3 r3 where up: "update_task_frontmatter L path (edit s) b2 = (b3, r3)" by fastforce
            show ?thesis
            proof (cases r3)
              case (Inl e)
              with run4 up update_error have "b' = b2" "r = Inl e" by (auto simp: cmd_bind_def)
              with stop Inl up not_log_errors(4) show ?thesis by blast
            next
              case (Inr u)
              with run4 up have rec:
                "record_status_transition_activity now i (t_status t2) (state_name s) att b3 = (b', r)"
                by (simp add: cmd_bind_def)
              note re = record_effect [OF rec]
              from up Inr obtain c' where b3: "b3 = b2\<lparr>bd_files := write_file path c' (bd_files b2)\<rparr>"
                by (auto simp: update_step)
              from file_mapping_opened [OF law fm o1] obtain m1 where
                m1: "file_mapping L b1 path m1 body" "settled_mapping L m1 = settled_mapping L m" by blast
              from read_task_mapping [OF law(2) m1(1) rd [unfolded \<open>r2 = Inr t2\<close>]] m1(2)
              have "file_mapping L b2 path (settled_mapping L m) body" by simp
              from update_mapping [OF law(2) this up [unfolded Inr]]
              have "file_mapping L b' path (edit s (settled_mapping L m)) body"
                using re by (simp add: file_mapping_def)
              moreover from opened_others [OF o2(1)] b3 re
              have "others_opened L path (bd_files b) (bd_files b')" by simp
              moreover have "bd_inbox b' = bd_inbox b" using re b3 o2 by simp
              moreover have "r = Inr () \<or> (r = Inl ActivityLogFailed \<and> bd_activity b' = bd_activity b)"
                using re b3 o2 by auto
              ultimately show ?thesis using True \<open>parse_task_state target = Inr s\<close> by blast
            qed
          qed
        qed
      qed
    qed
  qed
qed

section \<open>The review gate of the board\<close>

definition board_state :: "libs \<Rightarrow> nat \<Rightarrow> string \<Rightarrow> board \<Rightarrow> task_state option" where
  "board_state L i path b =
     (if lives_in L (bd_files b) i path then
        (case map_of (bd_files b) path of
           None \<Rightarrow> None
         | Some c \<Rightarrow>
             (case task_parse L c of
                Inl e \<Rightarrow> None
              | Inr t \<Rightarrow> (case parse_task_state (t_status t) of Inl e \<Rightarrow> None | Inr s \<Rightarrow> Some s)))
      else None)"

definition board_move :: "libs \<Rightarrow> int \<Rightarrow> nat \<Rightarrow> board \<Rightarrow> task_state \<Rightarrow> cmd_error + board" where
  "board_move L now i b s =
     (case transition_task L now i (state_name s) b of (b', Inr u) \<Rightarrow> Inr b' | (b', Inl e) \<Rightarrow> Inl e)"

lemma board_state_Some:
  "board_state L i path b = Some s \<longleftrightarrow>
     lives_in L (bd_files b) i path \<and> (\<exists>t. file_task L b path t \<and> parse_task_state (t_status t) = Inr s)"
  by (auto simp: board_state_def file_task_def split: option.splits sum.splits)

lemma spec_transition_status [simp]: "t_status (spec_transition s t) = state_name s"
  by (simp add: spec_transition_def Let_def)

lemma board_gate:
  assumes law: "lawful_time L" "lawful_yaml L"
  shows "gated_machine (board_state L i path) (board_move L now i)"
proof -
  have "board_state L i path b' = Some s \<and> legal_move s0 s"
    if st: "board_state L i path b = Some s0" and mv: "board_move L now i b s = Inr b'" for b b' s0 s
  proof -
    from st obtain t where t: "lives_in L (bd_files b) i path" "file_task L b path t"
      "parse_task_state (t_status t) = Inr s0" by (auto simp: board_state_Some)
    from mv obtain u where
      "transition_with_attribution transition_edit L now i (state_name s)
         (daemon_attribution ''daemon.task.transition'') b = (b', Inr u)"
      by (auto simp: board_move_def transition_task_def transition_task_with_attribution_def
          split: prod.splits sum.splits)
    from transition_steps [OF law t(1,2) transition_spec.task_edit_axioms this] t(3)
    show ?thesis by (force simp: board_state_Some)
  qed
  then show ?thesis by unfold_locales blast+
qed

section \<open>Lemmas: reclaiming, dependencies, reviews\<close>

lemma reclaim_steps:
  assumes law: "lawful_time L" "lawful_yaml L" and "lives_in L (bd_files b) i path"
    and "file_task L b path t"
    and run: "reclaim_task_claim_with_attribution L now i act att b = (b', Inr u)"
  shows "\<exists>t1. same_task t t1 \<and> file_task L b' path (spec_reclaim act t1)"
proof -
  from run obtain b1 name b2 t2 b3 where
    f: "find_task_path L i b = (b1, Inr name)" and r: "read_task L name b1 = (b2, Inr t2)"
    and up: "update_task_frontmatter L name (reclaim_edit act) b2 = (b3, Inr ())"
    and rec: "record_status_transition_activity now i (t_status t2) ''todo'' att b3 = (b', Inr u)"
    by (auto simp: reclaim_task_claim_with_attribution_def cmd_bind_Inr)
  from found_and_read [OF law assms(3,4) f r] obtain t1 where
    n: "name = path" "file_task L b2 path t1" "same_task t t1" by blast
  have "file_task L b3 path (spec_reclaim act t1)"
    by (rule reclaim_spec.update_effect [OF law(2) n(2) up [unfolded n(1)]])
  with rec n(3) show ?thesis
    by (auto simp: record_status_transition_activity_def file_task_def split: if_splits)
qed

lemma yaml_dep_ids:
  "collect_opt (map (de_uint 32) xs) = Some ds \<Longrightarrow> List.map_filter yaml_dep_id xs = ds"
proof (induction xs arbitrary: ds)
  case (Cons x xs)
  then obtain d ds' where d: "de_uint 32 x = Some d" "collect_opt (map (de_uint 32) xs) = Some ds'" "ds = d # ds'"
    by (cases "de_uint 32 x") auto
  have "yaml_dep_id x = Some d"
    using d(1) by (cases x) (auto split: if_splits simp: nat_less_iff)
  with Cons.IH [OF d(2)] d(3) show ?case by (simp add: List.map_filter_simps)
qed (simp add: List.map_filter_simps)

lemma field_dependencies:
  assumes "field_default [] (de_seq (de_uint 32)) m ''depends_on'' = Some ds"
  shows "merged_dependencies ids m = btree_set (ds @ ids)"
  using assms yaml_dep_ids
  by (cases "m ''depends_on''"; cases "the (m ''depends_on'')")
    (auto simp: field_default_def merged_dependencies_def)

lemma frontmatter_dependencies:
  assumes t: "frontmatter_task L m d c = Some t" and ids: "\<forall>i \<in> set ids. i < 2 ^ 32"
  shows "frontmatter_task L (append_dependencies_edit ids m) d c
    = Some (t\<lparr>t_depends_on := btree_set (t_depends_on t @ ids)\<rparr>)"
proof -
  have ds: "field_default [] (de_seq (de_uint 32)) m ''depends_on'' = Some (t_depends_on t)"
    using t by (clarsimp simp: frontmatter_task_def bind_eq_Some_conv)
  let ?new = "btree_set (t_depends_on t @ ids)"
  have old: "\<forall>i \<in> set (t_depends_on t). i < 2 ^ 32"
  proof
    fix i assume i: "i \<in> set (t_depends_on t)"
    with ds obtain xs where "m ''depends_on'' = Some (YSeq xs)" "map (de_uint 32) xs = map Some (t_depends_on t)"
      by (cases "m ''depends_on''"; cases "the (m ''depends_on'')")
        (auto simp: field_default_def collect_opt_Some)
    with i have "Some i \<in> de_uint 32 ` set xs" by (metis image_eqI list.set_map)
    then obtain x where "de_uint 32 x = Some i" by auto
    then show "i < 2 ^ 32" by (cases x) (auto split: if_splits simp: nat_less_iff)
  qed
  have fld: "field_default [] (de_seq (de_uint 32)) (append_dependencies_edit ids m) ''depends_on'' = Some ?new"
  proof (cases "?new = []")
    case True
    then show ?thesis
      by (simp add: append_dependencies_edit_def field_dependencies [OF ds] field_default_def)
  next
    case False
    have "collect_opt (map (de_uint 32) (map (\<lambda>d. YNum (int d)) ?new)) = Some ?new"
      by (rule collect_opt_map_Some) (use old ids in auto)
    then show ?thesis using False
      by (simp add: append_dependencies_edit_def field_dependencies [OF ds] field_default_def)
  qed
  have "append_dependencies_edit ids m = m(''depends_on'' := (append_dependencies_edit ids m) ''depends_on'')"
    by (simp add: append_dependencies_edit_def Let_def)
  then obtain v where v: "append_dependencies_edit ids m = m(''depends_on'' := v)" ..
  show ?thesis
    using t fld unfolding v frontmatter_task_def
    by (clarsimp simp: field_other bind_eq_Some_conv)
qed

definition spec_review :: "task_state \<Rightarrow> task \<Rightarrow> task" where
  "spec_review s t = t\<lparr>t_status := state_name s, t_blocked := None, t_blocked_on := None\<rparr>"

lemma frontmatter_review_feedback:
  "frontmatter_task L (set_optional_string m ''review_feedback'' v) d c = frontmatter_task L m d c"
  unfolding frontmatter_task_def set_optional_string_def by (simp add: field_other)

interpretation review_spec: task_edit L "review_edit s feedback" "spec_review s" for L s feedback
proof
  fix m d c t assume "frontmatter_task L m d c = Some t"
  from frontmatter_clear_blocked [OF frontmatter_set_status [OF this]]
  show "frontmatter_task L (review_edit s feedback m) d c = Some (spec_review s t)"
    by (cases feedback) (simp_all add: review_edit_def spec_review_def frontmatter_review_feedback)
qed

definition metadata_keys :: "string list" where
  "metadata_keys = [''branch'', ''worktree_path'', ''commit'', ''changed_paths'', ''tests_run'',
     ''tests_passed'', ''test_results'', ''artifacts'', ''outcome'', ''review_blockers'']"

lemma field_opt_Some: "field_opt d m k = Some (Some x) \<Longrightarrow> \<exists>y. d y = Some x"
  by (cases "m k"; cases "the (m k)") (auto simp: field_opt_def)

lemma field_written_other:
  "k \<notin> set metadata_keys \<Longrightarrow> field_req d (write_metadata_mapping md m) k = field_req d m k"
  "k \<notin> set metadata_keys \<Longrightarrow> field_opt d (write_metadata_mapping md m) k = field_opt d m k"
  "k \<notin> set metadata_keys \<Longrightarrow> field_default x d (write_metadata_mapping md m) k = field_default x d m k"
  "k \<notin> set metadata_keys \<Longrightarrow> write_metadata_mapping md m k = m k"
  by (simp_all add: field_req_def field_opt_def field_default_def write_metadata_upd metadata_keys_def)

text \<open>Metadata that was read and is written back with other verdicts leaves the task alone.\<close>

lemma write_metadata_keeps_task:
  assumes "metadata_of_mapping L m = Some md"
    and "md_branch md' = md_branch md" "md_worktree_path md' = md_worktree_path md"
      "md_commit md' = md_commit md" "md_artifacts md' = md_artifacts md"
  shows "frontmatter_task L (write_metadata_mapping md' m) d c = frontmatter_task L m d c"
proof -
  let ?w = "write_metadata_mapping md' m"
  from assms(1) have r: "field_opt (de_string L) m ''branch'' = Some (md_branch md)"
    "field_opt (de_string L) m ''worktree_path'' = Some (md_worktree_path md)"
    "field_opt (de_string L) m ''commit'' = Some (md_commit md)"
    "field_default [] (de_seq (de_string L)) m ''artifacts'' = Some (md_artifacts md)"
    by (auto simp: metadata_of_mapping_def bind_eq_Some_conv)
  have s: "field_opt (de_string L) ?w ''branch'' = Some (md_branch md')"
    "field_opt (de_string L) ?w ''worktree_path'' = Some (md_worktree_path md')"
    "field_opt (de_string L) ?w ''commit'' = Some (md_commit md')"
    by (rule field_opt_str, simp add: write_metadata_upd)+
  have l: "field_default [] (de_seq (de_string L)) ?w ''artifacts'' = Some (md_artifacts md')"
    by (rule field_strings) (simp add: write_metadata_upd)
  show ?thesis
    unfolding frontmatter_task_def s l r assms(2-5)
    by (simp add: field_written_other metadata_keys_def)
qed

lemma de_results_in_range: "de_test_results L y = Some r \<Longrightarrow> results_in_range r"
proof (cases y)
  case (YMap kvs)
  have n: "field_req (de_uint w) m k = Some n \<Longrightarrow> n < 2 ^ w" for w m k n
    by (cases "m k"; cases "the (m k)") (auto simp: field_req_def nat_less_iff split: if_splits)
  have o: "field_opt (de_uint w) m k = Some (Some n) \<Longrightarrow> n < 2 ^ w" for w m k n
    by (cases "m k"; cases "the (m k)") (auto simp: field_opt_def nat_less_iff split: if_splits)
  assume "de_test_results L y = Some r"
  with YMap show ?thesis
    by (auto simp: bind_eq_Some_conv results_in_range_def dest!: n o split: option.splits)
qed auto

lemma record_outcome_effect:
  assumes "lawful_yaml L" and "file_task L b path t"
    and "record_outcome L path outcome approved b = (b', Inr u)"
  shows "file_task L b' path t \<and> bd_inbox b' = bd_inbox b \<and> bd_activity b' = bd_activity b
    \<and> (\<exists>c md. map_of (bd_files b') path = Some c \<and> read_workflow_metadata L c = Inr md
        \<and> md_outcome md = Some outcome \<and> (approved \<longrightarrow> md_review_blockers md = []))"
proof -
  from assms(2) obtain c where c: "map_of (bd_files b) path = Some c" "task_parse L c = Inr t"
    by (auto simp: file_task_def split: option.splits)
  then obtain fm body m where sp: "split_frontmatter c = Inr (fm, body)" and m: "yaml_parse L fm = Some m"
    and t: "frontmatter_task L m (fst (parse_body L body)) (snd (parse_body L body)) = Some t"
    by (auto simp: task_parse_Inr)
  obtain md where md: "read_workflow_metadata L c = Inr md"
  proof (cases "read_workflow_metadata L c")
    case (Inl e)
    with assms(3) c(1) show ?thesis by (simp add: record_outcome_def cmd_bind_def read_metadata_def)
  qed
  with sp m have mdm: "metadata_of_mapping L m = Some md"
    by (cases "metadata_of_mapping L m") (auto simp: read_workflow_metadata_def)
  define md' where "md' = (let md = md\<lparr>md_outcome := Some outcome\<rparr>
    in if approved then md\<lparr>md_review_blockers := []\<rparr> else md)"
  from assms(3) c(1) md have w: "write_metadata L path md' b = (b', Inr u)"
    by (simp add: record_outcome_def cmd_bind_def read_metadata_def md'_def Let_def)
  then obtain c' where c': "write_workflow_metadata L md' c = Inr c'"
    and b': "b' = b\<lparr>bd_files := write_file path c' (bd_files b)\<rparr>"
    using c(1) by (cases "write_workflow_metadata L md' c") (auto simp: write_metadata_def with_file_def)
  from c' sp m obtain s where s: "yaml_print L (write_metadata_mapping md' m) = Some s"
    and cs: "c' = render_text s body"
    by (cases "yaml_print L (write_metadata_mapping md' m)")
      (auto simp: write_workflow_metadata_def render_frontmatter_content_def)
  from assms(1) s obtain z where z: "plain_yaml_text z s"
    "yaml_parse L z = Some (write_metadata_mapping md' m)"
    unfolding lawful_yaml_def by blast
  have sp': "split_frontmatter c' = Inr (z, body)" unfolding cs by (rule split_render_text [OF z(1)])
  have same: "md_branch md' = md_branch md" "md_worktree_path md' = md_worktree_path md"
    "md_commit md' = md_commit md" "md_artifacts md' = md_artifacts md"
    "md_test_results md' = md_test_results md" by (simp_all add: md'_def Let_def)
  have "task_parse L c' = Inr t"
    using sp' z(2) t write_metadata_keeps_task [OF mdm same(1-4)] by (auto simp: task_parse_Inr)
  moreover have "case md_test_results md' of None \<Rightarrow> True | Some r \<Rightarrow> results_in_range r"
  proof (cases "md_test_results md")
    case (Some r)
    with mdm have "field_opt (de_test_results L) m ''test_results'' = Some (Some r)"
      by (auto simp: metadata_of_mapping_def bind_eq_Some_conv)
    from field_opt_Some [OF this] obtain y where "de_test_results L y = Some r" ..
    with Some same(5) de_results_in_range show ?thesis by simp
  qed (simp add: same(5))
  ultimately have "read_workflow_metadata L c' = Inr md'" "task_parse L c' = Inr t"
    using sp' z(2) metadata_of_written by (simp_all add: read_workflow_metadata_def)
  moreover have "md_outcome md' = Some outcome" "approved \<longrightarrow> md_review_blockers md' = []"
    by (simp_all add: md'_def Let_def)
  ultimately show ?thesis using b' c(1) by (simp add: file_task_def map_of_write_file)
qed

section \<open>A board for the examples\<close>

text \<open>One task file whose front matter is written as the bare text of its status, but for two
  mappings with a text of their own.\<close>

definition demo_mapping :: "string \<Rightarrow> ymapping" where
  "demo_mapping z = [''id'' \<mapsto> YNum 7, ''title'' \<mapsto> YStr ''Fix'', ''status'' \<mapsto> YStr z]"

definition demo_reclaimed :: ymapping where
  "demo_reclaimed = (demo_mapping ''todo'')(''next_action'' \<mapsto> YStr ''retry'')"

definition demo_reviewed :: ymapping where
  "demo_reviewed = (demo_mapping ''done'')(''outcome'' \<mapsto> YStr ''approved'')"

definition demo_libs :: libs where
  "demo_libs = sample_libs\<lparr>
     yaml_parse := (\<lambda>z. Some (if z = ''reclaimed'' then demo_reclaimed
                             else if z = ''reviewed'' then demo_reviewed else demo_mapping z)),
     yaml_print := (\<lambda>m. if m = demo_reclaimed then Some (''reclaimed'' @ [newline])
       else if m = demo_reviewed then Some (''reviewed'' @ [newline])
       else case get_str m ''status'' of
        Some z \<Rightarrow> if m = demo_mapping z \<and> plain_yaml_text z (z @ [newline])
                     \<and> z \<notin> {''reclaimed'', ''reviewed''} then Some (z @ [newline]) else None
      | None \<Rightarrow> None) \<rparr>"

lemma demo_mapping_special: "demo_mapping z \<noteq> demo_reclaimed" "demo_mapping z \<noteq> demo_reviewed"
  "demo_reviewed \<noteq> demo_reclaimed"
proof -
  have "demo_mapping z ''next_action'' \<noteq> demo_reclaimed ''next_action''"
    "demo_mapping z ''outcome'' \<noteq> demo_reviewed ''outcome''"
    "demo_reviewed ''outcome'' \<noteq> demo_reclaimed ''outcome''"
    by (simp_all add: demo_mapping_def demo_reclaimed_def demo_reviewed_def)
  then show "demo_mapping z \<noteq> demo_reclaimed" "demo_mapping z \<noteq> demo_reviewed"
    "demo_reviewed \<noteq> demo_reclaimed" by auto
qed

lemma demo_print_special:
  "yaml_print demo_libs demo_reclaimed = Some (''reclaimed'' @ [newline])"
  "yaml_print demo_libs demo_reviewed = Some (''reviewed'' @ [newline])"
  "yaml_parse demo_libs ''reclaimed'' = Some demo_reclaimed"
  "yaml_parse demo_libs ''reviewed'' = Some demo_reviewed"
  using demo_mapping_special(3) by (simp_all add: demo_libs_def)

definition demo_task :: "string \<Rightarrow> task" where
  "demo_task z = sample_task\<lparr>t_status := z, t_blocked := None, t_description := []\<rparr>"

definition demo_name :: string where "demo_name = ''7-fix.md''"

definition demo_file :: "string \<Rightarrow> string" where "demo_file z = render_text (z @ [newline]) []"

definition demo_board :: "string \<Rightarrow> activity list \<Rightarrow> board" where
  "demo_board z acts = \<lparr> bd_files = [(demo_name, demo_file z)], bd_activity = acts, bd_inbox = [],
     bd_log_takes = (\<lambda>_. True) \<rparr>"

definition plain_text :: "string \<Rightarrow> bool" where
  "plain_text z = (plain_yaml_text z (z @ [newline]) \<and> z \<notin> {''reclaimed'', ''reviewed''})"

lemma demo_yaml: "plain_text z \<Longrightarrow> yaml_parse demo_libs z = Some (demo_mapping z)"
  "plain_text z \<Longrightarrow> yaml_print demo_libs (demo_mapping z) = Some (z @ [newline])"
proof -
  have "get_str (demo_mapping z) ''status'' = Some z" by (simp add: get_str_def demo_mapping_def)
  then show "plain_text z \<Longrightarrow> yaml_parse demo_libs z = Some (demo_mapping z)"
    "plain_text z \<Longrightarrow> yaml_print demo_libs (demo_mapping z) = Some (z @ [newline])"
    using demo_mapping_special by (simp_all add: demo_libs_def plain_text_def)
qed

lemma plain_states: "plain_text (state_name s)"
proof -
  have "plain_text ''backlog''" "plain_text ''todo''" "plain_text ''in-progress''" "plain_text ''review''"
    "plain_text ''blocked''" "plain_text ''done''" "plain_text ''archived''" by code_simp+
  then show ?thesis by (cases s) simp_all
qed

lemma plain_specials: "plain_yaml_text ''reclaimed'' (''reclaimed'' @ [newline])"
  "plain_yaml_text ''reviewed'' (''reviewed'' @ [newline])"
  by code_simp+

lemma demo_lawful: "lawful_time demo_libs" "lawful_yaml demo_libs"
proof -
  show "lawful_time demo_libs" using sample_lawful(1) by (simp add: lawful_time_def demo_libs_def)
  have "\<exists>z. plain_yaml_text z s \<and> yaml_parse demo_libs z = Some m" if pr: "yaml_print demo_libs m = Some s" for m s
  proof -
    consider "m = demo_reclaimed" | "m = demo_reviewed" | z where "m = demo_mapping z" "plain_text z"
      using pr by (auto simp: demo_libs_def plain_text_def split: if_splits option.splits)
    then show ?thesis
    proof cases
      case 1
      with pr demo_print_special plain_specials show ?thesis by (intro exI [of _ "''reclaimed''"]) simp
    next
      case 2
      with pr demo_print_special plain_specials show ?thesis by (intro exI [of _ "''reviewed''"]) simp
    next
      case (3 z)
      with pr demo_yaml show ?thesis by (intro exI [of _ z]) (simp add: plain_text_def)
    qed
  qed
  then show "lawful_yaml demo_libs" by (simp add: lawful_yaml_def)
qed

lemma demo_split: "plain_text z \<Longrightarrow> split_frontmatter (demo_file z) = Inr (z, [])"
  unfolding demo_file_def plain_text_def by (intro split_render_text) simp

lemma demo_parse: "plain_text z \<Longrightarrow> task_parse demo_libs (demo_file z) = Inr (demo_task z)"
proof -
  assume z: "plain_text z"
  have "split_once config_marker [] = None" "trim [] = []" by code_simp+
  then have b: "parse_body demo_libs [] = ([], None)" by (simp add: parse_body_def)
  have "frontmatter_task demo_libs (demo_mapping z) [] None = Some (demo_task z)"
    by (simp add: frontmatter_task_def demo_mapping_def demo_task_def sample_task_def field_req_def
        field_opt_def field_default_def)
  with b demo_split [OF z] demo_yaml(1) [OF z] show ?thesis by (simp add: task_parse_def)
qed

lemma demo_normal: "normalize_mapping demo_libs (demo_mapping z) = None"
proof -
  have n: "normalize_timestamp_frontmatter_fields demo_libs (demo_mapping z) = (demo_mapping z, [])"
    by (simp add: normalize_timestamp_frontmatter_fields_def compat_timestamp_fields_def
        repair_timestamp_def get_str_def demo_mapping_def)
  have "legacy_reason (demo_mapping z) = None" "demo_mapping z ''blocked'' = None"
    by (simp_all add: legacy_reason_def get_str_def demo_mapping_def)
  then show ?thesis
    by (simp add: normalize_mapping_def n rewrites_block_def hidden_string_block_def
        rewrites_incomplete_blocked_task_def rewrites_incomplete_bool_shape_def)
qed

lemma demo_read:
  assumes "plain_text z"
  shows "task_from_file demo_libs n (demo_file z) = (demo_file z, Inr ((demo_task z)\<lparr>t_source_path := n\<rparr>))"
proof -
  from task_from_file_steps(1) [OF demo_split [OF assms] demo_yaml(1) [OF assms] demo_normal] demo_parse [OF assms]
  show ?thesis by simp
qed

lemma demo_find:
  assumes "plain_text z"
  shows "find_task_path demo_libs 7 (demo_board z acts) = (demo_board z acts, Inr demo_name)"
proof -
  have "task_id_from_filename demo_name = Some 7" by code_simp
  moreover have "t_id ((demo_task z)\<lparr>t_source_path := demo_name\<rparr>) = 7"
    by (simp add: demo_task_def sample_task_def)
  ultimately have "find_by_name demo_libs 7 [(demo_name, demo_file z)] = ([(demo_name, demo_file z)], Some demo_name)"
    using demo_read [OF assms, of demo_name] by (simp only: find_by_name.simps prod.case sum.case if_True refl)
  then show ?thesis
    by (simp only: find_task_path_def find_task_path_by_id_def demo_board_def prod.case option.case Let_def
        task_err.simps board.simps)
qed

lemma demo_lives: "lives_in demo_libs (bd_files (demo_board z acts)) 7 demo_name"
  by (simp add: lives_in_def demo_board_def)

lemma demo_holds: "plain_text z \<Longrightarrow> file_task demo_libs (demo_board z acts) demo_name (demo_task z)"
  by (simp add: file_task_def demo_board_def demo_parse)

lemma demo_edit:
  assumes "plain_text z" and "s \<noteq> Blocked"
  shows "update_task_frontmatter demo_libs demo_name (transition_edit s) (demo_board z acts)
    = (demo_board (state_name s) acts, Inr ())"
proof -
  have e: "transition_edit s (demo_mapping z) = demo_mapping (state_name s)"
    using assms(2) by (auto simp: transition_edit_def set_status_def clear_blocked_def demo_mapping_def Let_def)
  from demo_yaml(2) [OF plain_states [of s]] demo_yaml(1) [OF assms(1)]
  have "edit_contents demo_libs (transition_edit s) (demo_file z) = Inr (demo_file (state_name s))"
    by (simp add: edit_contents_def split_task_frontmatter_same demo_split [OF assms(1)] e
        render_frontmatter_content_def demo_file_def [of "state_name s"])
  then show ?thesis
    by (simp add: update_task_frontmatter_def with_file_def demo_board_def write_file_def)
qed

lemma demo_transition:
  assumes "plain_text z" and "parse_task_state z = Inr s0" and "legal_move s0 s" and "s \<noteq> Blocked"
  shows "\<exists>acts'. transition_task_with_attribution demo_libs now 7 (state_name s) att (demo_board z acts)
    = (demo_board (state_name s) acts', Inr ())"
proof -
  have "read_task demo_libs demo_name (demo_board z acts)
      = (demo_board z acts, Inr ((demo_task z)\<lparr>t_source_path := demo_name\<rparr>))"
    by (simp add: read_task_def demo_board_def demo_read [OF assms(1)] write_file_def)
  moreover have "guard_transition s0 s b = (b, Inr ())" for b
    using assms(3) by (auto simp: guard_transition_def cmd_lift_def can_transition_def)
  ultimately show ?thesis
    using demo_find [OF assms(1)] demo_edit [OF assms(1,4)] assms(2)
    by (simp add: transition_task_with_attribution_def transition_with_attribution_def cmd_bind_def
        cmd_lift_def demo_task_def record_status_transition_activity_def) (simp add: demo_board_def)
qed

lemma demo_move:
  assumes "plain_text z" and "parse_task_state z = Inr s0" and "legal_move s0 s" and "s \<noteq> Blocked"
  shows "\<exists>acts'. board_move demo_libs now 7 (demo_board z acts) s = Inr (demo_board (state_name s) acts')"
  using demo_transition [OF assms, of now "daemon_attribution ''daemon.task.transition''" acts]
  by (auto simp: board_move_def transition_task_def)

lemma demo_state:
  assumes "plain_text z" and "parse_task_state z = Inr s"
  shows "board_state demo_libs 7 demo_name (demo_board z acts) = Some s"
  using demo_lives [of z acts] demo_holds [OF assms(1), of acts] assms(2)
  by (auto simp: board_state_Some demo_task_def)

lemma transition_edit_keys:
  "transition_edit s (settled_mapping L m) =
     (\<lambda>k. if k = ''status'' then Some (YStr (state_name s))
        else if k \<in> set block_keys then (if s = Blocked then repaired_block m k else None)
        else if k \<in> set compat_timestamp_fields then restamped L (m k) else m k)"
  by (rule ext) (auto simp: transition_edit_def set_status_def clear_blocked_def settled_mapping_def
      block_keys_def Let_def)

text \<open>The move of the board above when the log takes no entry.\<close>

lemma demo_refused:
  "\<exists>b'. transition_task_with_attribution demo_libs 0 7 ''todo'' (user_attribution ''cli'')
     ((demo_board ''backlog'' [])\<lparr>bd_log_takes := (\<lambda>_. False)\<rparr>) = (b', Inl ActivityLogFailed)"
proof -
  let ?b = "(demo_board ''backlog'' [])\<lparr>bd_log_takes := (\<lambda>_. False)\<rparr>"
  have p: "plain_text ''backlog''" using plain_states [of Backlog] by simp
  have f: "find_task_path demo_libs 7 ?b = (?b, Inr demo_name)"
    using demo_find [OF p, of "[]"] by (auto simp: find_task_path_def demo_board_def split: prod.splits)
  have r: "read_task demo_libs demo_name ?b = (?b, Inr ((demo_task ''backlog'')\<lparr>t_source_path := demo_name\<rparr>))"
    by (simp add: read_task_def demo_board_def demo_read [OF p] write_file_def)
  have g: "guard_transition Backlog Todo b = (b, Inr ())" for b
    by (simp add: guard_transition_def cmd_lift_def can_transition_def)
  have "update_task_frontmatter demo_libs demo_name (transition_edit Todo) ?b
      = ((demo_board ''todo'' [])\<lparr>bd_log_takes := (\<lambda>_. False)\<rparr>, Inr ())"
    using demo_edit [OF p, of Todo "[]"]
    by (auto simp: update_task_frontmatter_def with_file_def demo_board_def write_file_def
        split: option.splits sum.splits)
  with f r g show ?thesis
    by (simp add: transition_task_with_attribution_def transition_with_attribution_def cmd_bind_def
        cmd_lift_def demo_task_def parse_state_names record_status_transition_activity_def)
qed

section \<open>Properties\<close>

text \<open>
  C1. A successful transition of a task on the board does what it says and no more: the move is
  legal; the front matter of the task's file has the new status, has lost its three block fields
  unless the task is now blocked, and is otherwise what the file had, key by key, but for the
  repair that every read makes (block fields in an old shape made uniform, time stamps in an old
  format rewritten, no time stamp dropped or moved); the body is the same text; every other file is
  as it was or as its own repair leaves it; no message is sent; and the activity log has got exactly
  the entry of this move, none when the status text did not change.
\<close>

theorem transition_task_effect:
  assumes "lawful_time L" and "lawful_yaml L" and "lives_in L (bd_files b) i path"
    and "file_task L b path t" and "file_mapping L b path m body"
    and "transition_task_with_attribution L now i target att b = (b', Inr u)"
  shows "\<exists>s0 s m'. parse_task_state (t_status t) = Inr s0 \<and> parse_task_state target = Inr s
    \<and> legal_move s0 s \<and> file_mapping L b' path m' body
    \<and> m' = (\<lambda>k. if k = ''status'' then Some (YStr (state_name s))
        else if k \<in> set block_keys then (if s = Blocked then repaired_block m k else None)
        else if k \<in> set compat_timestamp_fields then restamped L (m k) else m k)
    \<and> others_opened L path (bd_files b) (bd_files b')
    \<and> bd_inbox b' = bd_inbox b
    \<and> bd_activity b' = bd_activity b @ (if t_status t = state_name s then [] else
        [\<lparr> ac_timestamp = now, ac_action = ''move'', ac_task_id = i,
           ac_detail = t_status t @ '' -> '' @ state_name s, ac_actor = at_actor att,
           ac_source = at_source att, ac_actor_id = at_actor_id att \<rparr>])"
proof -
  note run = assms(6) [unfolded transition_task_with_attribution_def]
  from transition_steps [OF assms(1-4) transition_spec.task_edit_axioms run]
  obtain s0 s where *: "parse_task_state (t_status t) = Inr s0" "parse_task_state target = Inr s"
    "legal_move s0 s" "bd_inbox b' = bd_inbox b"
    "bd_activity b' = bd_activity b @ (if t_status t = state_name s then [] else
        [\<lparr> ac_timestamp = now, ac_action = ''move'', ac_task_id = i,
           ac_detail = t_status t @ '' -> '' @ state_name s, ac_actor = at_actor att,
           ac_source = at_source att, ac_actor_id = at_actor_id att \<rparr>])" by blast
  from transition_files [OF assms(1-3,5) run] *(2)
  have "file_mapping L b' path (transition_edit s (settled_mapping L m)) body"
    "others_opened L path (bd_files b) (bd_files b')" by auto
  with * show ?thesis
    by (intro exI [of _ s0] exI [of _ s] exI [of _ "transition_edit s (settled_mapping L m)"] conjI)
      (simp_all only: transition_edit_keys)
qed

theorem transition_task_effect_witness:
  "\<exists>b' m'. transition_task_with_attribution demo_libs 0 7 ''todo'' (user_attribution ''cli'') (demo_board ''backlog'' [])
       = (b', Inr ()) \<and> file_mapping demo_libs b' demo_name m' [] \<and> m' ''status'' = Some (YStr ''todo'')
     \<and> m' ''title'' = Some (YStr ''Fix'') \<and> map ac_detail (bd_activity b') = [''backlog -> todo'']"
proof -
  have p: "plain_text ''backlog''" using plain_states [of Backlog] by simp
  from demo_transition [OF p parse_state_names(1), of Todo 0 "user_attribution ''cli''" "[]"] obtain acts' where
    run: "transition_task_with_attribution demo_libs 0 7 ''todo'' (user_attribution ''cli'') (demo_board ''backlog'' [])
       = (demo_board ''todo'' acts', Inr ())" by auto
  have fm: "file_mapping demo_libs (demo_board ''backlog'' []) demo_name (demo_mapping ''backlog'') []"
    using demo_split [OF p] demo_yaml(1) [OF p]
    by (simp add: file_mapping_def demo_board_def holds_mapping_def)
  have t: "t_status (demo_task ''backlog'') = ''backlog''" by (simp add: demo_task_def)
  from transition_task_effect [OF demo_lawful demo_lives demo_holds [OF p] fm run] obtain s m' where
    s: "parse_task_state ''todo'' = Inr s" and m: "file_mapping demo_libs (demo_board ''todo'' acts') demo_name m' []"
    and m': "m' = (\<lambda>k. if k = ''status'' then Some (YStr (state_name s))
        else if k \<in> set block_keys then (if s = Blocked then repaired_block (demo_mapping ''backlog'') k else None)
        else if k \<in> set compat_timestamp_fields then restamped demo_libs (demo_mapping ''backlog'' k)
        else demo_mapping ''backlog'' k)"
    and a: "bd_activity (demo_board ''todo'' acts') = bd_activity (demo_board ''backlog'' []) @
      (if t_status (demo_task ''backlog'') = state_name s then [] else
        [\<lparr> ac_timestamp = 0, ac_action = ''move'', ac_task_id = 7,
           ac_detail = t_status (demo_task ''backlog'') @ '' -> '' @ state_name s,
           ac_actor = at_actor (user_attribution ''cli''), ac_source = at_source (user_attribution ''cli''),
           ac_actor_id = at_actor_id (user_attribution ''cli'') \<rparr>])" by blast
  from s have st: "s = Todo" by (simp add: parse_state_names)
  have "map ac_detail (bd_activity (demo_board ''todo'' acts')) = [''backlog -> todo'']"
    unfolding a by (simp add: st t) (simp add: demo_board_def)
  moreover have "m' ''status'' = Some (YStr ''todo'')" "m' ''title'' = Some (YStr ''Fix'')"
    unfolding m' by (simp_all add: st block_keys_def compat_timestamp_fields_def demo_mapping_def)
  ultimately show ?thesis using run m by (intro exI [of _ "demo_board ''todo'' acts'"] exI [of _ m'] conjI)
qed

text \<open>
  C28. A failed transition writes no log entry and sends no message.  Any failure but that of the
  activity log itself (unknown task, unknown state, illegal move, unreadable file) changes no
  task: every file is as it was or as the repair on reading leaves it.  When the log refuses the
  entry, the command fails although the task has been moved: its file then holds the legal new
  status exactly as after a successful command.
\<close>

theorem transition_task_error:
  assumes "lawful_time L" and "lawful_yaml L" and "lives_in L (bd_files b) i path"
    and "file_mapping L b path m body"
    and "transition_task_with_attribution L now i target att b = (b', Inl e)"
  shows "bd_activity b' = bd_activity b \<and> bd_inbox b' = bd_inbox b
    \<and> (if e = ActivityLogFailed
        then \<exists>s0 s. legal_move s0 s \<and> parse_task_state target = Inr s
          \<and> file_mapping L b' path (transition_edit s (settled_mapping L m)) body
          \<and> others_opened L path (bd_files b) (bd_files b')
        else dir_opened L (bd_files b) (bd_files b'))"
  using transition_files [OF assms(1-4) assms(5) [unfolded transition_task_with_attribution_def]] by auto

theorem transition_task_error_witness:
  "\<exists>b'. transition_task_with_attribution demo_libs 0 7 ''todo'' (user_attribution ''cli'')
       ((demo_board ''backlog'' [])\<lparr>bd_log_takes := (\<lambda>_. False)\<rparr>) = (b', Inl ActivityLogFailed)
     \<and> file_mapping demo_libs b' demo_name
         (transition_edit Todo (settled_mapping demo_libs (demo_mapping ''backlog''))) []
     \<and> bd_activity b' = []"
proof -
  let ?b = "(demo_board ''backlog'' [])\<lparr>bd_log_takes := (\<lambda>_. False)\<rparr>"
  have p: "plain_text ''backlog''" using plain_states [of Backlog] by simp
  obtain b' where run: "transition_task_with_attribution demo_libs 0 7 ''todo'' (user_attribution ''cli'') ?b
      = (b', Inl ActivityLogFailed)" using demo_refused by blast
  have fm: "file_mapping demo_libs ?b demo_name (demo_mapping ''backlog'') []"
    using demo_split [OF p] demo_yaml(1) [OF p]
    by (simp add: file_mapping_def demo_board_def holds_mapping_def)
  have l: "lives_in demo_libs (bd_files ?b) 7 demo_name" using demo_lives [of "''backlog''" "[]"] by simp
  have a: "bd_activity ?b = []" by (simp add: demo_board_def)
  from transition_task_error [OF demo_lawful l fm run] a parse_state_names(2) run show ?thesis by auto
qed

text \<open>
  C14. The review gate holds on the board: whatever sequence of successful transition commands takes a task
  from backlog, todo or blocked to done, they moved it to in-progress and after that to review.
\<close>

theorem board_done_only_after_review:
  assumes "lawful_time L" and "lawful_yaml L" and "run_moves (board_move L now i) b ts = Inr b'"
    and "board_state L i path b' = Some Done" and "board_state L i path b = Some s"
    and "s \<in> {Backlog, Todo, Blocked}"
  shows "\<exists>us vs ws. ts = us @ In_Progress # vs @ Review # ws"
  by (rule gated_machine.run_to_done [OF board_gate [OF assms(1,2)] assms(3-6)])

theorem board_done_only_after_review_witness:
  "\<exists>us vs ws. [In_Progress, Review, Done] = us @ In_Progress # vs @ Review # ws"
proof -
  have p: "plain_text ''todo''" "plain_text ''in-progress''" "plain_text ''review''" "plain_text ''done''"
    using plain_states [of Todo] plain_states [of In_Progress] plain_states [of Review] plain_states [of Done]
    by simp_all
  note n = parse_state_names
  obtain a1 where 1: "board_move demo_libs 0 7 (demo_board ''todo'' []) In_Progress = Inr (demo_board ''in-progress'' a1)"
    using demo_move [OF p(1) n(2), of In_Progress 0 "[]"] by auto
  obtain a2 where 2: "board_move demo_libs 0 7 (demo_board ''in-progress'' a1) Review = Inr (demo_board ''review'' a2)"
    using demo_move [OF p(2) n(3), of Review 0 a1] by auto
  obtain a3 where 3: "board_move demo_libs 0 7 (demo_board ''review'' a2) Done = Inr (demo_board ''done'' a3)"
    using demo_move [OF p(3) n(4), of Done 0 a2] by auto
  have "run_moves (board_move demo_libs 0 7) (demo_board ''todo'' []) [In_Progress, Review, Done]
      = Inr (demo_board ''done'' a3)" by (simp add: 1 2 3)
  then show ?thesis
    by (rule board_done_only_after_review [OF demo_lawful _ demo_state [OF p(4) n(6)] demo_state [OF p(1) n(2)]]) simp
qed

text \<open>
  Reclaiming a claim puts the task back on the queue whatever state it was in, also done or
  archived: it is todo, nobody's claim or review owner is left, and the next action is recorded;
  the rest of the task stays.
\<close>

theorem reclaim_effect:
  assumes "lawful_time L" and "lawful_yaml L" and "lives_in L (bd_files b) i path"
    and "file_task L b path t"
    and "reclaim_task_claim_with_attribution L now i act att b = (b', Inr u)"
  shows "\<exists>t'. file_task L b' path t' \<and> t_status t' = ''todo'' \<and> t_claimed_by t' = None
    \<and> t_review_owner t' = None \<and> t_claim_ttl_secs t' = None \<and> t_claim_expires_at t' = None
    \<and> t_next_action t' = Some act \<and> t_id t' = t_id t \<and> t_depends_on t' = t_depends_on t
    \<and> (t_blocked t' = None) = (t_blocked t = None)"
proof -
  from reclaim_steps [OF assms] obtain t1 where
    *: "file_task L b' path (spec_reclaim act t1)" "same_task t t1" by blast
  then show ?thesis using core_fields [of t1 t]
    by (intro exI [of _ "spec_reclaim act t1"])
      (simp add: same_task_def spec_reclaim_def spec_unclaim_def spec_release_def)
qed

lemma demo_reclaim_run:
  "\<exists>acts'. reclaim_task_claim_with_attribution demo_libs 0 7 ''retry'' att (demo_board ''done'' [])
     = (\<lparr> bd_files = [(demo_name, demo_file ''reclaimed'')], bd_activity = acts', bd_inbox = [],
       bd_log_takes = (\<lambda>_. True) \<rparr>, Inr ())"
proof -
  have p: "plain_text ''done''" using plain_states [of Done] by simp
  have r: "read_task demo_libs demo_name (demo_board ''done'' [])
      = (demo_board ''done'' [], Inr ((demo_task ''done'')\<lparr>t_source_path := demo_name\<rparr>))"
    by (simp add: read_task_def demo_board_def demo_read [OF p] write_file_def)
  have e: "reclaim_edit ''retry'' (demo_mapping ''done'') = demo_reclaimed"
    by (rule ext) (simp add: reclaim_edit_def demo_mapping_def demo_reclaimed_def set_status_def
        set_optional_string_def set_optional_u64_def set_optional_u32_def Let_def)
  have "edit_contents demo_libs (reclaim_edit ''retry'') (demo_file ''done'') = Inr (demo_file ''reclaimed'')"
    using demo_yaml(1) [OF p] demo_print_special
    by (simp add: edit_contents_def split_task_frontmatter_same demo_split [OF p] e
        render_frontmatter_content_def demo_file_def [of "''reclaimed''"])
  then have "update_task_frontmatter demo_libs demo_name (reclaim_edit ''retry'') (demo_board ''done'' [])
    = (\<lparr> bd_files = [(demo_name, demo_file ''reclaimed'')], bd_activity = [], bd_inbox = [],
       bd_log_takes = (\<lambda>_. True) \<rparr>, Inr ())"
    by (simp add: update_task_frontmatter_def with_file_def demo_board_def write_file_def)
  with r demo_find [OF p, of "[]"] show ?thesis
    by (simp add: reclaim_task_claim_with_attribution_def cmd_bind_def record_status_transition_activity_def)
qed

theorem reclaim_effect_witness:
  "\<exists>b' t'. reclaim_task_claim_with_attribution demo_libs 0 7 ''retry'' (daemon_attribution ''d'') (demo_board ''done'' [])
     = (b', Inr ()) \<and> file_task demo_libs b' demo_name t' \<and> t_status t' = ''todo''
     \<and> can_transition Done Todo \<noteq> Inr ()"
proof -
  have p: "plain_text ''done''" using plain_states [of Done] by simp
  obtain b' where run: "reclaim_task_claim_with_attribution demo_libs 0 7 ''retry'' (daemon_attribution ''d'')
      (demo_board ''done'' []) = (b', Inr ())" using demo_reclaim_run by blast
  from reclaim_effect [OF demo_lawful demo_lives demo_holds [OF p] run] obtain t' where
    "file_task demo_libs b' demo_name t'" "t_status t' = ''todo''" by blast
  moreover have "can_transition Done Todo \<noteq> Inr ()" by code_simp
  ultimately show ?thesis using run by blast
qed

text \<open>
  Adding dependencies merges them into those of the task: the task then depends on exactly
  the old and the new tasks, listed once each in increasing order, and is unchanged otherwise.
\<close>

theorem append_dependencies_effect:
  assumes "frontmatter_task L m d c = Some t" and "\<forall>i \<in> set ids. i < 2 ^ 32"
  shows "frontmatter_task L (append_dependencies_edit ids m) d c
      = Some (t\<lparr>t_depends_on := merged_dependencies ids m\<rparr>)
    \<and> set (merged_dependencies ids m) = set (t_depends_on t) \<union> set ids
    \<and> sorted (merged_dependencies ids m) \<and> distinct (merged_dependencies ids m)"
proof -
  have ds: "field_default [] (de_seq (de_uint 32)) m ''depends_on'' = Some (t_depends_on t)"
    using assms(1) by (clarsimp simp: frontmatter_task_def bind_eq_Some_conv)
  from frontmatter_dependencies [OF assms] btree_set_ordered [of "t_depends_on t @ ids"]
  show ?thesis by (simp add: field_dependencies [OF ds])
qed

theorem append_dependencies_effect_witness:
  "merged_dependencies [3, 1, 3] (demo_mapping ''todo'') = [1, 3]
   \<and> frontmatter_task demo_libs (append_dependencies_edit [3, 1, 3] (demo_mapping ''todo'')) [] None
      = Some ((demo_task ''todo'')\<lparr>t_depends_on := merged_dependencies [3, 1, 3] (demo_mapping ''todo'')\<rparr>)"
proof -
  have "frontmatter_task demo_libs (demo_mapping ''todo'') [] None = Some (demo_task ''todo'')"
    by (simp add: frontmatter_task_def demo_mapping_def demo_task_def sample_task_def field_req_def
        field_opt_def field_default_def)
  from append_dependencies_effect [OF this, of "[3, 1, 3]"] show ?thesis
    by (simp add: merged_dependencies_def btree_set_def demo_mapping_def)
qed

text \<open>
  C17. Recording a review does all of its parts: the disposition is known and its state may
  follow the task's state, the task has that state and no block, the metadata of the same file
  carry the outcome and, when approved, no blockers, and feedback on requested changes goes to
  the inbox of the engineer who has claimed the task and to nobody otherwise.
\<close>

theorem cmd_review_effect:
  assumes law: "lawful_time L" "lawful_yaml L" and "lives_in L (bd_files b) i path"
    and "file_task L b path t"
    and run: "cmd_review_with_attribution L now i disp feedback att b = (b', Inr u)"
  shows "\<exists>s0 d t' c md. parse_task_state (t_status t) = Inr s0 \<and> parse_review_disposition disp = Inr d
    \<and> legal_move s0 (disposition_target d) \<and> file_task L b' path t'
    \<and> task_core t' = (task_core t)\<lparr>t_status := state_name (disposition_target d)\<rparr> \<and> t_blocked t' = None
    \<and> map_of (bd_files b') path = Some c \<and> read_workflow_metadata L c = Inr md
    \<and> md_outcome md = Some (review_disposition_name d) \<and> (d = Approved \<longrightarrow> md_review_blockers md = [])
    \<and> bd_inbox b' = bd_inbox b @
       (case (d, feedback, t_claimed_by t) of
          (Changes_Requested, Some text, Some engineer) \<Rightarrow>
            [\<lparr> is_from = ''reviewer'', is_to = engineer,
               is_body = ''Review feedback for task #'' @ show_nat i @ '': '' @ text \<rparr>]
        | _ \<Rightarrow> [])"
proof -
  from run obtain b1 name b2 t2 s0 d b3 b4 b5 u1 u2 where
    f: "find_task_path L i b = (b1, Inr name)" and r: "read_task L name b1 = (b2, Inr t2)"
    and s0: "parse_task_state (t_status t2) = Inr s0" and d: "parse_review_disposition disp = Inr d"
    and g: "guard_transition s0 (disposition_target d) b2 = (b2, Inr u1)"
    and up: "update_task_frontmatter L name (review_edit (disposition_target d) feedback) b2 = (b3, Inr ())"
    and rec: "record_status_transition_activity now i (t_status t2) (state_name (disposition_target d)) att b3 = (b4, Inr ())"
    and out: "record_outcome L name (review_disposition_name d) (d = Approved) b4 = (b5, Inr u2)"
    and fin: "(if d = Changes_Requested then deliver_feedback t2 i feedback else cmd_return ()) b5 = (b', Inr u)"
    by (auto simp: cmd_review_with_attribution_def cmd_bind_Inr cmd_lift_def guard_transition_def Let_def)
  from found_and_read [OF law assms(3,4) f r] obtain t1 where
    n: "name = path" "bd_inbox b2 = bd_inbox b" "file_task L b2 path t1" "same_task t t1"
      "t2 = t1\<lparr>t_source_path := path\<rparr>" by blast
  have st: "t_status t2 = t_status t" "t_claimed_by t2 = t_claimed_by t"
    using n core_fields [of t1 t] by (simp_all add: same_task_def)
  let ?t' = "spec_review (disposition_target d) t1"
  have "file_task L b3 path ?t'"
    by (rule review_spec.update_effect [OF law(2) n(3) up [unfolded n(1)]])
  then have "file_task L b4 path ?t'"
    using rec by (auto simp: record_status_transition_activity_def file_task_def split: if_splits)
  note o' = record_outcome_effect [OF law(2) this out [unfolded n(1)]]
  have ib: "bd_inbox b4 = bd_inbox b"
    using rec up n(2) by (auto simp: record_status_transition_activity_def update_step split: if_splits)
  have b': "bd_files b' = bd_files b5" "bd_inbox b' = bd_inbox b5 @
       (case (d, feedback, t_claimed_by t) of
          (Changes_Requested, Some text, Some engineer) \<Rightarrow>
            [\<lparr> is_from = ''reviewer'', is_to = engineer,
               is_body = ''Review feedback for task #'' @ show_nat i @ '': '' @ text \<rparr>]
        | _ \<Rightarrow> [])"
    using fin st(2) by (auto simp: deliver_feedback_def queue_review_feedback_def cmd_return_def
        split: if_splits option.splits review_disposition.splits)
  have g': "legal_move s0 (disposition_target d)"
    using g by (auto simp: guard_transition_def cmd_lift_def can_transition_def split: if_splits)
  have "task_core ?t' = (task_core t1)\<lparr>t_status := state_name (disposition_target d)\<rparr>" "t_blocked ?t' = None"
    by (simp_all add: spec_review_def task_core_def)
  moreover have "file_task L b' path ?t'" using o' b' by (simp add: file_task_def)
  moreover from o' obtain c md where "map_of (bd_files b5) path = Some c"
    "read_workflow_metadata L c = Inr md" "md_outcome md = Some (review_disposition_name d)"
    "d = Approved \<longrightarrow> md_review_blockers md = []" by blast
  ultimately show ?thesis
    using s0 d g' b' ib o' n(4) st(1) by (intro exI [of _ s0] exI [of _ d] exI [of _ ?t'] exI [of _ c] exI [of _ md])
      (simp add: same_task_def)
qed

lemma demo_review_run:
  "\<exists>b'. cmd_review_with_attribution demo_libs 0 7 ''approved'' None att (demo_board ''review'' []) = (b', Inr ())"
proof -
  have p: "plain_text ''review''" "plain_text ''done''"
    using plain_states [of Review] plain_states [of Done] by simp_all
  have r: "read_task demo_libs demo_name (demo_board ''review'' [])
      = (demo_board ''review'' [], Inr ((demo_task ''review'')\<lparr>t_source_path := demo_name\<rparr>))"
    by (simp add: read_task_def demo_board_def demo_read [OF p(1)] write_file_def)
  have d: "parse_review_disposition ''approved'' = Inr Approved" by code_simp
  have g: "guard_transition Review Done b = (b, Inr ())" for b
    by (simp add: guard_transition_def cmd_lift_def can_transition_def)
  have up: "update_task_frontmatter demo_libs demo_name (review_edit Done None) (demo_board ''review'' [])
      = (demo_board ''done'' [], Inr ())"
    using demo_edit [OF p(1), of Done "[]"]
    by (simp add: transition_edit_def [abs_def] review_edit_def [abs_def] Let_def)
  have md: "metadata_of_mapping demo_libs (demo_mapping ''done'') = Some default_metadata"
    by (simp add: metadata_of_mapping_def field_opt_def field_default_def demo_mapping_def default_metadata_def)
  have wr: "write_metadata_mapping (default_metadata\<lparr>md_outcome := Some ''approved'', md_review_blockers := []\<rparr>)
      (demo_mapping ''done'') = demo_reviewed"
    by (rule ext) (simp add: write_metadata_upd default_metadata_def demo_mapping_def demo_reviewed_def)
  have out: "record_outcome demo_libs demo_name ''approved'' True
      (\<lparr> bd_files = [(demo_name, demo_file ''done'')], bd_activity = a, bd_inbox = [],
        bd_log_takes = (\<lambda>_. True) \<rparr>)
      = (\<lparr> bd_files = [(demo_name, demo_file ''reviewed'')], bd_activity = a, bd_inbox = [],
        bd_log_takes = (\<lambda>_. True) \<rparr>, Inr ())" for a
    using demo_split [OF p(2)] demo_yaml(1) [OF p(2)] md wr demo_print_special
    by (simp add: record_outcome_def cmd_bind_def read_metadata_def read_workflow_metadata_def
        write_metadata_def with_file_def write_workflow_metadata_def render_frontmatter_content_def
        demo_file_def [of "''reviewed''"] write_file_def)
  show ?thesis
    using r demo_find [OF p(1), of "[]"] d g up out
    by (simp add: cmd_review_with_attribution_def cmd_bind_def cmd_lift_def parse_state_names demo_task_def
        record_status_transition_activity_def cmd_return_def) (simp add: demo_board_def)
qed

theorem cmd_review_effect_witness:
  "\<exists>b' t' c md. cmd_review_with_attribution demo_libs 0 7 ''approved'' None (user_attribution ''cli'')
       (demo_board ''review'' []) = (b', Inr ())
     \<and> file_task demo_libs b' demo_name t' \<and> t_status t' = ''done''
     \<and> map_of (bd_files b') demo_name = Some c \<and> read_workflow_metadata demo_libs c = Inr md
     \<and> md_outcome md = Some ''approved''"
proof -
  have p: "plain_text ''review''" using plain_states [of Review] by simp
  obtain b' where run: "cmd_review_with_attribution demo_libs 0 7 ''approved'' None (user_attribution ''cli'')
      (demo_board ''review'' []) = (b', Inr ())" using demo_review_run by blast
  from cmd_review_effect [OF demo_lawful demo_lives demo_holds [OF p] run] obtain d t' c md where
    d: "parse_review_disposition ''approved'' = Inr d" "file_task demo_libs b' demo_name t'"
    "task_core t' = (task_core (demo_task ''review''))\<lparr>t_status := state_name (disposition_target d)\<rparr>"
    "map_of (bd_files b') demo_name = Some c" "read_workflow_metadata demo_libs c = Inr md"
    "md_outcome md = Some (review_disposition_name d)" by blast
  have "parse_review_disposition ''approved'' = Inr Approved" by code_simp
  with d(1) have dd: "d = Approved" by simp
  with arg_cong [OF d(3), of t_status] have "t_status t' = ''done''" by (simp add: task_core_def)
  with run d dd show ?thesis by auto
qed

end
