(* ===== verification/Ordered_Map.thy ===== *)
theory Ordered_Map
  imports Batty_Prelude
begin

text \<open>
  Ordered maps.  The sources iterate over \<open>BTreeMap\<close>s, whose entries come in the order of
  their keys; such a map is an association list that is sorted by distinct keys.  The locale
  \<open>ordered_map\<close> is the interface that the components rely on when they collect a map from a
  list of entries; the association lists are its implementation.
\<close>

section \<open>The interface\<close>

locale ordered_map =
  fixes emp :: "'m" and look :: "'m \<Rightarrow> 'k::linorder \<Rightarrow> 'v option" and ins :: "'k \<Rightarrow> 'v \<Rightarrow> 'm \<Rightarrow> 'm"
    and keys :: "'m \<Rightarrow> 'k list" and inv :: "'m \<Rightarrow> bool"
  assumes inv_emp: "inv emp"
    and inv_ins: "inv m \<Longrightarrow> inv (ins k v m)"
    and look_emp: "look emp k = None"
    and look_ins: "inv m \<Longrightarrow> look (ins k v m) k' = (if k' = k then Some v else look m k')"
    and keys_ordered: "inv m \<Longrightarrow> sorted (keys m) \<and> distinct (keys m)"
    and keys_look: "inv m \<Longrightarrow> k \<in> set (keys m) \<longleftrightarrow> look m k \<noteq> None"
begin

text \<open>Collecting entries: of several entries with one key the last one stays.\<close>

lemma collect_inv: "inv m \<Longrightarrow> inv (fold (\<lambda>(k, v). ins k v) kvs m)"
  by (induction kvs arbitrary: m) (auto simp: inv_ins)

lemma collect_look:
  "inv m \<Longrightarrow> look (fold (\<lambda>(k, v). ins k v) kvs m) k
     = (case map_of (rev kvs) k of Some v \<Rightarrow> Some v | None \<Rightarrow> look m k)"
proof (induction kvs arbitrary: m)
  case (Cons e kvs)
  obtain k' v where e: "e = (k', v)" by (cases e)
  from Cons.IH [OF inv_ins [OF Cons.prems, of k' v]] look_ins [OF Cons.prems]
  show ?case by (auto simp: e map_add_def split: option.splits)
qed simp

lemma collect_keys:
  "inv m \<Longrightarrow> set (keys (fold (\<lambda>(k, v). ins k v) kvs m)) = fst ` set kvs \<union> set (keys m)"
proof (rule set_eqI)
  fix k assume m: "inv m"
  have "map_of (rev kvs) k = None \<longleftrightarrow> k \<notin> fst ` set kvs" by (simp add: map_of_eq_None_iff)
  with collect_look [OF m, of kvs k] keys_look [OF collect_inv [OF m]] keys_look [OF m]
  show "k \<in> set (keys (fold (\<lambda>(k, v). ins k v) kvs m)) \<longleftrightarrow> k \<in> fst ` set kvs \<union> set (keys m)"
    by (auto split: option.splits)
qed

end

section \<open>The implementation\<close>

type_synonym ('k, 'v) btree_map = "('k \<times> 'v) list"

fun bt_insert :: "'k::linorder \<Rightarrow> 'v \<Rightarrow> ('k, 'v) btree_map \<Rightarrow> ('k, 'v) btree_map" where
  "bt_insert k v [] = [(k, v)]"
| "bt_insert k v ((k', v') # m) =
     (if k < k' then (k, v) # (k', v') # m
      else if k = k' then (k, v) # m
      else (k', v') # bt_insert k v m)"

text \<open>\<open>entry(k).or_insert(v)\<close>: an entry that is there stays.\<close>

definition bt_or_insert :: "'k::linorder \<Rightarrow> 'v \<Rightarrow> ('k, 'v) btree_map \<Rightarrow> ('k, 'v) btree_map" where
  "bt_or_insert k v m = (if map_of m k = None then bt_insert k v m else m)"

definition bt_collect :: "('k::linorder \<times> 'v) list \<Rightarrow> ('k, 'v) btree_map" where
  "bt_collect kvs = fold (\<lambda>(k, v). bt_insert k v) kvs []"

definition bt_ordered :: "('k::linorder, 'v) btree_map \<Rightarrow> bool" where
  "bt_ordered m = (sorted (map fst m) \<and> distinct (map fst m))"

lemma bt_insert_keys: "set (map fst (bt_insert k v m)) = insert k (set (map fst m))"
  by (induction k v m rule: bt_insert.induct) auto

lemma bt_insert_ordered: "bt_ordered m \<Longrightarrow> bt_ordered (bt_insert k v m)"
proof (induction k v m rule: bt_insert.induct)
  case (2 k v k' v' m)
  then have m: "bt_ordered m" "\<forall>x \<in> set (map fst m). k' < x"
    by (auto simp: bt_ordered_def order_le_less)
  show ?case
  proof (cases "k < k' \<or> k = k'")
    case True
    with 2(2) show ?thesis by (auto simp: bt_ordered_def)
  next
    case False
    with 2(1) m have "bt_ordered (bt_insert k v m)" by simp
    moreover have "\<forall>x \<in> set (map fst (bt_insert k v m)). k' < x"
      using False m(2) by (simp only: bt_insert_keys) auto
    ultimately show ?thesis using False by (auto simp: bt_ordered_def order_le_less)
  qed
qed (simp add: bt_ordered_def)

lemma bt_insert_look:
  "bt_ordered m \<Longrightarrow> map_of (bt_insert k v m) k' = (if k' = k then Some v else map_of m k')"
  by (induction k v m rule: bt_insert.induct) (auto simp: bt_ordered_def)

lemma bt_ordered_Nil [simp]: "bt_ordered []"
  by (simp add: bt_ordered_def)

interpretation bt: ordered_map "[]" map_of bt_insert "map fst" bt_ordered
proof (unfold_locales, goal_cases)
  case (4 m k v k')
  then show ?case by (rule bt_insert_look)
next
  case (5 m)
  then show ?case by (simp add: bt_ordered_def)
qed (auto simp: bt_insert_ordered map_of_eq_None_iff)

lemma bt_collect_ordered [simp]: "bt_ordered (bt_collect kvs)"
  unfolding bt_collect_def by (rule bt.collect_inv) (rule bt.inv_emp)

lemma bt_collect_look: "map_of (bt_collect kvs) k = map_of (rev kvs) k"
  unfolding bt_collect_def using bt.collect_look [OF bt.inv_emp, of kvs k] by (simp split: option.splits)

lemma bt_collect_keys [simp]: "set (map fst (bt_collect kvs)) = fst ` set kvs"
  unfolding bt_collect_def using bt.collect_keys [OF bt.inv_emp, of kvs] by simp

lemma bt_or_insert_ordered: "bt_ordered m \<Longrightarrow> bt_ordered (bt_or_insert k v m)"
  by (simp add: bt_or_insert_def bt_insert_ordered)

lemma bt_or_insert_look:
  "bt_ordered m \<Longrightarrow> map_of (bt_or_insert k v m) k'
     = (if k' = k \<and> map_of m k = None then Some v else map_of m k')"
  by (auto simp: bt_or_insert_def bt_insert_look)

lemma bt_ordered_distinct: "bt_ordered m \<Longrightarrow> distinct (map fst m)"
  by (simp add: bt_ordered_def)

end
