(* ===== verification/Deps.thy ===== *)
theory Deps
  imports Task_Model Ordered_Map
begin

text \<open>
  The dependency graph of the board (\<open>src/team/deps.rs\<close>): the nodes built from the tasks, the
  depth-first search for a cycle, the longest chain of incomplete tasks, the blocked pairs and
  the three renderings.

  The recursive functions of the source recurse along edges; their models take the depth they
  may still descend as a fuel argument and return \<open>No_Fuel\<close> or \<open>None\<close> when it is used up.
  The callers start them with the number of nodes, which the theorems show to be enough.
  A string is cut at a byte index; at an index inside a character this panics, which is the
  result \<open>None\<close> of \<open>truncated_title\<close> and of the renderings that use it.
\<close>

section \<open>Nodes\<close>

datatype deps_format = Tree | Flat | Dot

record task_node =
  n_id :: nat
  n_title :: string
  n_status :: string
  n_priority :: string
  n_depends_on :: "nat list"

type_synonym nodes = "(nat, task_node) btree_map"

definition node_from_task :: "task \<Rightarrow> task_node" where
  "node_from_task t = \<lparr> n_id = t_id t, n_title = t_title t, n_status = t_status t,
     n_priority = t_priority t, n_depends_on = t_depends_on t \<rparr>"

definition task_nodes :: "task list \<Rightarrow> nodes" where
  "task_nodes tasks = bt_collect (map (\<lambda>t. (t_id t, node_from_task t)) tasks)"

text \<open>A byte index is a character boundary at the ends and where no continuation byte starts.\<close>

definition is_char_boundary :: "nat \<Rightarrow> string \<Rightarrow> bool" where
  "is_char_boundary i s =
     (i = length s \<or> (i < length s \<and> \<not> (128 \<le> (of_char (s ! i) :: nat) \<and> (of_char (s ! i) :: nat) < 192)))"

definition truncated_title :: "nat \<Rightarrow> task_node \<Rightarrow> string option" where
  "truncated_title max_len node =
     (if length (n_title node) \<le> max_len then Some (n_title node)
      else if is_char_boundary (max_len - 3) (n_title node)
      then Some (take (max_len - 3) (n_title node) @ ''...'')
      else None)"

definition status_indicator :: "task_node \<Rightarrow> string" where
  "status_indicator node =
     (let s = n_status node in
      if s = ''done'' then ''[x]''
      else if s = ''in-progress'' then ''[>]''
      else if s = ''review'' then ''[R]''
      else if s = ''todo'' then ''[ ]''
      else if s = ''backlog'' then ''[-]''
      else if s = ''blocked'' then ''[!]''
      else ''[?]'')"

definition is_incomplete :: "task_node \<Rightarrow> bool" where
  "is_incomplete node = (n_status node \<noteq> ''done'')"

section \<open>The search for a cycle\<close>

record dfs_state =
  visited :: "nat set"
  in_stack :: "nat set"
  path :: "nat list"

datatype dfs_result = Cycle "nat list" | Clear dfs_state | No_Fuel

definition enter :: "nat \<Rightarrow> dfs_state \<Rightarrow> dfs_state" where
  "enter i st = st\<lparr>visited := insert i (visited st), in_stack := insert i (in_stack st),
                   path := path st @ [i]\<rparr>"

definition leave :: "nat \<Rightarrow> dfs_state \<Rightarrow> dfs_state" where
  "leave i st = st\<lparr>path := butlast (path st), in_stack := in_stack st - {i}\<rparr>"

definition extract_cycle :: "nat \<Rightarrow> dfs_state \<Rightarrow> nat list" where
  "extract_cycle dep st = dropWhile (\<lambda>x. x \<noteq> dep) (path st) @ [dep]"

fun dfs_cycle :: "nat \<Rightarrow> nat \<Rightarrow> nodes \<Rightarrow> dfs_state \<Rightarrow> dfs_result"
  and dfs_deps :: "nat \<Rightarrow> nat list \<Rightarrow> nodes \<Rightarrow> dfs_state \<Rightarrow> dfs_result" where
  "dfs_cycle 0 i nodes st = No_Fuel"
| "dfs_cycle (Suc fuel) i nodes st =
     (case (case map_of nodes i of
              Some node \<Rightarrow> dfs_deps fuel (n_depends_on node) nodes (enter i st)
            | None \<Rightarrow> Clear (enter i st)) of
        Clear st' \<Rightarrow> Clear (leave i st')
      | r \<Rightarrow> r)"
| "dfs_deps fuel [] nodes st = Clear st"
| "dfs_deps fuel (dep # deps) nodes st =
     (if map_of nodes dep = None then dfs_deps fuel deps nodes st
      else if dep \<in> in_stack st then Cycle (extract_cycle dep st)
      else if dep \<notin> visited st then
        (case dfs_cycle fuel dep nodes st of
           Clear st' \<Rightarrow> dfs_deps fuel deps nodes st'
         | r \<Rightarrow> r)
      else dfs_deps fuel deps nodes st)"

fun detect_loop :: "nat list \<Rightarrow> nodes \<Rightarrow> dfs_state \<Rightarrow> dfs_result" where
  "detect_loop [] nodes st = Clear st"
| "detect_loop (i # ids) nodes st =
     (if i \<notin> visited st then
        (case dfs_cycle (length nodes) i nodes st of
           Clear st' \<Rightarrow> detect_loop ids nodes st'
         | r \<Rightarrow> r)
      else detect_loop ids nodes st)"

definition start_state :: dfs_state where
  "start_state = \<lparr> visited = {}, in_stack = {}, path = [] \<rparr>"

definition detect_cycle :: "nodes \<Rightarrow> dfs_result" where
  "detect_cycle nodes = detect_loop (map fst nodes) nodes start_state"

definition detect_cycle_for_tasks :: "task list \<Rightarrow> dfs_result" where
  "detect_cycle_for_tasks tasks = detect_cycle (task_nodes tasks)"

section \<open>Blocked chains and the critical path\<close>

definition find_blocked_chains :: "nodes \<Rightarrow> nat list list" where
  "find_blocked_chains nodes = sort (concat (map (\<lambda>(k, node).
     if \<not> is_incomplete node then []
     else List.map_filter (\<lambda>dep. case map_of nodes dep of
            Some dep_node \<Rightarrow> if is_incomplete dep_node then Some [n_id node, dep] else None
          | None \<Rightarrow> None) (n_depends_on node)) nodes))"

type_synonym memo = "nat \<rightharpoonup> nat list"

fun longest_path :: "nat \<Rightarrow> nat \<Rightarrow> nodes \<Rightarrow> memo \<Rightarrow> (nat list \<times> memo) option"
  and best_child :: "nat \<Rightarrow> nat list \<Rightarrow> nodes \<Rightarrow> nat list \<Rightarrow> memo \<Rightarrow> (nat list \<times> memo) option" where
  "longest_path 0 i nodes memo = None"
| "longest_path (Suc fuel) i nodes memo =
     (case memo i of
        Some cached \<Rightarrow> Some (cached, memo)
      | None \<Rightarrow>
          (case map_of nodes i of
             None \<Rightarrow> Some ([], memo)
           | Some node \<Rightarrow>
               if \<not> is_incomplete node then Some ([], memo(i \<mapsto> []))
               else
                 (case best_child fuel (n_depends_on node) nodes [] memo of
                    None \<Rightarrow> None
                  | Some (best, memo') \<Rightarrow> Some (i # best, memo'(i \<mapsto> i # best)))))"
| "best_child fuel [] nodes best memo = Some (best, memo)"
| "best_child fuel (dep # deps) nodes best memo =
     (if map_of nodes dep = None then best_child fuel deps nodes best memo
      else
        (case longest_path fuel dep nodes memo of
           None \<Rightarrow> None
         | Some (child, memo') \<Rightarrow>
             best_child fuel deps nodes (if length best < length child then child else best) memo'))"

fun critical_loop :: "nat list \<Rightarrow> nodes \<Rightarrow> nat list \<Rightarrow> memo \<Rightarrow> nat list option" where
  "critical_loop [] nodes best memo = Some best"
| "critical_loop (i # ids) nodes best memo =
     (case longest_path (Suc (length nodes)) i nodes memo of
        None \<Rightarrow> None
      | Some (p, memo') \<Rightarrow> critical_loop ids nodes (if length best < length p then p else best) memo')"

definition find_critical_path :: "nodes \<Rightarrow> nat list option" where
  "find_critical_path nodes = critical_loop (map fst nodes) nodes [] (\<lambda>_. None)"

section \<open>Renderings\<close>

text \<open>The box-drawing prefixes, as UTF-8.\<close>

definition branch_last :: string where
  "branch_last = [CHR 0xE2, CHR 0x94, CHR 0x94, CHR 0xE2, CHR 0x94, CHR 0x80, CHR 0xE2, CHR 0x94, CHR 0x80, CHR '' '']"
definition branch_mid :: string where
  "branch_mid = [CHR 0xE2, CHR 0x94, CHR 0x9C, CHR 0xE2, CHR 0x94, CHR 0x80, CHR 0xE2, CHR 0x94, CHR 0x80, CHR '' '']"
definition bar_indent :: string where
  "bar_indent = [CHR 0xE2, CHR 0x94, CHR 0x82, CHR '' '', CHR '' '', CHR '' '']"

definition node_children :: "nodes \<Rightarrow> nat \<Rightarrow> nat list" where
  "node_children nodes i =
     btree_set (map (\<lambda>(k, node). n_id node)
       (filter (\<lambda>(k, node). i \<in> set (n_depends_on node) \<and> map_of nodes i \<noteq> None) nodes))"

definition node_roots :: "nodes \<Rightarrow> nat list" where
  "node_roots nodes =
     filter (\<lambda>i. \<not> list_ex (\<lambda>(k, node). n_id node = i \<and> list_ex (\<lambda>d. map_of nodes d \<noteq> None) (n_depends_on node)) nodes)
       (map fst nodes)"

definition connector :: "string \<Rightarrow> bool \<Rightarrow> string" where
  "connector prefix is_last = (if prefix = [] then [] else if is_last then branch_last else branch_mid)"

definition child_prefix :: "string \<Rightarrow> bool \<Rightarrow> string" where
  "child_prefix prefix is_last =
     (if prefix = [] then [] else if is_last then prefix @ ''    '' else prefix @ bar_indent)"

definition node_line :: "task_node \<Rightarrow> string option" where
  "node_line node =
     map_option (\<lambda>title. status_indicator node @ '' #'' @ show_nat (n_id node) @ '' '' @ title
         @ (if n_priority node = [] then [] else '' ('' @ n_priority node @ '')''))
       (truncated_title 50 node)"

text \<open>The lines that one node and its dependents add to the output.\<close>

fun render_tree_node :: "nat \<Rightarrow> nat \<Rightarrow> nodes \<Rightarrow> string \<Rightarrow> bool \<Rightarrow> string list option"
  and render_children :: "nat \<Rightarrow> nat list \<Rightarrow> nodes \<Rightarrow> string \<Rightarrow> string list option" where
  "render_tree_node 0 i nodes prefix is_last = None"
| "render_tree_node (Suc fuel) i nodes prefix is_last =
     (case map_of nodes i of
        None \<Rightarrow> Some []
      | Some node \<Rightarrow>
          (case node_line node of
             None \<Rightarrow> None
           | Some line \<Rightarrow>
               map_option (\<lambda>ls. (prefix @ connector prefix is_last @ line) # ls)
                 (render_children fuel (node_children nodes i) nodes (child_prefix prefix is_last))))"
| "render_children fuel [] nodes prefix = Some []"
| "render_children fuel (c # cs) nodes prefix =
     (case render_tree_node fuel c nodes prefix (cs = []) of
        None \<Rightarrow> None
      | Some ls \<Rightarrow> map_option ((@) ls) (render_children fuel cs nodes prefix))"

definition unlines :: "string list \<Rightarrow> string" where
  "unlines ls = concat (map (\<lambda>l. l @ [newline]) ls)"

definition chain_line :: "nodes \<Rightarrow> nat list \<Rightarrow> string option" where
  "chain_line nodes c =
     map_option (\<lambda>parts. ''  '' @ join '' -> '' parts @ '' (waiting)'')
       (collect_opt (map (\<lambda>i. Option.bind (map_of nodes i)
          (\<lambda>node. map_option (\<lambda>t. ''#'' @ show_nat i @ '' '' @ t) (truncated_title 30 node))) c))"

definition hash_ids :: "nat list \<Rightarrow> string" where
  "hash_ids ids = join '' -> '' (map (\<lambda>i. ''#'' @ show_nat i) ids)"

definition render_tree :: "nodes \<Rightarrow> string option" where
  "render_tree nodes =
     (let roots = node_roots nodes in
      if roots = [] \<and> nodes \<noteq> [] then Some (unlines [''(no root tasks found)''])
      else
        do { chains \<leftarrow> collect_opt (map (chain_line nodes) (find_blocked_chains nodes));
             critical \<leftarrow> find_critical_path nodes;
             trees \<leftarrow> collect_opt (map (\<lambda>r. render_tree_node (Suc (length nodes)) r nodes [] True) roots);
             Some (unlines
               ((if chains = [] then [] else [''Blocked chains:''] @ chains @ [[]])
                @ (if 1 < length critical
                   then [''Critical path ('' @ show_nat (length critical) @ ''): '' @ hash_ids critical, []]
                   else [])
                @ [''Dependency tree:''] @ concat trees)) })"

definition flat_pairs :: "nodes \<Rightarrow> (nat \<times> nat) list" where
  "flat_pairs nodes = concat (map (\<lambda>(k, node).
     map (\<lambda>d. (n_id node, d)) (filter (\<lambda>d. map_of nodes d \<noteq> None) (n_depends_on node))) nodes)"

definition render_flat :: "nodes \<Rightarrow> string" where
  "render_flat nodes =
     (if flat_pairs nodes = [] then unlines [''(no dependencies)'']
      else unlines (map (\<lambda>(i, d). ''#'' @ show_nat i @ '' -> #'' @ show_nat d) (flat_pairs nodes)))"

definition escape_quotes :: "string \<Rightarrow> string" where
  "escape_quotes s = concat (map (\<lambda>c. if c = CHR 0x22 then [CHR 0x5C, CHR 0x22] else [c]) s)"

definition dot_color :: "task_node \<Rightarrow> string" where
  "dot_color node =
     (let s = n_status node in
      if s = ''done'' then ''green''
      else if s = ''in-progress'' then ''yellow''
      else if s = ''review'' then ''orange''
      else if s = ''todo'' \<or> s = ''backlog'' then ''white''
      else ''gray'')"

definition render_dot :: "nodes \<Rightarrow> string option" where
  "render_dot nodes =
     map_option (\<lambda>boxes. unlines
         ([''digraph deps {'', ''  rankdir=BT;'', ''  node [shape=box];''] @ boxes @ [[]]
          @ map (\<lambda>(i, d). ''  t'' @ show_nat i @ '' -> t'' @ show_nat d @ '';'') (flat_pairs nodes)
          @ [''}'']))
       (collect_opt (map (\<lambda>(k, node).
          map_option (\<lambda>t. ''  t'' @ show_nat (n_id node) @ '' [label='' @ [CHR 0x22] @ ''#''
              @ show_nat (n_id node) @ '' '' @ escape_quotes t @ [CHR 0x22]
              @ '' style=filled fillcolor='' @ dot_color node @ ''];'')
            (truncated_title 30 node))
         (filter (\<lambda>(k, node). \<not> (n_depends_on node = []
             \<and> \<not> list_ex (\<lambda>(k', n). n_id node \<in> set (n_depends_on n)) nodes)) nodes)))"

datatype deps_output = Rendered string | CycleError string | Panicked | NeverEnds

definition render_deps :: "deps_format \<Rightarrow> task list \<Rightarrow> deps_output" where
  "render_deps format tasks =
     (let nodes = task_nodes tasks in
      case detect_cycle nodes of
        No_Fuel \<Rightarrow> NeverEnds
      | Cycle c \<Rightarrow> CycleError (''dependency cycle detected: '' @ hash_ids c)
      | Clear _ \<Rightarrow>
          (case (case format of Tree \<Rightarrow> render_tree nodes | Flat \<Rightarrow> Some (render_flat nodes)
                 | Dot \<Rightarrow> render_dot nodes) of
             Some text \<Rightarrow> Rendered text
           | None \<Rightarrow> Panicked))"

section \<open>The graph\<close>

definition edges :: "nodes \<Rightarrow> (nat \<times> nat) set" where
  "edges nodes = {(x, y). \<exists>n. map_of nodes x = Some n \<and> y \<in> set (n_depends_on n) \<and> map_of nodes y \<noteq> None}"

definition chain :: "nodes \<Rightarrow> nat list \<Rightarrow> bool" where
  "chain nodes xs = successively (\<lambda>x y. (x, y) \<in> edges nodes) xs"

definition closed_walk :: "nodes \<Rightarrow> nat list \<Rightarrow> bool" where
  "closed_walk nodes c = (2 \<le> length c \<and> hd c = last c \<and> chain nodes c)"

abbreviation node_ids :: "nodes \<Rightarrow> nat set" where
  "node_ids nodes \<equiv> set (map fst nodes)"

lemma node_ids_iff: "i \<in> node_ids nodes \<longleftrightarrow> map_of nodes i \<noteq> None"
  by (simp add: map_of_eq_None_iff)

lemma edges_ids: "(x, y) \<in> edges nodes \<Longrightarrow> x \<in> node_ids nodes \<and> y \<in> node_ids nodes"
  by (auto simp: edges_def node_ids_iff simp del: set_map)

lemma chain_append_edge: "chain nodes xs \<Longrightarrow> xs \<noteq> [] \<Longrightarrow> (last xs, y) \<in> edges nodes \<Longrightarrow> chain nodes (xs @ [y])"
  by (simp add: chain_def successively_append_iff)

lemma chain_dropWhile: "chain nodes xs \<Longrightarrow> chain nodes (dropWhile P xs)"
  unfolding chain_def
  by (metis successively_append_iff takeWhile_dropWhile_id)

lemma closed_walk_cycle:
  assumes "closed_walk nodes c" shows "\<not> acyclic (edges nodes)"
proof -
  have walk: "chain nodes (x # xs) \<Longrightarrow> xs \<noteq> [] \<Longrightarrow> (x, last xs) \<in> (edges nodes)\<^sup>+" for x xs
  proof (induction xs arbitrary: x)
    case (Cons y ys)
    then have e: "(x, y) \<in> edges nodes" "chain nodes (y # ys)" by (auto simp: chain_def)
    show ?case
    proof (cases "ys = []")
      case False
      with Cons.IH [OF e(2)] e(1) show ?thesis by (auto intro: trancl_into_trancl2)
    qed (use e in auto)
  qed simp
  from assms obtain x xs where c: "c = x # xs" "xs \<noteq> []"
    by (cases c; cases "tl c") (auto simp: closed_walk_def)
  with assms walk [of x xs] show ?thesis by (auto simp: closed_walk_def acyclic_def)
qed

text \<open>A node whose successors are all finished can be finished.\<close>

lemma acyclic_add_source:
  assumes "acyclic (r \<inter> F \<times> F)" and "\<And>x y. x \<in> F \<Longrightarrow> (x, y) \<in> r \<Longrightarrow> y \<in> F"
    and "i \<notin> F" and "\<And>y. (i, y) \<in> r \<Longrightarrow> y \<in> F"
  shows "acyclic (r \<inter> insert i F \<times> insert i F)"
proof -
  let ?r = "r \<inter> insert i F \<times> insert i F"
  have stay: "(a, b) \<in> ?r\<^sup>+ \<Longrightarrow> a \<in> F \<Longrightarrow> (a, b) \<in> (r \<inter> F \<times> F)\<^sup>+ \<and> b \<in> F" for a b
  proof (induction rule: trancl_induct)
    case (base y)
    with assms(2) show ?case by blast
  next
    case (step y z)
    then have "y \<in> F" "(y, z) \<in> r \<inter> F \<times> F" using assms(2) by blast+
    with step show ?case by (auto intro: trancl_into_trancl)
  qed
  have "(a, a) \<notin> ?r\<^sup>+" for a
  proof
    assume cyc: "(a, a) \<in> ?r\<^sup>+"
    show False
    proof (cases "a \<in> F")
      case True
      with stay [OF cyc] assms(1) show False by (auto simp: acyclic_def)
    next
      case False
      from cyc obtain b where "(a, b) \<in> ?r" "(b, a) \<in> ?r\<^sup>*" by (blast dest: tranclD)
      with False assms(4) have "b \<in> F" "b = a \<or> (b, a) \<in> ?r\<^sup>+" by (auto dest: rtranclD)
      with False stay [of b a] show False by auto
    qed
  qed
  then show ?thesis by (simp add: acyclic_def)
qed

section \<open>Correctness of the search\<close>

definition finished :: "dfs_state \<Rightarrow> nat set" where
  "finished st = visited st - in_stack st"

definition dfs_inv :: "nodes \<Rightarrow> dfs_state \<Rightarrow> bool" where
  "dfs_inv nodes st =
     (distinct (path st) \<and> in_stack st = set (path st) \<and> in_stack st \<subseteq> visited st
      \<and> visited st \<subseteq> node_ids nodes \<and> chain nodes (path st)
      \<and> (\<forall>x y. x \<in> finished st \<longrightarrow> (x, y) \<in> edges nodes \<longrightarrow> y \<in> finished st)
      \<and> acyclic (edges nodes \<inter> finished st \<times> finished st))"

lemma enter_inv:
  assumes "dfs_inv nodes st" and "i \<in> node_ids nodes" and "i \<notin> visited st"
    and "path st \<noteq> [] \<Longrightarrow> (last (path st), i) \<in> edges nodes"
  shows "dfs_inv nodes (enter i st) \<and> finished (enter i st) = finished st"
proof -
  have f: "finished (enter i st) = finished st"
    using assms(1,3) by (auto simp: finished_def enter_def dfs_inv_def)
  have "chain nodes (path st @ [i])"
    using assms(1,4) by (cases "path st = []") (auto simp: dfs_inv_def chain_append_edge, simp add: chain_def)
  with assms f show ?thesis
    unfolding dfs_inv_def f by (auto simp: enter_def dfs_inv_def)
qed

lemma leave_inv:
  assumes "dfs_inv nodes st" and "path st = p @ [i]"
    and "\<And>y. (i, y) \<in> edges nodes \<Longrightarrow> y \<in> finished st"
  shows "dfs_inv nodes (leave i st)"
proof -
  from assms(1,2) have i: "i \<in> in_stack st" "i \<in> visited st" "i \<notin> finished st" "i \<notin> set p"
    "in_stack st = insert i (set p)"
    by (auto simp: dfs_inv_def finished_def)
  have f: "finished (leave i st) = insert i (finished st)"
    using i by (auto simp: finished_def leave_def)
  have closed: "\<And>x y. x \<in> finished st \<Longrightarrow> (x, y) \<in> edges nodes \<Longrightarrow> y \<in> finished st"
    using assms(1) by (auto simp: dfs_inv_def)
  have "acyclic (edges nodes \<inter> insert i (finished st) \<times> insert i (finished st))"
    by (rule acyclic_add_source) (use assms i closed in \<open>auto simp: dfs_inv_def\<close>)
  moreover have "\<forall>x y. x \<in> insert i (finished st) \<longrightarrow> (x, y) \<in> edges nodes \<longrightarrow> y \<in> insert i (finished st)"
    using closed assms(3) by blast
  moreover have "chain nodes p" using assms(1,2) by (simp add: dfs_inv_def chain_def successively_append_iff)
  ultimately show ?thesis
    using assms(1,2) i unfolding dfs_inv_def f by (auto simp: leave_def)
qed

lemma extract_cycle_walk:
  assumes "dfs_inv nodes st" and "dep \<in> in_stack st" and "(last (path st), dep) \<in> edges nodes"
  shows "closed_walk nodes (extract_cycle dep st)"
proof -
  let ?d = "dropWhile (\<lambda>x. x \<noteq> dep) (path st)"
  from assms(1,2) have dep: "dep \<in> set (path st)" by (simp add: dfs_inv_def)
  then have ne: "?d \<noteq> []" by (auto simp: dropWhile_eq_Nil_conv)
  then have hd: "hd ?d = dep" using hd_dropWhile by blast
  have "last ?d = last (path st)"
    using ne by (metis last_appendR takeWhile_dropWhile_id)
  with assms ne have "chain nodes (?d @ [dep])"
    by (intro chain_append_edge chain_dropWhile) (auto simp: dfs_inv_def)
  with ne hd show ?thesis
    by (cases ?d) (auto simp: closed_walk_def extract_cycle_def)
qed

lemma card_enter:
  assumes "i \<in> node_ids nodes" and "i \<notin> visited st" and "card (node_ids nodes - visited st) \<le> Suc fuel"
  shows "card (node_ids nodes - visited (enter i st)) \<le> fuel"
proof -
  have "node_ids nodes - visited (enter i st) = (node_ids nodes - visited st) - {i}"
    by (auto simp: enter_def)
  with assms show ?thesis by (simp add: card_Diff_singleton)
qed

definition dfs_ok :: "nodes \<Rightarrow> dfs_state \<Rightarrow> nat set \<Rightarrow> dfs_result \<Rightarrow> bool" where
  "dfs_ok nodes st new r =
     (case r of
        Clear st' \<Rightarrow> dfs_inv nodes st' \<and> path st' = path st \<and> visited st \<subseteq> visited st' \<and> new \<subseteq> finished st'
      | Cycle c \<Rightarrow> closed_walk nodes c
      | No_Fuel \<Rightarrow> False)"

lemma dfs_correct:
  shows "dfs_inv nodes st \<Longrightarrow> i \<in> node_ids nodes \<Longrightarrow> i \<notin> visited st
      \<Longrightarrow> (path st \<noteq> [] \<longrightarrow> (last (path st), i) \<in> edges nodes)
      \<Longrightarrow> card (node_ids nodes - visited st) \<le> fuel
      \<Longrightarrow> dfs_ok nodes st {i} (dfs_cycle fuel i nodes st)"
    and "dfs_inv nodes st \<Longrightarrow> path st \<noteq> []
      \<Longrightarrow> \<forall>d \<in> set deps. d \<in> node_ids nodes \<longrightarrow> (last (path st), d) \<in> edges nodes
      \<Longrightarrow> card (node_ids nodes - visited st) \<le> fuel
      \<Longrightarrow> dfs_ok nodes st (set deps \<inter> node_ids nodes) (dfs_deps fuel deps nodes st)"
proof (induction fuel i nodes st and fuel deps nodes st rule: dfs_cycle_dfs_deps.induct)
  case (1 i nodes st)
  then have "node_ids nodes - visited st = {}" by (simp del: set_map)
  with 1(2,3) show ?case by blast
next
  case (2 fuel i nodes st)
  from 2(3) obtain node where node: "map_of nodes i = Some node" by (auto simp: node_ids_iff simp del: set_map)
  let ?r = "dfs_deps fuel (n_depends_on node) nodes (enter i st)"
  have succ: "(i, y) \<in> edges nodes \<longleftrightarrow> y \<in> set (n_depends_on node) \<inter> node_ids nodes" for y
    by (auto simp: edges_def node node_ids_iff simp del: set_map)
  have e: "dfs_inv nodes (enter i st)" "finished (enter i st) = finished st"
    using enter_inv [OF 2(2-4)] 2(5) by auto
  have pe: "path (enter i st) = path st @ [i]" by (simp add: enter_def)
  have ok: "dfs_ok nodes (enter i st) (set (n_depends_on node) \<inter> node_ids nodes) ?r"
    by (rule 2(1) [OF node e(1)])
      (use pe succ card_enter [OF 2(3,4,6)] in \<open>auto simp del: set_map\<close>)
  show ?case
  proof (cases ?r)
    case (Clear st')
    with ok have s: "dfs_inv nodes st'" "path st' = path st @ [i]" "visited (enter i st) \<subseteq> visited st'"
      "set (n_depends_on node) \<inter> node_ids nodes \<subseteq> finished st'"
      by (auto simp: dfs_ok_def pe simp del: set_map)
    have l: "dfs_inv nodes (leave i st')"
      by (rule leave_inv [OF s(1,2)]) (use succ s(4) in blast)
    have "i \<in> finished (leave i st')" "visited st \<subseteq> visited (leave i st')"
      using s(3) by (auto simp: finished_def leave_def enter_def)
    with l s(2) Clear node show ?thesis by (simp add: dfs_ok_def leave_def)
  next
    case (Cycle c)
    with ok node show ?thesis by (simp add: dfs_ok_def)
  next
    case No_Fuel
    with ok node show ?thesis by (simp add: dfs_ok_def)
  qed
next
  case (3 fuel nodes st)
  then show ?case by (simp add: dfs_ok_def)
next
  case (4 fuel dep deps nodes st)
  show ?case
  proof (cases "map_of nodes dep = None")
    case True
    then have "dep \<notin> node_ids nodes" by (simp add: node_ids_iff del: set_map)
    with 4(1) [OF True 4(5-6)] 4(7,8) True show ?thesis by (auto simp: dfs_ok_def simp del: set_map split: dfs_result.splits)
  next
    case F1: False
    then have ids: "dep \<in> node_ids nodes" by (simp add: node_ids_iff del: set_map)
    with 4(7) have e: "(last (path st), dep) \<in> edges nodes" by auto
    show ?thesis
    proof (cases "dep \<in> in_stack st")
      case True
      with F1 extract_cycle_walk [OF 4(5) True e] show ?thesis by (auto simp: dfs_ok_def)
    next
      case F2: False
      show ?thesis
      proof (cases "dep \<in> visited st")
        case True
        then have "dep \<in> finished st" using F2 by (simp add: finished_def)
        have ok: "dfs_ok nodes st (set deps \<inter> node_ids nodes) (dfs_deps fuel deps nodes st)"
          by (rule 4(4)) (use F1 F2 True 4(5-8) in \<open>auto simp del: set_map\<close>)
        have "finished st \<subseteq> finished st'" if "dfs_inv nodes st'" "path st' = path st" "visited st \<subseteq> visited st'" for st'
          using that 4(5) by (auto simp: finished_def dfs_inv_def)
        with ok F1 F2 True \<open>dep \<in> finished st\<close> show ?thesis
          by (auto simp: dfs_ok_def simp del: set_map split: dfs_result.splits)
      next
        case F3: False
        let ?r = "dfs_cycle fuel dep nodes st"
        have ok: "dfs_ok nodes st {dep} ?r"
          by (rule 4(2)) (use F1 F2 F3 ids e 4(5,8) in \<open>auto simp del: set_map\<close>)
        show ?thesis
        proof (cases ?r)
          case (Clear st')
          with ok have s: "dfs_inv nodes st'" "path st' = path st" "visited st \<subseteq> visited st'" "dep \<in> finished st'"
            by (auto simp: dfs_ok_def)
          have "card (node_ids nodes - visited st') \<le> card (node_ids nodes - visited st)"
            by (rule card_mono) (use s(3) in auto)
          then have ok2: "dfs_ok nodes st' (set deps \<inter> node_ids nodes) (dfs_deps fuel deps nodes st')"
            by (intro 4(3)) (use F1 F2 F3 Clear s 4(6-8) in \<open>auto simp del: set_map\<close>)
          have "finished st' \<subseteq> finished st''" if "dfs_inv nodes st''" "path st'' = path st'" "visited st' \<subseteq> visited st''" for st''
            using that s(1) by (auto simp: finished_def dfs_inv_def)
          with ok2 F1 F2 F3 Clear s show ?thesis
            by (auto simp: dfs_ok_def simp del: set_map split: dfs_result.splits)
        qed (use ok F1 F2 F3 in \<open>auto simp: dfs_ok_def\<close>)
      qed
    qed
  qed
qed

lemma detect_loop_correct:
  assumes "dfs_inv nodes st" and "path st = []" and "set ids \<subseteq> node_ids nodes"
  shows "dfs_ok nodes st (set ids) (detect_loop ids nodes st)"
  using assms
proof (induction ids arbitrary: st)
  case (Cons i ids)
  have fin: "finished s = visited s" if "dfs_inv nodes s" "path s = []" for s
    using that by (auto simp: dfs_inv_def finished_def)
  show ?case
  proof (cases "i \<in> visited st")
    case True
    with Cons fin [OF Cons.prems(1,2)] have "dfs_ok nodes st (set ids) (detect_loop ids nodes st)" by simp
    with True Cons.prems fin show ?thesis by (auto simp: dfs_ok_def split: dfs_result.splits)
  next
    case False
    have "card (node_ids nodes - visited st) \<le> card (node_ids nodes)" by (rule card_mono) auto
    also have "\<dots> \<le> length nodes" using card_length [of "map fst nodes"] by simp
    finally have ok: "dfs_ok nodes st {i} (dfs_cycle (length nodes) i nodes st)"
      using dfs_correct(1) [OF Cons.prems(1) _ False] Cons.prems(2,3) by simp
    show ?thesis
    proof (cases "dfs_cycle (length nodes) i nodes st")
      case (Clear st')
      with ok have s: "dfs_inv nodes st'" "path st' = []" "visited st \<subseteq> visited st'" "i \<in> finished st'"
        using Cons.prems(2) by (auto simp: dfs_ok_def)
      from Cons.IH [OF s(1,2)] Cons.prems(3)
      have "dfs_ok nodes st' (set ids) (detect_loop ids nodes st')" by simp
      with s False Clear Cons.prems(2) fin show ?thesis
        by (auto simp: dfs_ok_def split: dfs_result.splits)
    qed (use ok False in \<open>auto simp: dfs_ok_def\<close>)
  qed
qed (simp add: dfs_ok_def)

lemma start_inv: "dfs_inv nodes start_state"
  by (simp add: dfs_inv_def start_state_def finished_def chain_def acyclic_def)

lemma detect_cycle_correct:
  "case detect_cycle nodes of
     Cycle c \<Rightarrow> closed_walk nodes c
   | Clear st \<Rightarrow> acyclic (edges nodes)
   | No_Fuel \<Rightarrow> False"
proof -
  have "dfs_ok nodes start_state (node_ids nodes) (detect_cycle nodes)"
    unfolding detect_cycle_def
    by (rule detect_loop_correct [OF start_inv]) (simp_all add: start_state_def)
  moreover have "acyclic (edges nodes)" if "dfs_inv nodes st" "node_ids nodes \<subseteq> finished st" for st
  proof -
    have "edges nodes \<inter> finished st \<times> finished st = edges nodes"
      using that(2) edges_ids [of _ _ nodes] by (auto simp del: set_map)
    with that(1) show ?thesis by (simp add: dfs_inv_def)
  qed
  ultimately show ?thesis by (auto simp: dfs_ok_def simp del: set_map split: dfs_result.splits)
qed

section \<open>The critical path\<close>

text \<open>Chains of incomplete tasks, from a task along its dependencies.\<close>

definition pending :: "nodes \<Rightarrow> nat \<Rightarrow> bool" where
  "pending nodes i = (case map_of nodes i of Some n \<Rightarrow> is_incomplete n | None \<Rightarrow> False)"

definition pending_chain :: "nodes \<Rightarrow> nat list \<Rightarrow> bool" where
  "pending_chain nodes xs = (chain nodes xs \<and> list_all (pending nodes) xs)"

text \<open>A longest pending chain from a node; the empty list stands for a node that is not pending.\<close>

definition longest_from :: "nodes \<Rightarrow> nat \<Rightarrow> nat list \<Rightarrow> bool" where
  "longest_from nodes i xs =
     (pending_chain nodes xs \<and> (xs \<noteq> [] \<longrightarrow> hd xs = i)
      \<and> (\<forall>ys. pending_chain nodes (i # ys) \<longrightarrow> length (i # ys) \<le> length xs))"

definition memo_ok :: "nodes \<Rightarrow> memo \<Rightarrow> bool" where
  "memo_ok nodes memo = (\<forall>i xs. memo i = Some xs \<longrightarrow> i \<in> node_ids nodes \<and> longest_from nodes i xs)"

lemma memo_ok_upd:
  "memo_ok nodes memo \<Longrightarrow> i \<in> node_ids nodes \<Longrightarrow> longest_from nodes i xs \<Longrightarrow> memo_ok nodes (memo(i \<mapsto> xs))"
  by (simp add: memo_ok_def)

lemma pending_chain_Cons:
  "pending_chain nodes (i # ys) \<longleftrightarrow>
     pending nodes i \<and> (case ys of [] \<Rightarrow> True | y # _ \<Rightarrow> (i, y) \<in> edges nodes) \<and> pending_chain nodes ys"
  by (cases ys) (auto simp: pending_chain_def chain_def)

text \<open>The best among some of the successors: a longest chain that starts at one of them.\<close>

definition best_among :: "nodes \<Rightarrow> nat set \<Rightarrow> nat list \<Rightarrow> bool" where
  "best_among nodes D xs =
     (pending_chain nodes xs \<and> (xs \<noteq> [] \<longrightarrow> hd xs \<in> D)
      \<and> (\<forall>d ys. d \<in> D \<longrightarrow> pending_chain nodes (d # ys) \<longrightarrow> length (d # ys) \<le> length xs))"

lemma best_among_step:
  assumes "best_among nodes D best" and "longest_from nodes d c"
  shows "best_among nodes (insert d D) (if length best < length c then c else best)"
  using assms unfolding best_among_def longest_from_def by fastforce

lemma longest_step:
  assumes "best_among nodes {y. (i, y) \<in> edges nodes} best" and "pending nodes i"
  shows "longest_from nodes i (i # best)"
proof -
  have "pending_chain nodes (i # best)"
    using assms by (cases best) (auto simp: pending_chain_Cons best_among_def)
  moreover have "length (i # ys) \<le> length (i # best)" if "pending_chain nodes (i # ys)" for ys
    using that assms(1) by (cases ys) (auto simp: pending_chain_Cons best_among_def)
  ultimately show ?thesis by (simp add: longest_from_def)
qed

definition path_result_ok :: "nodes \<Rightarrow> (nat list \<Rightarrow> bool) \<Rightarrow> (nat list \<times> memo) option \<Rightarrow> bool" where
  "path_result_ok nodes P r = (case r of None \<Rightarrow> False | Some (xs, memo) \<Rightarrow> P xs \<and> memo_ok nodes memo)"

text \<open>The fuel lasts because the ancestors of a node on the recursion are distinct from it.\<close>

lemma longest_path_correct:
  shows "acyclic (edges nodes) \<Longrightarrow> memo_ok nodes memo \<Longrightarrow> i \<in> node_ids nodes \<Longrightarrow> (\<forall>a \<in> A. (a, i) \<in> (edges nodes)\<^sup>+)
      \<Longrightarrow> card (node_ids nodes - A) \<le> fuel
      \<Longrightarrow> path_result_ok nodes (longest_from nodes i) (longest_path fuel i nodes memo)"
    and "acyclic (edges nodes) \<Longrightarrow> memo_ok nodes memo \<Longrightarrow> best_among nodes D best
      \<Longrightarrow> (\<forall>d \<in> set deps. \<forall>a \<in> A. d \<in> node_ids nodes \<longrightarrow> (a, d) \<in> (edges nodes)\<^sup>+)
      \<Longrightarrow> card (node_ids nodes - A) \<le> fuel
      \<Longrightarrow> path_result_ok nodes (best_among nodes (D \<union> (set deps \<inter> node_ids nodes)))
            (best_child fuel deps nodes best memo)"
proof (induction fuel i nodes memo and fuel deps nodes best memo arbitrary: A and A D rule: longest_path_best_child.induct)
  case (1 i nodes memo)
  have "i \<notin> A" using 1(4) 1(1) unfolding acyclic_def by blast
  moreover from 1(5) have "node_ids nodes - A = {}" by (simp del: set_map)
  ultimately show ?case using 1(3) by blast
next
  case (2 fuel i nodes memo)
  show ?case
  proof (cases "memo i")
    case (Some cached)
    with 2(3) show ?thesis by (auto simp: path_result_ok_def memo_ok_def)
  next
    case None
    from 2(4) obtain node where node: "map_of nodes i = Some node"
      by (auto simp: node_ids_iff simp del: set_map)
    have succ: "{y. (i, y) \<in> edges nodes} = set (n_depends_on node) \<inter> node_ids nodes"
      by (auto simp: edges_def node node_ids_iff simp del: set_map)
    show ?thesis
    proof (cases "is_incomplete node")
      case False
      then have "longest_from nodes i []"
        by (simp add: longest_from_def pending_chain_Cons pending_def node)
          (simp add: pending_chain_def chain_def)
      with None node False memo_ok_upd [OF 2(3,4)] show ?thesis by (simp add: path_result_ok_def)
    next
      case True
      have iA: "i \<notin> A" using 2(5) 2(2) unfolding acyclic_def by blast
      have "node_ids nodes - insert i A = (node_ids nodes - A) - {i}" by auto
      with iA 2(4,6) have c: "card (node_ids nodes - insert i A) \<le> fuel"
        by (simp add: card_Diff_singleton del: set_map)
      have anc: "\<forall>d \<in> set (n_depends_on node). \<forall>a \<in> insert i A. d \<in> node_ids nodes \<longrightarrow> (a, d) \<in> (edges nodes)\<^sup>+"
      proof (intro ballI impI)
        fix d a assume d: "d \<in> set (n_depends_on node)" "d \<in> node_ids nodes" and a: "a \<in> insert i A"
        from d succ have "(i, d) \<in> edges nodes" by blast
        with a 2(5) show "(a, d) \<in> (edges nodes)\<^sup>+" by (auto intro: trancl_into_trancl)
      qed
      have b0: "best_among nodes {} []" by (simp add: best_among_def pending_chain_def chain_def)
      from 2(1) [OF None node _ 2(2,3) b0 anc c] True
      have ok: "path_result_ok nodes (best_among nodes (set (n_depends_on node) \<inter> node_ids nodes))
          (best_child fuel (n_depends_on node) nodes [] memo)" by (simp del: set_map)
      then obtain best memo' where r: "best_child fuel (n_depends_on node) nodes [] memo = Some (best, memo')"
        "best_among nodes (set (n_depends_on node) \<inter> node_ids nodes) best" "memo_ok nodes memo'"
        by (auto simp: path_result_ok_def simp del: set_map split: option.splits)
      have "longest_from nodes i (i # best)"
        by (rule longest_step) (use r(2) succ True node in \<open>simp_all add: pending_def del: set_map\<close>)
      with None node True r memo_ok_upd [OF r(3) 2(4)] show ?thesis
        by (simp add: path_result_ok_def del: set_map)
    qed
  qed
next
  case (3 fuel nodes best memo)
  then show ?case by (simp add: path_result_ok_def)
next
  case (4 fuel dep deps nodes best memo)
  show ?case
  proof (cases "map_of nodes dep = None")
    case True
    then have "dep \<notin> node_ids nodes" by (simp add: node_ids_iff del: set_map)
    moreover have "path_result_ok nodes (best_among nodes (D \<union> (set deps \<inter> node_ids nodes)))
      (best_child fuel deps nodes best memo)"
      by (rule 4(1) [OF True 4(4,5,6) _ 4(8)]) (use 4(7) in auto)
    ultimately show ?thesis using True by (simp del: set_map)
  next
    case False
    then have ids: "dep \<in> node_ids nodes" by (simp add: node_ids_iff del: set_map)
    have "path_result_ok nodes (longest_from nodes dep) (longest_path fuel dep nodes memo)"
      by (rule 4(2) [OF False 4(4,5) ids _ 4(8)]) (use 4(7) ids in auto)
    then obtain c memo' where r: "longest_path fuel dep nodes memo = Some (c, memo')"
      "longest_from nodes dep c" "memo_ok nodes memo'"
      by (auto simp: path_result_ok_def split: option.splits)
    let ?best = "if length best < length c then c else best"
    have "path_result_ok nodes (best_among nodes (insert dep D \<union> (set deps \<inter> node_ids nodes)))
      (best_child fuel deps nodes ?best memo')"
      by (rule 4(3) [OF False r(1) refl 4(4) r(3) best_among_step [OF 4(6) r(2)] _ 4(8)]) (use 4(7) in auto)
    moreover have "insert dep D \<union> (set deps \<inter> node_ids nodes) = D \<union> (set (dep # deps) \<inter> node_ids nodes)"
      using ids by auto
    ultimately show ?thesis using False r(1) by (auto simp del: set_map)
  qed
qed

lemma critical_loop_correct:
  assumes "acyclic (edges nodes)"
  shows "memo_ok nodes memo \<Longrightarrow> set ids \<subseteq> node_ids nodes \<Longrightarrow> best_among nodes D best
    \<Longrightarrow> \<exists>xs. critical_loop ids nodes best memo = Some xs \<and> best_among nodes (D \<union> set ids) xs"
proof (induction ids arbitrary: best memo D)
  case (Cons i ids)
  have "card (node_ids nodes - {}) \<le> Suc (length nodes)"
    using card_length [of "map fst nodes"] by simp
  from longest_path_correct(1) [OF assms Cons.prems(1), of i "{}" "Suc (length nodes)"] Cons.prems(2) this
  obtain c memo' where r: "longest_path (Suc (length nodes)) i nodes memo = Some (c, memo')"
    "longest_from nodes i c" "memo_ok nodes memo'"
    by (auto simp: path_result_ok_def simp del: longest_path.simps split: option.splits)
  from Cons.IH [OF r(3) _ best_among_step [OF Cons.prems(3) r(2)]] Cons.prems(2) r(1)
  show ?case by simp
qed simp

lemma critical_path_correct:
  assumes "acyclic (edges nodes)"
  shows "\<exists>xs. find_critical_path nodes = Some xs \<and> best_among nodes (node_ids nodes) xs"
proof -
  have "best_among nodes {} []" "memo_ok nodes (\<lambda>_. None)"
    by (simp_all add: best_among_def memo_ok_def pending_chain_def chain_def)
  from critical_loop_correct [OF assms this(2) order_refl this(1)] show ?thesis
    by (simp add: find_critical_path_def)
qed

section \<open>Lemmas: renderings\<close>

lemma node_from_task_id [simp]: "n_id (node_from_task t) = t_id t"
  by (simp add: node_from_task_def)

definition keyed :: "nodes \<Rightarrow> bool" where
  "keyed nodes = (distinct (map fst nodes) \<and> list_all (\<lambda>(k, node). n_id node = k) nodes)"

lemma task_nodes_look: "map_of (task_nodes tasks) i = map_of (rev (map (\<lambda>t. (t_id t, node_from_task t)) tasks)) i"
  by (simp add: task_nodes_def bt_collect_look)

lemma task_nodes_keyed: "keyed (task_nodes tasks)"
proof -
  have o: "bt_ordered (task_nodes tasks)" by (simp add: task_nodes_def)
  then have d: "distinct (map fst (task_nodes tasks))" by (simp add: bt_ordered_def)
  have "n_id node = k" if "(k, node) \<in> set (task_nodes tasks)" for k node
  proof -
    from that d have "map_of (task_nodes tasks) k = Some node" by simp
    then have "(k, node) \<in> set (rev (map (\<lambda>t. (t_id t, node_from_task t)) tasks))"
      unfolding task_nodes_look by (rule map_of_SomeD)
    then show ?thesis by auto
  qed
  with d show ?thesis by (auto simp: keyed_def list_all_iff)
qed

lemma flat_pairs_edges: "keyed nodes \<Longrightarrow> set (flat_pairs nodes) = edges nodes"
  by (fastforce simp: flat_pairs_def edges_def keyed_def list_all_iff)

text \<open>Without a prefix to start from, no line of the tree is indented.\<close>

lemma tree_lines_flat:
  "render_tree_node fuel i nodes prefix is_last = Some ls \<Longrightarrow> prefix = [] \<Longrightarrow>
     \<forall>l \<in> set ls. \<exists>k node. map_of nodes k = Some node \<and> node_line node = Some l"
  "render_children fuel cs nodes prefix = Some ls \<Longrightarrow> prefix = [] \<Longrightarrow>
     \<forall>l \<in> set ls. \<exists>k node. map_of nodes k = Some node \<and> node_line node = Some l"
proof (induction fuel i nodes prefix is_last and fuel cs nodes prefix arbitrary: ls and ls
    rule: render_tree_node_render_children.induct)
  case (2 fuel i nodes prefix is_last)
  show ?case
  proof (cases "map_of nodes i")
    case (Some node)
    with 2(2) obtain line ls' where "node_line node = Some line"
      "render_children fuel (node_children nodes i) nodes (child_prefix prefix is_last) = Some ls'"
      "ls = (prefix @ connector prefix is_last @ line) # ls'"
      by (auto split: option.splits)
    with 2(1) [OF Some, of line ls'] Some 2(3) show ?thesis by (auto simp: connector_def child_prefix_def)
  qed (use 2(2) in simp)
next
  case (4 fuel c cs nodes prefix)
  then show ?case by (auto split: option.splits)
qed simp_all

text \<open>Titles that are never cut inside a character.\<close>

definition cuttable :: "string \<Rightarrow> bool" where
  "cuttable s = ((30 < length s \<longrightarrow> is_char_boundary 27 s) \<and> (50 < length s \<longrightarrow> is_char_boundary 47 s))"

definition nodes_cuttable :: "nodes \<Rightarrow> bool" where
  "nodes_cuttable nodes = (\<forall>k node. map_of nodes k = Some node \<longrightarrow> cuttable (n_title node))"

lemma truncated_cuttable:
  "cuttable (n_title node) \<Longrightarrow> \<exists>s. truncated_title 30 node = Some s"
  "cuttable (n_title node) \<Longrightarrow> \<exists>s. truncated_title 50 node = Some s"
  by (auto simp: cuttable_def truncated_title_def)

lemma node_children_edge: "c \<in> set (node_children nodes i) \<Longrightarrow> keyed nodes \<Longrightarrow> (c, i) \<in> edges nodes"
  by (auto simp: node_children_def edges_def keyed_def list_all_iff)

lemma tree_total:
  shows "acyclic (edges nodes) \<Longrightarrow> keyed nodes \<Longrightarrow> nodes_cuttable nodes \<Longrightarrow> i \<in> node_ids nodes
      \<Longrightarrow> (\<forall>a \<in> A. (i, a) \<in> (edges nodes)\<^sup>+) \<Longrightarrow> card (node_ids nodes - A) \<le> fuel
      \<Longrightarrow> \<exists>ls. render_tree_node fuel i nodes prefix is_last = Some ls"
    and "acyclic (edges nodes) \<Longrightarrow> keyed nodes \<Longrightarrow> nodes_cuttable nodes
      \<Longrightarrow> (\<forall>c \<in> set cs. c \<in> node_ids nodes \<and> (\<forall>a \<in> A. (c, a) \<in> (edges nodes)\<^sup>+))
      \<Longrightarrow> card (node_ids nodes - A) \<le> fuel
      \<Longrightarrow> \<exists>ls. render_children fuel cs nodes prefix = Some ls"
proof (induction fuel i nodes prefix is_last and fuel cs nodes prefix arbitrary: A and A
    rule: render_tree_node_render_children.induct)
  case (1 i nodes prefix is_last)
  have "i \<notin> A" using 1(5,1) unfolding acyclic_def by blast
  moreover from 1(6) have "node_ids nodes - A = {}" by (simp del: set_map)
  ultimately show ?case using 1(4) by blast
next
  case (2 fuel i nodes prefix is_last)
  from 2(5) obtain node where node: "map_of nodes i = Some node"
    by (auto simp: node_ids_iff simp del: set_map)
  with 2(4) obtain line where line: "node_line node = Some line"
    using truncated_cuttable(2) [of node] by (auto simp: nodes_cuttable_def node_line_def)
  have "i \<notin> A" using 2(6,2) unfolding acyclic_def by blast
  moreover have "node_ids nodes - insert i A = (node_ids nodes - A) - {i}" by auto
  ultimately have c: "card (node_ids nodes - insert i A) \<le> fuel"
    using 2(5,7) by (simp add: card_Diff_singleton del: set_map)
  have "\<forall>c \<in> set (node_children nodes i). c \<in> node_ids nodes \<and> (\<forall>a \<in> insert i A. (c, a) \<in> (edges nodes)\<^sup>+)"
  proof (intro ballI conjI)
    fix c assume "c \<in> set (node_children nodes i)"
    then have e: "(c, i) \<in> edges nodes" using node_children_edge 2(3) by blast
    show "c \<in> node_ids nodes" using edges_ids [OF e] by blast
    fix a assume "a \<in> insert i A"
    with e 2(6) show "(c, a) \<in> (edges nodes)\<^sup>+" by (auto intro: trancl_into_trancl2)
  qed
  from 2(1) [OF node line 2(2-4) this c] obtain ls where
    "render_children fuel (node_children nodes i) nodes (child_prefix prefix is_last) = Some ls" ..
  with node line show ?case by simp
next
  case (4 fuel c cs nodes prefix)
  from 4(1) [OF 4(3-5), of A] 4(6,7) obtain l where l: "render_tree_node fuel c nodes prefix (cs = []) = Some l" by auto
  from 4(2) [OF l 4(3-5), of A] 4(6,7) obtain ls where "render_children fuel cs nodes prefix = Some ls" by auto
  with l show ?case by simp
qed simp_all

lemma collect_opt_total: "(\<And>x. x \<in> set xs \<Longrightarrow> \<exists>y. f x = Some y) \<Longrightarrow> \<exists>ys. collect_opt (map f xs) = Some ys"
proof (induction xs)
  case (Cons x xs)
  then obtain y ys where "f x = Some y" "collect_opt (map f xs) = Some ys" by fastforce
  then show ?case by simp
qed simp

lemma in_map_filter: "y \<in> set (List.map_filter f xs) \<longleftrightarrow> (\<exists>x \<in> set xs. f x = Some y)"
  by (force simp: List.map_filter_def)

lemma keyed_entry: "keyed nodes \<Longrightarrow> (k, node) \<in> set nodes \<longleftrightarrow> map_of nodes k = Some node"
  by (simp add: keyed_def)

lemma blocked_chains_edges:
  assumes "keyed nodes"
  shows "set (find_blocked_chains nodes)
    = {[x, y] | x y. (x, y) \<in> edges nodes \<and> pending nodes x \<and> pending nodes y}"
proof (rule set_eqI)
  fix c
  let ?f = "\<lambda>node dep. case map_of nodes dep of
      Some dep_node \<Rightarrow> if is_incomplete dep_node then Some [n_id node, dep] else None | None \<Rightarrow> None"
  have f: "?f node dep = Some c \<longleftrightarrow> pending nodes dep \<and> c = [n_id node, dep]" for node dep
    by (auto simp: pending_def split: option.splits)
  have id: "n_id node = k" if "map_of nodes k = Some node" for k node
    using assms that by (auto simp: keyed_def list_all_iff dest!: map_of_SomeD)
  have "c \<in> set (find_blocked_chains nodes) \<longleftrightarrow>
      (\<exists>k node. map_of nodes k = Some node \<and> is_incomplete node
         \<and> (\<exists>dep \<in> set (n_depends_on node). ?f node dep = Some c))"
    unfolding keyed_entry [OF assms, symmetric]
    by (auto simp: find_blocked_chains_def in_map_filter split: if_splits)
  also have "\<dots> \<longleftrightarrow> (\<exists>x y. c = [x, y] \<and> (x, y) \<in> edges nodes \<and> pending nodes x \<and> pending nodes y)"
  proof -
    have p: "pending nodes x \<longleftrightarrow> (\<exists>n. map_of nodes x = Some n \<and> is_incomplete n)" for x
      by (simp add: pending_def split: option.split)
    show ?thesis unfolding f p edges_def by (auto dest: id) (use id in blast)+
  qed
  finally show "c \<in> set (find_blocked_chains nodes) \<longleftrightarrow>
      c \<in> {[x, y] | x y. (x, y) \<in> edges nodes \<and> pending nodes x \<and> pending nodes y}" by simp
qed

lemma chain_line_total:
  assumes "keyed nodes" and "nodes_cuttable nodes" and "c \<in> set (find_blocked_chains nodes)"
  shows "\<exists>l. chain_line nodes c = Some l"
proof -
  from assms(3) obtain x y where c: "c = [x, y]" "(x, y) \<in> edges nodes"
    unfolding blocked_chains_edges [OF assms(1)] by blast
  then obtain nx ny where "map_of nodes x = Some nx" "map_of nodes y = Some ny" by (auto simp: edges_def)
  with c(1) assms(2) truncated_cuttable(1) [of nx] truncated_cuttable(1) [of ny]
  show ?thesis by (auto simp: chain_line_def nodes_cuttable_def)
qed

lemma render_tree_total:
  assumes "acyclic (edges nodes)" and "keyed nodes" and "nodes_cuttable nodes"
  shows "\<exists>text. render_tree nodes = Some text"
proof -
  obtain cs where cs: "collect_opt (map (chain_line nodes) (find_blocked_chains nodes)) = Some cs"
    using collect_opt_total [of "find_blocked_chains nodes"] chain_line_total [OF assms(2,3)] by blast
  obtain crit where crit: "find_critical_path nodes = Some crit" using critical_path_correct [OF assms(1)] by blast
  have "card (node_ids nodes - {}) \<le> Suc (length nodes)"
    using card_length [of "map fst nodes"] by simp
  then have "\<exists>ls. render_tree_node (Suc (length nodes)) r nodes [] True = Some ls" if "r \<in> node_ids nodes" for r
    using tree_total(1) [OF assms that, of "{}" "Suc (length nodes)"] by (simp del: render_tree_node.simps)
  moreover have "set (node_roots nodes) \<subseteq> node_ids nodes" by (auto simp: node_roots_def)
  ultimately obtain trees where
    "collect_opt (map (\<lambda>r. render_tree_node (Suc (length nodes)) r nodes [] True) (node_roots nodes)) = Some trees"
    using collect_opt_total [of "node_roots nodes" "\<lambda>r. render_tree_node (Suc (length nodes)) r nodes [] True"] by blast
  with cs crit show ?thesis by (simp add: render_tree_def Let_def del: render_tree_node.simps)
qed

lemma render_dot_total:
  assumes "keyed nodes" and "nodes_cuttable nodes"
  shows "\<exists>text. render_dot nodes = Some text"
proof -
  have "\<exists>y. (\<lambda>(k, node). map_option g (truncated_title 30 node)) e = Some y"
    if "e \<in> set (filter P nodes)" for e P and g :: "string \<Rightarrow> string"
  proof -
    obtain k node where e: "e = (k, node)" by (cases e)
    with that keyed_entry [OF assms(1)] assms(2) have "cuttable (n_title node)"
      by (auto simp: nodes_cuttable_def)
    with truncated_cuttable(1) e show ?thesis by auto
  qed
  then have "\<exists>ys. collect_opt (map (\<lambda>(k, node). map_option (g node) (truncated_title 30 node)) (filter P nodes)) = Some ys"
    for P and g :: "task_node \<Rightarrow> string \<Rightarrow> string"
    by (intro collect_opt_total) fastforce
  then show ?thesis by (auto simp: render_dot_def)
qed

lemma task_nodes_cuttable:
  "\<forall>t \<in> set tasks. cuttable (t_title t) \<Longrightarrow> nodes_cuttable (task_nodes tasks)"
  by (auto simp: nodes_cuttable_def task_nodes_look node_from_task_def dest!: map_of_SomeD)

section \<open>Properties\<close>

text \<open>
  C11. The cycle check is exact and always returns: it reports a cycle only with a closed walk
  along dependencies between tasks of the board, and reports none only when the dependencies
  have no cycle.
\<close>

theorem detect_cycle_exact:
  "case detect_cycle_for_tasks tasks of
     Cycle c \<Rightarrow> closed_walk (task_nodes tasks) c \<and> \<not> acyclic (edges (task_nodes tasks))
   | Clear st \<Rightarrow> acyclic (edges (task_nodes tasks))
   | No_Fuel \<Rightarrow> False"
  unfolding detect_cycle_for_tasks_def
  using detect_cycle_correct [of "task_nodes tasks"] closed_walk_cycle [of "task_nodes tasks"]
  by (auto split: dfs_result.splits)

text \<open>
  C19. On an acyclic board the critical path is found and is a longest one: it is a chain of
  tasks that are not done, each depending on the next, and no such chain is longer.
\<close>

theorem critical_path_longest:
  assumes "acyclic (edges nodes)"
  shows "\<exists>xs. find_critical_path nodes = Some xs \<and> pending_chain nodes xs
    \<and> (\<forall>ys. pending_chain nodes ys \<longrightarrow> length ys \<le> length xs)"
proof -
  from critical_path_correct [OF assms] obtain xs where
    xs: "find_critical_path nodes = Some xs" "best_among nodes (node_ids nodes) xs" by blast
  have "length ys \<le> length xs" if "pending_chain nodes ys" for ys
  proof (cases ys)
    case (Cons y zs)
    with that have "y \<in> node_ids nodes"
      by (auto simp: pending_chain_def pending_def node_ids_iff simp del: set_map split: option.splits)
    with xs(2) that Cons show ?thesis by (auto simp: best_among_def simp del: set_map)
  qed simp
  with xs show ?thesis by (auto simp: best_among_def)
qed

definition sample_nodes :: nodes where
  "sample_nodes = bt_collect (map (\<lambda>(i, s, ds).
     (i, \<lparr> n_id = i, n_title = ''t'', n_status = s, n_priority = [], n_depends_on = ds \<rparr>))
     [(3, ''todo'', [2]), (1, ''done'', []), (2, ''todo'', [1, 4]), (4, ''review'', [9])])"

theorem critical_path_longest_witness:
  "find_critical_path sample_nodes = Some [3, 2, 4]
   \<and> (\<nexists>ys. pending_chain sample_nodes ys \<and> 3 < length ys)"
proof -
  have p: "find_critical_path sample_nodes = Some [3, 2, 4]" by code_simp
  have "case detect_cycle sample_nodes of Clear st \<Rightarrow> True | _ \<Rightarrow> False" by code_simp
  with detect_cycle_correct [of sample_nodes] have "acyclic (edges sample_nodes)"
    by (auto split: dfs_result.splits)
  from critical_path_longest [OF this] p have "\<forall>ys. pending_chain sample_nodes ys \<longrightarrow> length ys \<le> 3" by auto
  then have "\<nexists>ys. pending_chain sample_nodes ys \<and> 3 < length ys" by (auto simp: not_less)
  with p show ?thesis by blast
qed

text \<open>
  The renderings always end: for tasks whose titles are not cut inside a character, the
  command prints the graph in the format asked for or reports a dependency cycle, and it
  reports the cycle exactly when there is one.
\<close>

theorem render_deps_total:
  assumes "\<forall>t \<in> set tasks. cuttable (t_title t)"
  shows "case render_deps format tasks of
      Rendered text \<Rightarrow> acyclic (edges (task_nodes tasks))
    | CycleError msg \<Rightarrow> \<not> acyclic (edges (task_nodes tasks))
    | Panicked \<Rightarrow> False | NeverEnds \<Rightarrow> False"
proof -
  let ?n = "task_nodes tasks"
  note k = task_nodes_keyed [of tasks] and c = task_nodes_cuttable [OF assms]
  show ?thesis
    using detect_cycle_correct [of ?n] closed_walk_cycle [of ?n]
      render_tree_total [OF _ k c] render_dot_total [OF k c]
    by (cases format) (auto simp: render_deps_def Let_def split: dfs_result.splits option.splits)
qed

theorem render_deps_total_witness:
  "\<exists>text. render_deps Tree [sample_task, sample_task\<lparr>t_id := 8, t_depends_on := [7]\<rparr>] = Rendered text"
proof -
  let ?ts = "[sample_task, sample_task\<lparr>t_id := 8, t_depends_on := [7]\<rparr>]"
  have "\<forall>t \<in> set ?ts. cuttable (t_title t)" by (simp add: sample_task_def cuttable_def)
  note r = render_deps_total [OF this, of Tree]
  have "case detect_cycle (task_nodes ?ts) of Clear st \<Rightarrow> True | _ \<Rightarrow> False" by code_simp
  with detect_cycle_correct [of "task_nodes ?ts"] have "acyclic (edges (task_nodes ?ts))"
    by (auto split: dfs_result.splits)
  with r show ?thesis by (cases "render_deps Tree ?ts") auto
qed

text \<open>
  What the listings say of the graph: the flat listing has one line for each dependency
  between tasks of the board, and the blocked chains are exactly the dependencies between two
  tasks that are not done.
\<close>

theorem listings_exact:
  "set (flat_pairs (task_nodes tasks)) = edges (task_nodes tasks)
   \<and> set (find_blocked_chains (task_nodes tasks))
      = {[x, y] | x y. (x, y) \<in> edges (task_nodes tasks) \<and> pending (task_nodes tasks) x
           \<and> pending (task_nodes tasks) y}"
  using flat_pairs_edges [OF task_nodes_keyed] blocked_chains_edges [OF task_nodes_keyed] by blast

section \<open>Two defects of the renderings\<close>

text \<open>The tree shows no structure: a root is rendered with the empty prefix, the children of a
  node with the empty prefix get the empty prefix again, so every line is a bare node line.\<close>

lemma tree_has_no_indentation:
  assumes "render_tree_node fuel i nodes [] is_last = Some ls" and "l \<in> set ls"
  shows "\<exists>k node. map_of nodes k = Some node \<and> node_line node = Some l"
  using tree_lines_flat(1) [OF assms(1)] assms(2) by blast

text \<open>A title of 26 letters, a two-byte character over the cut and three more letters panics.\<close>

lemma long_title_panics:
  "render_deps Dot [sample_task\<lparr>t_title := replicate 26 (CHR ''a'') @ [CHR 0xC3, CHR 0xA9, CHR ''b'', CHR ''c'', CHR ''d''],
      t_depends_on := [1]\<rparr>] = Panicked"
  by code_simp

end
