(* ===== verification/Team_Config.thy ===== *)
theory Team_Config
  imports Batty_Prelude
begin

text \<open>
  The team configuration (\<open>src/team/config\<close>): roles, overrides and policies, the resolution of
  agents and of the permission to talk, and the two validators of \<open>config/mod.rs\<close>. The
  settings of single subsystems (standup, board, cost, grafana and shim options) are read by
  none of the operations modelled here and are left out of the record. A hash map is an
  association list whose order stands for the iteration order, which Rust leaves open.
\<close>

section \<open>Roles and policies\<close>

datatype role_type = User | Architect | Manager | Engineer

datatype claude_auth_mode = Oauth | ApiKey | Custom

record role_instance_override =
  ov_agent :: "string option"
  ov_model :: "string option"
  ov_prompt :: "string option"
  ov_posture :: "string option"
  ov_model_class :: "string option"
  ov_provider_overlay :: "string option"

record role_def =
  r_name :: string
  r_role_type :: role_type
  r_agent :: "string option"
  r_model :: "string option"
  r_auth_mode :: "claude_auth_mode option"
  r_auth_env :: "string list"
  r_instances :: nat
  r_prompt :: "string option"
  r_posture :: "string option"
  r_model_class :: "string option"
  r_provider_overlay :: "string option"
  r_instance_overrides :: "(string \<times> role_instance_override) list"
  r_talks_to :: "string list"
  r_channel :: "string option"
  r_nudge_interval_secs :: "u64 option"
  r_receives_standup :: "bool option"
  r_standup_interval_secs :: "u64 option"
  r_owns :: "string list"
  r_barrier_group :: "string option"
  r_use_worktrees :: bool

definition default_role :: role_def where
  "default_role = \<lparr> r_name = [], r_role_type = Engineer, r_agent = None, r_model = None,
     r_auth_mode = None, r_auth_env = [], r_instances = 1, r_prompt = None, r_posture = None,
     r_model_class = None, r_provider_overlay = None, r_instance_overrides = [], r_talks_to = [],
     r_channel = None, r_nudge_interval_secs = None, r_receives_standup = None,
     r_standup_interval_secs = None, r_owns = [], r_barrier_group = None, r_use_worktrees = False \<rparr>"

record review_timeout_override =
  o_review_nudge_threshold_secs :: "u64 option"
  o_review_timeout_secs :: "u64 option"

record workflow_policy =
  clean_room_mode :: bool
  barrier_groups :: "(string \<times> string list) list"
  handoff_directory :: string
  wip_limit_per_engineer :: "u32 option"
  wip_limit_per_reviewer :: "u32 option"
  pipeline_starvation_threshold :: "nat option"
  escalation_threshold_secs :: u64
  review_nudge_threshold_secs :: u64
  review_timeout_secs :: u64
  stale_in_progress_hours :: u64
  aged_todo_hours :: u64
  stale_review_hours :: u64
  review_timeout_overrides :: "(string \<times> review_timeout_override) list"

datatype workflow_mode = Legacy | Hybrid | WorkflowFirst | BoardFirst

record zone_def =
  z_name :: string
  z_width_pct :: u32
  z_split_horizontal :: "u32 option"

record team_config =
  c_name :: string
  c_trunk_branch :: string
  c_agent :: "string option"
  c_workflow_mode :: workflow_mode
  c_automation_sender :: "string option"
  c_external_senders :: "string list"
  c_orchestrator_pane :: bool
  c_layout :: "zone_def list option"
  c_workflow_policy :: workflow_policy
  c_roles :: "role_def list"

definition legacy_runtime_enabled :: "workflow_mode \<Rightarrow> bool" where
  "legacy_runtime_enabled w = (w = Legacy \<or> w = Hybrid)"

definition workflow_state_primary :: "workflow_mode \<Rightarrow> bool" where
  "workflow_state_primary w = (w = WorkflowFirst \<or> w = BoardFirst)"

definition enables_runtime_surface :: "workflow_mode \<Rightarrow> bool" where
  "enables_runtime_surface w = (w = Hybrid \<or> w = WorkflowFirst \<or> w = BoardFirst)"

definition suppresses_manager_relay :: "workflow_mode \<Rightarrow> bool" where
  "suppresses_manager_relay w = (w = BoardFirst)"

section \<open>Agents\<close>

definition known_agent_names :: "string list" where
  "known_agent_names = [''claude'', ''codex'', ''kiro-cli'']"

definition adapter_known :: "string \<Rightarrow> bool" where
  "adapter_known name = (name \<in> {''claude'', ''claude-code'', ''codex'', ''codex-cli'', ''kiro'', ''kiro-cli''})"

definition is_known_instance_override_backend :: "string \<Rightarrow> bool" where
  "is_known_instance_override_backend name =
     (name \<in> {''claude'', ''claude-code'', ''codex'', ''codex-cli'', ''kiro'', ''kiro-cli'', ''gemini'',
               ''gemini-cli''})"

datatype backend_health = Healthy | Degraded | Unreachable | QuotaExhausted | AuthRequired

definition health_name :: "backend_health \<Rightarrow> string" where
  "health_name h = (case h of Healthy \<Rightarrow> ''healthy'' | Degraded \<Rightarrow> ''degraded''
     | QuotaExhausted \<Rightarrow> ''quota_exhausted'' | AuthRequired \<Rightarrow> ''auth_required''
     | Unreachable \<Rightarrow> ''unreachable'')"

text \<open>What a probe of the backend binary returns is a parameter (\<open>probe\<close>).\<close>

definition health_check_by_name :: "(string \<Rightarrow> backend_health) \<Rightarrow> string \<Rightarrow> backend_health option" where
  "health_check_by_name probe name = (if adapter_known name then Some (probe name) else None)"

section \<open>Look-ups on the configuration\<close>

definition resolve_claude_auth :: "role_def \<Rightarrow> claude_auth_mode \<times> string list" where
  "resolve_claude_auth role =
     ((case r_auth_mode role of Some m \<Rightarrow> m | None \<Rightarrow> Oauth), r_auth_env role)"

definition find_role :: "team_config \<Rightarrow> string \<Rightarrow> role_def option" where
  "find_role c role_name = find (\<lambda>r. r_name r = role_name) (c_roles c)"

definition role_barrier_group :: "team_config \<Rightarrow> string \<Rightarrow> string option" where
  "role_barrier_group c role_name = Option.bind (find_role c role_name) r_barrier_group"

definition orchestrator_enabled :: "team_config \<Rightarrow> bool" where
  "orchestrator_enabled c = (enables_runtime_surface (c_workflow_mode c) \<and> c_orchestrator_pane c)"

definition resolve_agent :: "team_config \<Rightarrow> role_def \<Rightarrow> string option" where
  "resolve_agent c role =
     (if r_role_type role = User then None
      else Some (case opt_or (r_agent role) (c_agent c) of Some a \<Rightarrow> a | None \<Rightarrow> ''claude''))"

definition default_hierarchy :: "role_type \<Rightarrow> role_type \<Rightarrow> bool" where
  "default_hierarchy a b =
     ((a, b) \<in> {(User, Architect), (Architect, User), (Architect, Manager), (Manager, Architect),
                 (Manager, Engineer), (Engineer, Manager)})"

definition can_talk :: "team_config \<Rightarrow> string \<Rightarrow> string \<Rightarrow> bool" where
  "can_talk c from_role to_role =
     (if from_role = ''human'' then True
      else if from_role = ''daemon'' then True
      else if list_ex (\<lambda>s. s = from_role) (c_external_senders c) then True
      else
        (case find_role c from_role of
           None \<Rightarrow> False
         | Some from_def \<Rightarrow>
             if r_talks_to from_def \<noteq> [] then list_ex (\<lambda>t. t = to_role) (r_talks_to from_def)
             else
               (case find_role c to_role of
                  None \<Rightarrow> False
                | Some to_def \<Rightarrow> default_hierarchy (r_role_type from_def) (r_role_type to_def))))"

definition is_valid_env_name :: "string \<Rightarrow> bool" where
  "is_valid_env_name v =
     (case v of
        [] \<Rightarrow> False
      | first # rest \<Rightarrow> (first = CHR ''_'' \<or> is_alpha first) \<and> list_all (\<lambda>ch. ch = CHR ''_'' \<or> is_alnum ch) rest)"

section \<open>Validation\<close>

datatype config_error =
    EmptyTeamName
  | EmptyTrunkBranch
  | WhitespaceTrunkBranch string
  | NoRoles
  | UnknownTeamAgent string
  | EmptyRoleName
  | DuplicateRole string
  | NoAgent string
  | UserWithAgent string
  | ZeroInstances string
  | UnknownRoleAgent string string
  | UnknownOverrideAgent string string string
  | AuthWithoutClaude string
  | EnvWithoutCustom string
  | InvalidEnvName string string
  | EmptyHandoffDirectory
  | EmptyGroupName
  | GroupUnknownRole string string
  | RoleUnknownGroup string string
  | TalksToUnknown string string
  | SenderUnknown string
  | LayoutTooWide u32

definition ensure_that :: "bool \<Rightarrow> config_error \<Rightarrow> config_error + unit" where
  "ensure_that ok e = (if ok then Inr () else Inl e)"

definition and_then :: "config_error + unit \<Rightarrow> config_error + unit \<Rightarrow> config_error + unit" where
  "and_then a b = res_bind a (\<lambda>_. b)"

fun check_all :: "('a \<Rightarrow> config_error + unit) \<Rightarrow> 'a list \<Rightarrow> config_error + unit" where
  "check_all f [] = Inr ()"
| "check_all f (x # xs) = and_then (f x) (check_all f xs)"

definition check_override :: "role_def \<Rightarrow> string \<times> role_instance_override \<Rightarrow> config_error + unit" where
  "check_override role = (\<lambda>(inst, ov).
     case ov_agent ov of
       None \<Rightarrow> Inr ()
     | Some a \<Rightarrow> ensure_that (is_known_instance_override_backend a) (UnknownOverrideAgent (r_name role) inst a))"

definition runs_claude :: "team_config \<Rightarrow> role_def \<Rightarrow> bool" where
  "runs_claude c role = (opt_or (r_agent role) (c_agent c) \<in> {Some ''claude'', Some ''claude-code''})"

text \<open>One round of the loop over the roles; \<open>seen\<close> are the names met before.\<close>

definition check_role :: "team_config \<Rightarrow> string list \<Rightarrow> role_def \<Rightarrow> config_error + unit" where
  "check_role c seen role =
     and_then (ensure_that (r_name role \<noteq> []) EmptyRoleName)
    (and_then (ensure_that (r_name role \<notin> set seen) (DuplicateRole (r_name role)))
    (and_then (ensure_that (\<not> (r_role_type role \<noteq> User \<and> r_agent role = None \<and> c_agent c = None)) (NoAgent (r_name role)))
    (and_then (ensure_that (\<not> (r_role_type role = User \<and> r_agent role \<noteq> None)) (UserWithAgent (r_name role)))
    (and_then (ensure_that (r_instances role \<noteq> 0) (ZeroInstances (r_name role)))
    (and_then (case r_agent role of
                 None \<Rightarrow> Inr ()
               | Some a \<Rightarrow> ensure_that (adapter_known a) (UnknownRoleAgent (r_name role) a))
    (and_then (check_all (check_override role) (r_instance_overrides role))
    (and_then (ensure_that (\<not> ((r_auth_mode role \<noteq> None \<or> r_auth_env role \<noteq> []) \<and> \<not> runs_claude c role))
                 (AuthWithoutClaude (r_name role)))
    (and_then (ensure_that (\<not> (r_auth_mode role \<noteq> Some Custom \<and> r_auth_env role \<noteq> [])) (EnvWithoutCustom (r_name role)))
       (check_all (\<lambda>e. ensure_that (is_valid_env_name e) (InvalidEnvName (r_name role) e)) (r_auth_env role))))))))))"

fun check_roles :: "team_config \<Rightarrow> string list \<Rightarrow> role_def list \<Rightarrow> config_error + unit" where
  "check_roles c seen [] = Inr ()"
| "check_roles c seen (role # roles) =
     and_then (check_role c seen role) (check_roles c (r_name role # seen) roles)"

definition role_names :: "team_config \<Rightarrow> string list" where
  "role_names c = map r_name (c_roles c)"

definition check_clean_room :: "team_config \<Rightarrow> config_error + unit" where
  "check_clean_room c =
     (let p = c_workflow_policy c in
      if clean_room_mode p then
        and_then (ensure_that (trim (handoff_directory p) \<noteq> []) EmptyHandoffDirectory)
       (and_then (check_all (\<lambda>(g, _). ensure_that (trim g \<noteq> []) EmptyGroupName) (barrier_groups p))
       (and_then (check_all (\<lambda>(g, roles). check_all (\<lambda>r.
                    ensure_that (r \<in> set (role_names c)) (GroupUnknownRole g r)) roles) (barrier_groups p))
         (check_all (\<lambda>role. case r_barrier_group role of
              None \<Rightarrow> Inr ()
            | Some g \<Rightarrow> ensure_that (barrier_groups p = [] \<or> g \<in> set (map fst (barrier_groups p)))
                          (RoleUnknownGroup (r_name role) g)) (c_roles c))))
      else Inr ())"

definition total_width :: "zone_def list \<Rightarrow> u32" where
  "total_width zones = sum_list (map z_width_pct zones)"

definition validate :: "team_config \<Rightarrow> config_error + unit" where
  "validate c =
     and_then (ensure_that (c_name c \<noteq> []) EmptyTeamName)
    (and_then (ensure_that (trim (c_trunk_branch c) \<noteq> []) EmptyTrunkBranch)
    (and_then (ensure_that (\<not> list_ex is_ws (c_trunk_branch c)) (WhitespaceTrunkBranch (c_trunk_branch c)))
    (and_then (ensure_that (c_roles c \<noteq> []) NoRoles)
    (and_then (case c_agent c of None \<Rightarrow> Inr () | Some a \<Rightarrow> ensure_that (adapter_known a) (UnknownTeamAgent a))
    (and_then (check_roles c [] (c_roles c))
    (and_then (check_clean_room c)
    (and_then (check_all (\<lambda>role. check_all (\<lambda>target.
                 ensure_that (target \<in> set (role_names c)) (TalksToUnknown (r_name role) target)) (r_talks_to role))
                 (c_roles c))
    (and_then (case c_automation_sender c of
                 None \<Rightarrow> Inr ()
               | Some sender \<Rightarrow> ensure_that (sender \<in> set (role_names c) \<or> sender = ''human'') (SenderUnknown sender))
       (case c_layout c of
          None \<Rightarrow> Inr ()
        | Some zones \<Rightarrow> ensure_that (\<not> 100 < total_width zones) (LayoutTooWide (total_width zones)))))))))))"

subsection \<open>The verbose validator\<close>

record validation_check =
  k_name :: string
  k_passed :: bool
  k_detail :: string

definition check_entry :: "string \<Rightarrow> bool \<Rightarrow> string \<Rightarrow> string \<Rightarrow> validation_check" where
  "check_entry name ok good bad = \<lparr> k_name = name, k_passed = ok, k_detail = (if ok then good else bad) \<rparr>"

definition quoted :: "string \<Rightarrow> string" where
  "quoted s = [CHR 0x27] @ s @ [CHR 0x27]"

text \<open>The arrow of the \<open>talks_to\<close> checks, as UTF-8.\<close>

definition arrow :: string where
  "arrow = [CHR 0xE2, CHR 0x86, CHR 0x92]"

definition role_label :: "role_def \<Rightarrow> string" where
  "role_label role = ''role '' @ quoted (r_name role)"

definition verbose_override :: "role_def \<Rightarrow> string \<times> role_instance_override \<Rightarrow> validation_check list" where
  "verbose_override role = (\<lambda>(inst, ov).
     case ov_agent ov of
       None \<Rightarrow> []
     | Some a \<Rightarrow>
         (let text = role_label role @ '' instance override '' @ quoted inst in
          [check_entry (''role_instance_agent_valid:'' @ r_name role @ '':'' @ inst)
             (is_known_instance_override_backend a)
             (text @ '' agent '' @ quoted a @ '' is valid'')
             (text @ '' uses unknown agent '' @ quoted a)]))"

definition verbose_role :: "team_config \<Rightarrow> string list \<Rightarrow> role_def \<Rightarrow> validation_check list" where
  "verbose_role c seen role =
     [check_entry (''role_unique:'' @ r_name role) (r_name role \<notin> set seen)
        (role_label role @ '' is unique'') (''duplicate role name: '' @ quoted (r_name role)),
      check_entry (''role_agent:'' @ r_name role)
        (r_role_type role = User \<or> r_agent role \<noteq> None \<or> c_agent c \<noteq> None)
        (role_label role @ '' agent: '' @
           (case opt_or (r_agent role) (c_agent c) of Some a \<Rightarrow> a | None \<Rightarrow> ''(user)''))
        (role_label role @ '' has no agent'')]
     @ (case r_agent role of
          None \<Rightarrow> []
        | Some a \<Rightarrow>
            [check_entry (''role_agent_valid:'' @ r_name role) (adapter_known a)
               (role_label role @ '' agent '' @ quoted a @ '' is valid'')
               (role_label role @ '' uses unknown agent '' @ quoted a)])
     @ concat (map (verbose_override role) (r_instance_overrides role))
     @ [(let text = role_label role @ '' instances: '' @ show_nat (r_instances role) in
         check_entry (''role_instances:'' @ r_name role) (0 < r_instances role) text text)]"

fun verbose_roles :: "team_config \<Rightarrow> string list \<Rightarrow> role_def list \<Rightarrow> validation_check list" where
  "verbose_roles c seen [] = []"
| "verbose_roles c seen (role # roles) = verbose_role c seen role @ verbose_roles c (r_name role # seen) roles"

definition verbose_talks_to :: "team_config \<Rightarrow> role_def \<Rightarrow> validation_check list" where
  "verbose_talks_to c role = map (\<lambda>target.
     check_entry (''talks_to:'' @ r_name role @ arrow @ target) (target \<in> set (role_names c))
       (role_label role @ '' '' @ arrow @ '' '' @ quoted target @ '' is valid'')
       (role_label role @ '' references unknown role '' @ quoted target @ '' in talks_to'')) (r_talks_to role)"

fun fresh_agents :: "team_config \<Rightarrow> string list \<Rightarrow> role_def list \<Rightarrow> string list" where
  "fresh_agents c seen [] = []"
| "fresh_agents c seen (role # roles) =
     (case resolve_agent c role of
        None \<Rightarrow> fresh_agents c seen roles
      | Some a \<Rightarrow> if a \<in> set seen then fresh_agents c seen roles else a # fresh_agents c (a # seen) roles)"

definition backend_health_results :: "(string \<Rightarrow> backend_health) \<Rightarrow> team_config \<Rightarrow> (string \<times> backend_health) list" where
  "backend_health_results probe c = map (\<lambda>a.
     (a, case health_check_by_name probe a of Some h \<Rightarrow> h | None \<Rightarrow> Unreachable)) (fresh_agents c [] (c_roles c))"

definition health_warning :: "string \<Rightarrow> backend_health \<Rightarrow> string" where
  "health_warning a h = ''backend '' @ quoted a @ '' binary not found on PATH (status: '' @ health_name h @ '')''"

definition check_backend_health :: "(string \<Rightarrow> backend_health) \<Rightarrow> team_config \<Rightarrow> string list" where
  "check_backend_health probe c =
     map (\<lambda>(a, h). health_warning a h) (filter (\<lambda>(a, h). h \<noteq> Healthy) (backend_health_results probe c))"

text \<open>The checks one to seven, and the health warnings after them.\<close>

definition config_checks :: "team_config \<Rightarrow> validation_check list" where
  "config_checks c =
     [check_entry ''team_name'' (c_name c \<noteq> []) (''team name: '' @ quoted (c_name c)) ''team name is empty'',
      check_entry ''roles_present'' (c_roles c \<noteq> []) (show_nat (length (c_roles c)) @ '' role(s) defined'')
        ''no roles defined'']
     @ (if c_roles c = [] then []
        else
          [(case c_agent c of
              Some a \<Rightarrow> check_entry ''team_agent'' (adapter_known a) (''team agent: '' @ quoted a)
                          (''unknown team agent: '' @ quoted a)
            | None \<Rightarrow> check_entry ''team_agent'' True ''no team-level agent (roles must set their own)'' [])]
          @ verbose_roles c [] (c_roles c)
          @ concat (map (verbose_talks_to c) (c_roles c))
          @ (case c_automation_sender c of
               None \<Rightarrow> []
             | Some sender \<Rightarrow>
                 [check_entry ''automation_sender'' (sender \<in> set (role_names c) \<or> sender = ''human'')
                    (''automation_sender '' @ quoted sender @ '' is valid'')
                    (''automation_sender references unknown role '' @ quoted sender)])
          @ (case c_layout c of
               None \<Rightarrow> []
             | Some zones \<Rightarrow>
                 (let text = ''layout zones sum to '' @ show_nat (unat (total_width zones)) @ ''%'' in
                  [check_entry ''layout_zones'' (total_width zones \<le> 100) text (text @ '', exceeds 100%'')])))"

definition health_checks :: "(string \<Rightarrow> backend_health) \<Rightarrow> team_config \<Rightarrow> validation_check list" where
  "health_checks probe c =
     (if c_roles c = [] then []
      else map (\<lambda>(a, h). check_entry (''backend_health:'' @ a) (h = Healthy)
              (''backend '' @ quoted a @ '' is available'') (health_warning a h)) (backend_health_results probe c))"

definition validate_verbose :: "(string \<Rightarrow> backend_health) \<Rightarrow> team_config \<Rightarrow> validation_check list" where
  "validate_verbose probe c = config_checks c @ health_checks probe c"

subsection \<open>The trunk branch in the repository\<close>

datatype trunk_error = InspectFailed string | TrunkMissing string

text \<open>Git is a parameter: whether the directory is a repository, and for a reference whether it
  exists or the call fails.\<close>

definition validate_trunk_branch_exists :: "bool \<Rightarrow> (string \<Rightarrow> bool option) \<Rightarrow> string \<Rightarrow> trunk_error + unit" where
  "validate_trunk_branch_exists is_git_repo show_ref trunk =
     (if \<not> is_git_repo then Inr ()
      else
        (case show_ref (''refs/heads/'' @ trunk) of
           None \<Rightarrow> Inl (InspectFailed trunk)
         | Some here \<Rightarrow>
             (case show_ref (''refs/remotes/origin/'' @ trunk) of
                None \<Rightarrow> Inl (InspectFailed trunk)
              | Some there \<Rightarrow> if \<not> here \<and> \<not> there then Inl (TrunkMissing trunk) else Inr ())))"

section \<open>What the validators accept\<close>

definition override_ok :: "string \<times> role_instance_override \<Rightarrow> bool" where
  "override_ok = (\<lambda>(inst, ov). \<forall>a. ov_agent ov = Some a \<longrightarrow> is_known_instance_override_backend a)"

text \<open>What both validators ask of a role, and what only \<open>validate\<close> asks.\<close>

definition role_ok :: "team_config \<Rightarrow> role_def \<Rightarrow> bool" where
  "role_ok c r \<longleftrightarrow>
     (r_role_type r = User \<or> r_agent r \<noteq> None \<or> c_agent c \<noteq> None)
     \<and> (\<forall>a. r_agent r = Some a \<longrightarrow> adapter_known a)
     \<and> (\<forall>ov \<in> set (r_instance_overrides r). override_ok ov)
     \<and> 0 < r_instances r"

definition role_unchecked_ok :: "team_config \<Rightarrow> role_def \<Rightarrow> bool" where
  "role_unchecked_ok c r \<longleftrightarrow>
     r_name r \<noteq> [] \<and> (r_role_type r = User \<longrightarrow> r_agent r = None)
     \<and> (r_auth_mode r \<noteq> None \<or> r_auth_env r \<noteq> [] \<longrightarrow> runs_claude c r)
     \<and> (r_auth_env r \<noteq> [] \<longrightarrow> r_auth_mode r = Some Custom)
     \<and> (\<forall>e \<in> set (r_auth_env r). is_valid_env_name e)"

definition clean_room_ok :: "team_config \<Rightarrow> bool" where
  "clean_room_ok c \<longleftrightarrow>
     (let p = c_workflow_policy c in clean_room_mode p \<longrightarrow>
        (\<exists>ch \<in> set (handoff_directory p). \<not> is_ws ch)
        \<and> (\<forall>(g, roles) \<in> set (barrier_groups p). (\<exists>ch \<in> set g. \<not> is_ws ch) \<and> set roles \<subseteq> set (role_names c))
        \<and> (\<forall>r \<in> set (c_roles c). \<forall>g. r_barrier_group r = Some g \<longrightarrow>
             barrier_groups p = [] \<or> g \<in> fst ` set (barrier_groups p)))"

definition config_ok :: "team_config \<Rightarrow> bool" where
  "config_ok c \<longleftrightarrow>
     c_name c \<noteq> [] \<and> c_roles c \<noteq> [] \<and> (\<forall>a. c_agent c = Some a \<longrightarrow> adapter_known a)
     \<and> distinct (role_names c) \<and> (\<forall>r \<in> set (c_roles c). role_ok c r)
     \<and> (\<forall>r \<in> set (c_roles c). set (r_talks_to r) \<subseteq> set (role_names c))
     \<and> (\<forall>s. c_automation_sender c = Some s \<longrightarrow> s \<in> set (role_names c) \<or> s = ''human'')
     \<and> (\<forall>zones. c_layout c = Some zones \<longrightarrow> total_width zones \<le> 100)"

definition unchecked_ok :: "team_config \<Rightarrow> bool" where
  "unchecked_ok c \<longleftrightarrow>
     c_trunk_branch c \<noteq> [] \<and> (\<forall>ch \<in> set (c_trunk_branch c). \<not> is_ws ch)
     \<and> (\<forall>r \<in> set (c_roles c). role_unchecked_ok c r) \<and> clean_room_ok c"

lemma check_entry_passed [simp]: "k_passed (check_entry name ok good bad) = ok"
  by (simp add: check_entry_def)

lemma all_concat_map [simp]: "list_all P (concat (map f xs)) \<longleftrightarrow> (\<forall>x \<in> set xs. list_all P (f x))"
  by (auto simp: list_all_iff)

lemma and_then_ok [simp]: "and_then a b = Inr () \<longleftrightarrow> a = Inr () \<and> b = Inr ()"
  by (cases a) (auto simp: and_then_def)

lemma ensure_that_ok [simp]: "ensure_that P e = Inr () \<longleftrightarrow> P"
  by (simp add: ensure_that_def)

lemma check_all_ok [simp]: "check_all f xs = Inr () \<longleftrightarrow> (\<forall>x \<in> set xs. f x = Inr ())"
  by (induction xs) auto

lemma trim_eq_Nil [simp]: "trim s = [] \<longleftrightarrow> (\<forall>ch \<in> set s. is_ws ch)"
proof -
  have "(\<forall>ch \<in> set (dropWhile is_ws s). is_ws ch) \<longleftrightarrow> (\<forall>ch \<in> set s. is_ws ch)"
    by (induction s) auto
  then show ?thesis by (simp add: trim_by_def trim_end_by_def trim_start_by_def)
qed

lemma check_override_ok: "check_override role ov = Inr () \<longleftrightarrow> override_ok ov"
  by (cases ov) (auto simp: check_override_def override_ok_def split: option.splits)

lemma check_role_ok:
  "check_role c seen r = Inr () \<longleftrightarrow> r_name r \<notin> set seen \<and> role_ok c r \<and> role_unchecked_ok c r"
  by (auto simp: check_role_def role_ok_def role_unchecked_ok_def check_override_ok split: option.splits)

lemma check_roles_ok:
  "check_roles c seen roles = Inr () \<longleftrightarrow>
     distinct (map r_name roles) \<and> set (map r_name roles) \<inter> set seen = {}
     \<and> (\<forall>r \<in> set roles. role_ok c r \<and> role_unchecked_ok c r)"
  by (induction roles arbitrary: seen) (auto simp: check_role_ok)

lemma check_clean_room_ok: "check_clean_room c = Inr () \<longleftrightarrow> clean_room_ok c"
  by (fastforce simp: check_clean_room_def clean_room_ok_def Let_def split: option.splits)

lemma opt_check_ok [simp]:
  "(case v of None \<Rightarrow> Inr () | Some a \<Rightarrow> ensure_that (P a) (e a)) = Inr () \<longleftrightarrow> (\<forall>a. v = Some a \<longrightarrow> P a)"
  by (cases v) auto

lemma talks_to_ok [simp]:
  "(\<forall>t \<in> set (r_talks_to r). t \<in> set names) \<longleftrightarrow> set (r_talks_to r) \<subseteq> set names"
  by auto

lemma trunk_ok: "\<not> Ball (set s) is_ws \<and> \<not> list_ex is_ws s \<longleftrightarrow> s \<noteq> [] \<and> (\<forall>ch \<in> set s. \<not> is_ws ch)"
  by (cases s) (auto simp: list_ex_iff)

lemma validate_iff: "validate c = Inr () \<longleftrightarrow> config_ok c \<and> unchecked_ok c"
proof -
  have roles: "check_roles c [] (c_roles c) = Inr () \<longleftrightarrow>
      distinct (role_names c) \<and> (\<forall>r \<in> set (c_roles c). role_ok c r) \<and> (\<forall>r \<in> set (c_roles c). role_unchecked_ok c r)"
    by (auto simp: check_roles_ok role_names_def)
  show ?thesis
    unfolding validate_def config_ok_def unchecked_ok_def and_then_ok roles check_clean_room_ok ensure_that_ok
      opt_check_ok check_all_ok talks_to_ok trim_eq_Nil not_less
    using trunk_ok [of "c_trunk_branch c"] by argo
qed

lemma verbose_override_ok [simp]: "list_all k_passed (verbose_override r ov) \<longleftrightarrow> override_ok ov"
  by (cases ov) (auto simp: verbose_override_def override_ok_def Let_def split: option.splits)

lemma verbose_role_ok: "list_all k_passed (verbose_role c seen r) \<longleftrightarrow> r_name r \<notin> set seen \<and> role_ok c r"
  by (auto simp: verbose_role_def role_ok_def Let_def split: option.splits)

lemma verbose_roles_ok:
  "list_all k_passed (verbose_roles c seen roles) \<longleftrightarrow>
     distinct (map r_name roles) \<and> set (map r_name roles) \<inter> set seen = {} \<and> (\<forall>r \<in> set roles. role_ok c r)"
  by (induction roles arbitrary: seen) (auto simp: verbose_role_ok)

lemma verbose_talks_to_ok: "list_all k_passed (verbose_talks_to c r) \<longleftrightarrow> set (r_talks_to r) \<subseteq> set (role_names c)"
  by (auto simp: verbose_talks_to_def list_all_iff)

lemma config_checks_iff: "list_all k_passed (config_checks c) \<longleftrightarrow> config_ok c"
  by (auto simp: config_checks_def config_ok_def verbose_roles_ok verbose_talks_to_ok role_names_def Let_def
      split: option.splits)

text \<open>The health checks can be told from the others by their names.\<close>

lemma starts_with_Cons [simp]: "starts_with (a # p) (b # s) \<longleftrightarrow> a = b \<and> starts_with p s"
  by (simp add: starts_with_def)

lemma starts_with_Nil [simp]: "starts_with [] s" and starts_with_end [simp]: "\<not> starts_with (a # p) []"
  by (simp_all add: starts_with_def)

lemma check_entry_name [simp]: "k_name (check_entry name ok good bad) = name"
  by (simp add: check_entry_def)

abbreviation other_check :: "validation_check \<Rightarrow> bool" where
  "other_check k \<equiv> \<not> starts_with ''backend_health:'' (k_name k)"

lemma verbose_override_names [simp]: "list_all other_check (verbose_override r ov)"
  by (cases ov) (simp add: verbose_override_def Let_def split: option.split)

lemma verbose_role_names [simp]: "list_all other_check (verbose_role c seen r)"
  by (simp add: verbose_role_def Let_def split: option.split)

lemma verbose_roles_names [simp]: "list_all other_check (verbose_roles c seen roles)"
  by (induction roles arbitrary: seen) simp_all

lemma verbose_talks_to_names [simp]: "list_all other_check (verbose_talks_to c r)"
  by (simp add: verbose_talks_to_def list_all_iff)

lemma config_check_names: "list_all other_check (config_checks c)"
  by (simp add: config_checks_def Let_def split: option.split)

lemma health_check_names: "k \<in> set (health_checks probe c) \<Longrightarrow> starts_with ''backend_health:'' (k_name k)"
  by (auto simp: health_checks_def split: if_splits)

section \<open>Properties\<close>

text \<open>
  C24. The two validators agree on what both look at: a configuration passes \<open>validate\<close> exactly
  when all checks of the verbose validator but the backend health pass and the settings the
  verbose validator never looks at are right (trunk branch, empty role names, users with an
  agent, Claude authentication, clean-room groups).
\<close>

theorem validators_agree:
  "validate c = Inr () \<longleftrightarrow>
     list_all k_passed (filter (\<lambda>k. \<not> starts_with ''backend_health:'' (k_name k)) (validate_verbose probe c))
     \<and> unchecked_ok c"
  by (simp add: validate_verbose_def validate_iff config_checks_iff
      filter_empty_conv [THEN iffD2] filter_id_conv [THEN iffD2] config_check_names [unfolded list_all_iff] health_check_names)

text \<open>
  In a validated configuration messages have a receiver: if a role of the team may talk to
  another name then that name is a role of the team, and without a list of its own the two
  roles are neighbours in the hierarchy, so that the permission is mutual by default.
\<close>

theorem valid_can_talk:
  assumes "validate c = Inr ()" and "find_role c a = Some ra" and "can_talk c a b"
    and "a \<notin> {''human'', ''daemon''} \<union> set (c_external_senders c)"
  shows "\<exists>rb. find_role c b = Some rb
    \<and> (r_talks_to ra = [] \<and> r_talks_to rb = [] \<longrightarrow>
         default_hierarchy (r_role_type ra) (r_role_type rb) \<and> can_talk c b a)"
proof -
  from assms(1) have ok: "config_ok c" by (simp add: validate_iff)
  from assms(2) have ra: "ra \<in> set (c_roles c)" "r_name ra = a"
    by (auto simp: find_role_def dest!: find_Some_in)
  have "b \<in> set (role_names c)"
  proof (cases "r_talks_to ra = []")
    case False
    with assms ok ra show ?thesis by (auto simp: can_talk_def config_ok_def list_ex_iff split: if_splits)
  next
    case True
    with assms obtain rb where "find_role c b = Some rb"
      by (auto simp: can_talk_def list_ex_iff split: if_splits option.splits)
    then show ?thesis by (auto simp: find_role_def role_names_def dest!: find_Some_in)
  qed
  then obtain rb where rb: "find_role c b = Some rb"
    unfolding find_role_def role_names_def by (metis (mono_tags) find_Some_iff_ex imageE list.set_map)
  moreover have "default_hierarchy (r_role_type ra) (r_role_type rb) \<and> can_talk c b a"
    if "r_talks_to ra = []" "r_talks_to rb = []"
  proof -
    from that rb assms have "default_hierarchy (r_role_type ra) (r_role_type rb)"
      by (auto simp: can_talk_def list_ex_iff split: if_splits)
    moreover from this have "default_hierarchy (r_role_type rb) (r_role_type ra)"
      by (auto simp: default_hierarchy_def)
    ultimately show ?thesis using that rb assms(2) by (auto simp: can_talk_def)
  qed
  ultimately show ?thesis by blast
qed

section \<open>A sample team\<close>

definition sample_policy :: workflow_policy where
  "sample_policy = \<lparr> clean_room_mode = False, barrier_groups = [], handoff_directory = ''handoff'',
     wip_limit_per_engineer = Some 1, wip_limit_per_reviewer = None,
     pipeline_starvation_threshold = Some 1, escalation_threshold_secs = 3600,
     review_nudge_threshold_secs = 1800, review_timeout_secs = 7200, stale_in_progress_hours = 4,
     aged_todo_hours = 48, stale_review_hours = 1,
     review_timeout_overrides = [(''critical'', \<lparr> o_review_nudge_threshold_secs = Some 300,
       o_review_timeout_secs = None \<rparr>)] \<rparr>"

definition sample_config :: team_config where
  "sample_config = \<lparr> c_name = ''demo'', c_trunk_branch = ''main'', c_agent = Some ''claude'',
     c_workflow_mode = Hybrid, c_automation_sender = Some ''human'', c_external_senders = [''bridge''],
     c_orchestrator_pane = True, c_layout = None, c_workflow_policy = sample_policy,
     c_roles = [default_role\<lparr>r_name := ''human'', r_role_type := User\<rparr>,
       default_role\<lparr>r_name := ''architect'', r_role_type := Architect\<rparr>,
       default_role\<lparr>r_name := ''manager'', r_role_type := Manager, r_instances := 2\<rparr>,
       default_role\<lparr>r_name := ''engineer'', r_instances := 3, r_agent := Some ''codex'',
         r_talks_to := [''manager'']\<rparr>] \<rparr>"

lemma sample_config_valid: "validate sample_config = Inr ()"
  by code_simp

theorem valid_can_talk_witness:
  "can_talk sample_config ''manager'' ''architect''"
proof -
  have a: "find_role sample_config ''architect'' = Some (default_role\<lparr>r_name := ''architect'', r_role_type := Architect\<rparr>)"
    by (simp add: find_role_def sample_config_def default_role_def)
  have t: "can_talk sample_config ''architect'' ''manager''" by code_simp
  have n: "''architect'' \<notin> {''human'', ''daemon''} \<union> set (c_external_senders sample_config)" by code_simp
  from valid_can_talk [OF sample_config_valid a t n] obtain rb where
    "find_role sample_config ''manager'' = Some rb"
    "r_talks_to rb = [] \<Longrightarrow> can_talk sample_config ''manager'' ''architect''"
    by (auto simp: default_role_def)
  moreover have "find_role sample_config ''manager''
      = Some (default_role\<lparr>r_name := ''manager'', r_role_type := Manager, r_instances := 2\<rparr>)"
    by (simp add: find_role_def sample_config_def default_role_def)
  ultimately show ?thesis by (auto simp: default_role_def)
qed

text \<open>The widths are added as 32-bit numbers, so two absurd zones pass the check of one hundred
  percent when the sum wraps around.\<close>

lemma wrapped_layout_accepted:
  "validate (sample_config\<lparr>c_layout := Some [\<lparr> z_name = ''a'', z_width_pct = 4294967295, z_split_horizontal = None \<rparr>,
     \<lparr> z_name = ''b'', z_width_pct = 2, z_split_horizontal = None \<rparr>]\<rparr>) = Inr ()"
  using sample_config_valid
  by (simp add: validate_iff config_ok_def unchecked_ok_def role_names_def role_ok_def role_unchecked_ok_def
      clean_room_ok_def runs_claude_def total_width_def)

end
