(* ===== verification/Hierarchy.thy ===== *)
theory Hierarchy
  imports Team_Config
begin

text \<open>
  The team hierarchy (\<open>src/team/hierarchy.rs\<close>): from the roles of the configuration to the flat
  list of member instances, with the names, the partition of the engineers over the compatible
  managers and the member each reports to.
\<close>

section \<open>Members\<close>

record member_instance =
  m_name :: string
  m_role_name :: string
  m_role_type :: role_type
  m_agent :: "string option"
  m_model :: "string option"
  m_prompt :: "string option"
  m_posture :: "string option"
  m_model_class :: "string option"
  m_provider_overlay :: "string option"
  m_reports_to :: "string option"
  m_use_worktrees :: bool

definition default_member :: member_instance where
  "default_member = \<lparr> m_name = [], m_role_name = [], m_role_type = Engineer, m_agent = None,
     m_model = None, m_prompt = None, m_posture = None, m_model_class = None,
     m_provider_overlay = None, m_reports_to = None, m_use_worktrees = False \<rparr>"

definition override_field ::
  "(role_instance_override \<Rightarrow> string option) \<Rightarrow> role_def \<Rightarrow> string \<Rightarrow> string option \<Rightarrow> string option" where
  "override_field sel role name fallback =
     opt_or (Option.bind (map_of (r_instance_overrides role) name) sel) fallback"

definition resolved_member_agent :: "role_def \<Rightarrow> string \<Rightarrow> string option \<Rightarrow> string option" where
  "resolved_member_agent role name agent = override_field ov_agent role name agent"
definition resolved_member_model :: "role_def \<Rightarrow> string \<Rightarrow> string option" where
  "resolved_member_model role name = override_field ov_model role name (r_model role)"
definition resolved_member_prompt :: "role_def \<Rightarrow> string \<Rightarrow> string option" where
  "resolved_member_prompt role name = override_field ov_prompt role name (r_prompt role)"
definition resolved_member_posture :: "role_def \<Rightarrow> string \<Rightarrow> string option" where
  "resolved_member_posture role name = override_field ov_posture role name (r_posture role)"
definition resolved_member_model_class :: "role_def \<Rightarrow> string \<Rightarrow> string option" where
  "resolved_member_model_class role name = override_field ov_model_class role name (r_model_class role)"
definition resolved_member_provider_overlay :: "role_def \<Rightarrow> string \<Rightarrow> string option" where
  "resolved_member_provider_overlay role name = override_field ov_provider_overlay role name (r_provider_overlay role)"

definition engineer_instance_name :: "string \<Rightarrow> bool \<Rightarrow> nat \<Rightarrow> nat \<Rightarrow> string" where
  "engineer_instance_name role_name multiple manager_index engineer_index =
     (if \<not> multiple \<and> role_name = ''engineer''
      then ''eng-'' @ show_nat manager_index @ ''-'' @ show_nat engineer_index
      else role_name @ ''-'' @ show_nat manager_index @ ''-'' @ show_nat engineer_index)"

section \<open>The phases\<close>

definition instance_name :: "role_def \<Rightarrow> nat \<Rightarrow> string" where
  "instance_name role i = (if r_instances role = 1 then r_name role else r_name role @ ''-'' @ show_nat i)"

definition new_member :: "team_config \<Rightarrow> role_def \<Rightarrow> role_type \<Rightarrow> string \<Rightarrow> string option \<Rightarrow> member_instance" where
  "new_member c role ty name reports = \<lparr> m_name = name, m_role_name = r_name role, m_role_type = ty,
     m_agent = resolved_member_agent role name (resolve_agent c role),
     m_model = resolved_member_model role name, m_prompt = resolved_member_prompt role name,
     m_posture = resolved_member_posture role name, m_model_class = resolved_member_model_class role name,
     m_provider_overlay = resolved_member_provider_overlay role name, m_reports_to = reports,
     m_use_worktrees = r_use_worktrees role \<rparr>"

definition roles_of :: "team_config \<Rightarrow> role_type \<Rightarrow> role_def list" where
  "roles_of c ty = filter (\<lambda>r. r_role_type r = ty) (c_roles c)"

definition user_members :: "team_config \<Rightarrow> member_instance list" where
  "user_members c = map (\<lambda>role. default_member\<lparr>m_name := r_name role, m_role_name := r_name role,
     m_role_type := User\<rparr>) (roles_of c User)"

text \<open>The instances of a role outside the partition, numbered from one.\<close>

definition numbered :: "team_config \<Rightarrow> role_type \<Rightarrow> string option \<Rightarrow> role_def \<Rightarrow> member_instance list" where
  "numbered c ty reports role =
     map (\<lambda>i. new_member c role ty (instance_name role i) reports) [1..<Suc (r_instances role)]"

definition architect_members :: "team_config \<Rightarrow> member_instance list" where
  "architect_members c = concat (map (numbered c Architect None) (roles_of c Architect))"

definition first_architect :: "team_config \<Rightarrow> string option" where
  "first_architect c =
     map_option (\<lambda>a. instance_name a 1) (find (\<lambda>r. r_role_type r = Architect) (c_roles c))"

definition manager_members :: "team_config \<Rightarrow> member_instance list" where
  "manager_members c = concat (map (numbered c Manager (first_architect c)) (roles_of c Manager))"

text \<open>The instance names of the managers with the names of their roles.\<close>

definition manager_instances :: "team_config \<Rightarrow> (string \<times> string) list" where
  "manager_instances c = concat (map (\<lambda>role.
     map (\<lambda>i. (instance_name role i, r_name role)) [1..<Suc (r_instances role)]) (roles_of c Manager))"

definition compatible_managers :: "team_config \<Rightarrow> role_def \<Rightarrow> (string \<times> string) list" where
  "compatible_managers c role =
     (if manager_instances c = [] then []
      else if r_talks_to role = [] then manager_instances c
      else filter (\<lambda>(member_name, role_name).
             list_ex (\<lambda>target. target = role_name \<or> target = member_name) (r_talks_to role)) (manager_instances c))"

definition engineer_members :: "team_config \<Rightarrow> role_def \<Rightarrow> member_instance list" where
  "engineer_members c role =
     (let managers = compatible_managers c role in
      if managers = [] then numbered c Engineer None role
      else concat (map (\<lambda>(mgr_idx, mgr_name, _).
             map (\<lambda>eng_idx. new_member c role Engineer
                    (engineer_instance_name (r_name role) (1 < length (roles_of c Engineer)) (Suc mgr_idx) eng_idx)
                    (Some mgr_name)) [1..<Suc (r_instances role)])
             (List.enumerate 0 managers)))"

definition all_members :: "team_config \<Rightarrow> member_instance list" where
  "all_members c = user_members c @ architect_members c @ manager_members c
     @ concat (map (engineer_members c) (roles_of c Engineer))"

definition pane_count :: "member_instance list \<Rightarrow> nat" where
  "pane_count members = length (filter (\<lambda>m. m_role_type m \<noteq> User) members)"

datatype hierarchy_error = NoAgentMembers

definition resolve_hierarchy :: "team_config \<Rightarrow> hierarchy_error + member_instance list" where
  "resolve_hierarchy c =
     (if pane_count (all_members c) = 0 then Inl NoAgentMembers else Inr (all_members c))"

section \<open>Names\<close>

abbreviation dash_free :: "string \<Rightarrow> bool" where
  "dash_free s \<equiv> CHR ''-'' \<notin> set s"

definition name_parts :: "string \<Rightarrow> string list" where
  "name_parts s = split_by (\<lambda>ch. ch = CHR ''-'') s"

lemma parts_base [simp]: "dash_free a \<Longrightarrow> name_parts a = [a]"
  by (auto simp: name_parts_def intro!: split_by_free)

lemma parts_dash: "dash_free a \<Longrightarrow> name_parts (a @ ''-'' @ s) = a # name_parts s"
  by (auto simp: name_parts_def intro!: split_by_first)

lemma show_nat_dash_free [simp]: "dash_free (show_nat n)"
proof
  assume "CHR ''-'' \<in> set (show_nat n)"
  from show_nat_digits [OF this] show False by (simp add: is_digit_def digits_def)
qed

lemma parts_instance: "dash_free (r_name role) \<Longrightarrow>
    name_parts (instance_name role i) = (if r_instances role = 1 then [r_name role] else [r_name role, show_nat i])"
  using parts_dash [of "r_name role" "show_nat i"] by (simp add: instance_name_def)

lemma parts_engineer: "dash_free name \<Longrightarrow>
    name_parts (engineer_instance_name name multiple i j) =
      [if \<not> multiple \<and> name = ''engineer'' then ''eng'' else name, show_nat i, show_nat j]"
  using parts_dash [of name "show_nat i @ ''-'' @ show_nat j"] parts_dash [of "show_nat i" "show_nat j"]
    parts_dash [of "''eng''" "show_nat i @ ''-'' @ show_nat j"]
  by (auto simp: engineer_instance_name_def)

subsection \<open>One block per role\<close>

definition block :: "team_config \<Rightarrow> role_def \<Rightarrow> member_instance list" where
  "block c role = (case r_role_type role of
     User \<Rightarrow> [default_member\<lparr>m_name := r_name role, m_role_name := r_name role, m_role_type := User\<rparr>]
   | Architect \<Rightarrow> numbered c Architect None role
   | Manager \<Rightarrow> numbered c Manager (first_architect c) role
   | Engineer \<Rightarrow> engineer_members c role)"

definition role_order :: "team_config \<Rightarrow> role_def list" where
  "role_order c = roles_of c User @ roles_of c Architect @ roles_of c Manager @ roles_of c Engineer"

lemma roles_of_type [simp]: "r \<in> set (roles_of c ty) \<longleftrightarrow> r \<in> set (c_roles c) \<and> r_role_type r = ty"
  by (auto simp: roles_of_def)

lemma role_order_set [simp]: "set (role_order c) = set (c_roles c)"
proof -
  have "r_role_type r \<noteq> User \<Longrightarrow> r_role_type r \<noteq> Architect \<Longrightarrow> r_role_type r \<noteq> Engineer \<Longrightarrow> r_role_type r = Manager" for r
    by (cases "r_role_type r") auto
  then show ?thesis by (auto simp: role_order_def)
qed

lemma all_members_blocks: "all_members c = concat (map (block c) (role_order c))"
proof -
  have "map (block c) (roles_of c Architect) = map (numbered c Architect None) (roles_of c Architect)"
    "map (block c) (roles_of c Manager) = map (numbered c Manager (first_architect c)) (roles_of c Manager)"
    "map (block c) (roles_of c Engineer) = map (engineer_members c) (roles_of c Engineer)"
    by (auto simp: block_def)
  moreover have "concat (map (block c) (roles_of c User)) = user_members c"
  proof -
    have "concat (map (block c) rs) = map (\<lambda>role. default_member\<lparr>m_name := r_name role, m_role_name := r_name role,
        m_role_type := User\<rparr>) rs" if "\<forall>r \<in> set rs. r_role_type r = User" for rs
      using that by (induction rs) (auto simp: block_def)
    then show ?thesis by (simp add: user_members_def)
  qed
  ultimately show ?thesis
    by (simp only: all_members_def role_order_def architect_members_def manager_members_def map_append concat_append)
qed

lemma distinct_role_order:
  assumes "distinct (role_names c)"
  shows "distinct (map r_name (role_order c))"
proof -
  have d: "distinct (map r_name (roles_of c ty))" for ty
    using assms unfolding roles_of_def role_names_def by (rule distinct_map_filter_key)
  have apart: "set (map r_name (roles_of c a)) \<inter> set (map r_name (roles_of c b)) = {}" if "a \<noteq> b" for a b
    using assms that by (auto simp: role_names_def distinct_map dest: inj_onD)
  show ?thesis
    using d apart by (simp add: role_order_def Int_Un_distrib del: set_map)
qed

lemma distinct_blocks:
  assumes "distinct (map g xs)" and "\<And>x. x \<in> set xs \<Longrightarrow> distinct (f x)"
    and "\<And>x y. x \<in> set xs \<Longrightarrow> y \<in> set (f x) \<Longrightarrow> h y = g x"
  shows "distinct (concat (map f xs))"
  using assms
proof (induction xs)
  case (Cons x xs)
  have "set (f x) \<inter> set (concat (map f xs)) = {}"
  proof (rule ccontr)
    assume "set (f x) \<inter> set (concat (map f xs)) \<noteq> {}"
    then obtain y z where y: "y \<in> set (f x)" "z \<in> set xs" "y \<in> set (f z)" by auto
    with Cons.prems(3) [of x y] Cons.prems(3) [of z y] have "g x = g z" by simp
    with Cons.prems(1) y(2) show False by auto
  qed
  with Cons show ?case by simp
qed simp

definition sole_engineer :: "team_config \<Rightarrow> bool" where
  "sole_engineer c \<longleftrightarrow> map r_name (roles_of c Engineer) = [''engineer'']"

text \<open>The name of the role behind the parts of a member's name.\<close>

definition role_behind :: "team_config \<Rightarrow> string list \<Rightarrow> string" where
  "role_behind c parts = (if sole_engineer c \<and> length parts = 3 then ''engineer'' else hd parts)"

lemma numbered_parts:
  assumes "dash_free (r_name role)"
  shows "distinct (map (name_parts \<circ> m_name) (numbered c ty rep role))"
    and "p \<in> set (map (name_parts \<circ> m_name) (numbered c ty rep role)) \<Longrightarrow> role_behind c p = r_name role"
proof -
  show "distinct (map (name_parts \<circ> m_name) (numbered c ty rep role))"
  proof (cases "r_instances role = 1")
    case False
    then show ?thesis using assms
      by (auto simp: numbered_def new_member_def distinct_map parts_instance show_nat_inj inj_on_def)
  qed (simp add: numbered_def new_member_def)
  show "role_behind c p = r_name role" if "p \<in> set (map (name_parts \<circ> m_name) (numbered c ty rep role))"
    using that assms by (auto simp: numbered_def new_member_def parts_instance role_behind_def)
qed


lemma engineer_parts:
  assumes "dash_free (r_name role)" and "r_role_type role = Engineer" and "role \<in> set (c_roles c)"
  shows "distinct (map (name_parts \<circ> m_name) (engineer_members c role))"
    and "p \<in> set (map (name_parts \<circ> m_name) (engineer_members c role)) \<Longrightarrow> role_behind c p = r_name role"
proof -
  let ?ms = "compatible_managers c role" and ?multi = "1 < length (roles_of c Engineer)"
  have role: "role \<in> set (roles_of c Engineer)" using assms(2,3) by simp
  define base where "base = (if \<not> ?multi \<and> r_name role = ''engineer'' then ''eng'' else r_name role)"
  have parts: "name_parts (engineer_instance_name (r_name role) ?multi i j) = [base, show_nat i, show_nat j]" for i j
    using parts_engineer [OF assms(1)] by (simp add: base_def)
  have sole: "sole_engineer c \<longleftrightarrow> \<not> ?multi \<and> r_name role = ''engineer''"
    using role by (cases "roles_of c Engineer"; cases "tl (roles_of c Engineer)") (auto simp: sole_engineer_def)
  define row where "row = (\<lambda>x :: nat \<times> string \<times> string. map (\<lambda>j. [base, show_nat (Suc (fst x)), show_nat j]) [1..<Suc (r_instances role)])"
  have eq: "map (name_parts \<circ> m_name) (engineer_members c role) = concat (map row (List.enumerate 0 ?ms))"
    if "?ms \<noteq> []"
    using that parts by (simp add: engineer_members_def Let_def map_concat row_def new_member_def comp_def case_prod_beta)
  show "distinct (map (name_parts \<circ> m_name) (engineer_members c role))"
  proof (cases "?ms = []")
    case True
    then show ?thesis using numbered_parts(1) [OF assms(1)] by (simp add: engineer_members_def)
  next
    case False
    have "distinct (concat (map row (List.enumerate 0 ?ms)))"
    proof (rule distinct_blocks [where h = "\<lambda>p. p ! 1" and g = "\<lambda>x. show_nat (Suc (fst x))"])
      have "map (\<lambda>x. show_nat (Suc (fst x))) (List.enumerate 0 ?ms) = map (\<lambda>i. show_nat (Suc i)) [0..<length ?ms]"
        by (metis (no_types, lifting) comp_apply map_eq_conv map_fst_enumerate map_map plus_nat.add_0)
      then show "distinct (map (\<lambda>x. show_nat (Suc (fst x))) (List.enumerate 0 ?ms))"
        by (simp add: distinct_map inj_on_def show_nat_inj)
    qed (auto simp: row_def distinct_map inj_on_def show_nat_inj)
    with False eq show ?thesis by simp
  qed
  show "role_behind c p = r_name role" if p: "p \<in> set (map (name_parts \<circ> m_name) (engineer_members c role))"
  proof (cases "?ms = []")
    case True
    then show ?thesis using p numbered_parts(2) [OF assms(1)] by (simp add: engineer_members_def)
  next
    case False
    with p eq obtain i j where "p = [base, show_nat i, show_nat j]" by (auto simp: row_def)
    then show ?thesis by (simp add: role_behind_def sole base_def)
  qed
qed

lemma block_parts:
  assumes "dash_free (r_name role)" and "role \<in> set (c_roles c)"
  shows "distinct (map (name_parts \<circ> m_name) (block c role))"
    and "p \<in> set (map (name_parts \<circ> m_name) (block c role)) \<Longrightarrow> role_behind c p = r_name role"
  using assms numbered_parts [OF assms(1)] engineer_parts [OF assms(1) _ assms(2)]
  by (cases "r_role_type role"; simp add: block_def role_behind_def)+

lemma distinct_members:
  assumes "distinct (role_names c)" and "\<forall>r \<in> set (c_roles c). dash_free (r_name r)"
  shows "distinct (map m_name (all_members c))"
proof -
  have "distinct (concat (map (\<lambda>role. map (name_parts \<circ> m_name) (block c role)) (role_order c)))"
    using assms(2) block_parts [of _ c] distinct_role_order [OF assms(1)]
    by (intro distinct_blocks [where g = r_name and h = "role_behind c"]) (simp_all del: set_map)
  also have "concat (map (\<lambda>role. map (name_parts \<circ> m_name) (block c role)) (role_order c))
      = map name_parts (map m_name (all_members c))"
    by (simp add: all_members_blocks map_concat comp_def)
  finally show ?thesis by (simp only: distinct_map)
qed

section \<open>Who reports to whom\<close>

lemma numbered_member: "m \<in> set (numbered c ty rep role) \<longleftrightarrow>
    (\<exists>i. 1 \<le> i \<and> i \<le> r_instances role \<and> m = new_member c role ty (instance_name role i) rep)"
  by (auto simp: numbered_def image_iff intro!: bexI)

lemma manager_instance_member:
  assumes "(n, rn) \<in> set (manager_instances c)"
  shows "\<exists>m \<in> set (all_members c). m_name m = n \<and> m_role_type m = Manager \<and> m_role_name m = rn"
proof -
  from assms obtain role i where r: "role \<in> set (roles_of c Manager)" "i \<in> set [1..<Suc (r_instances role)]"
    "n = instance_name role i" "rn = r_name role" by (auto simp: manager_instances_def simp del: roles_of_type)
  let ?m = "new_member c role Manager n (first_architect c)"
  from r(2,3) have "?m \<in> set (numbered c Manager (first_architect c) role)" by (auto simp: numbered_member)
  with r(1) have "?m \<in> set (all_members c)" by (auto simp: all_members_def manager_members_def)
  then show ?thesis using r(4) by (intro bexI [of _ ?m]) (simp_all add: new_member_def)
qed

lemma compatible_sub: "set (compatible_managers c role) \<subseteq> set (manager_instances c)"
  by (auto simp: compatible_managers_def)

lemma first_architect_member:
  assumes "\<forall>r \<in> set (c_roles c). 0 < r_instances r" and "first_architect c = Some n"
  shows "\<exists>m \<in> set (all_members c). m_name m = n \<and> m_role_type m = Architect"
proof -
  from assms(2) obtain a where a: "find (\<lambda>r. r_role_type r = Architect) (c_roles c) = Some a" "n = instance_name a 1"
    by (auto simp: first_architect_def)
  then have "a \<in> set (roles_of c Architect)" by (auto dest!: find_Some_in)
  moreover from this assms(1) have "0 < r_instances a" by simp
  then have "new_member c a Architect n None \<in> set (numbered c Architect None a)"
    using a(2) by (auto simp: numbered_member)
  ultimately have "new_member c a Architect n None \<in> set (all_members c)"
    by (auto simp: all_members_def architect_members_def)
  then show ?thesis by (intro bexI [of _ "new_member c a Architect n None"]) (simp_all add: new_member_def)
qed

lemma engineer_member:
  assumes "m \<in> set (engineer_members c role)" and "compatible_managers c role \<noteq> []"
  shows "\<exists>n \<in> fst ` set (compatible_managers c role). \<exists>name. m = new_member c role Engineer name (Some n)"
proof -
  from assms obtain x name where x: "x \<in> set (List.enumerate 0 (compatible_managers c role))"
    "m = new_member c role Engineer name (Some (fst (snd x)))"
    by (auto simp: engineer_members_def Let_def case_prod_beta)
  from x(1) have "snd x \<in> set (compatible_managers c role)"
    by (metis map_snd_enumerate image_eqI list.set_map)
  with x(2) show ?thesis by blast
qed

lemma engineer_reports:
  assumes "m \<in> set (engineer_members c role)"
  shows "m_role_type m = Engineer \<and> m_role_name m = r_name role
    \<and> (case m_reports_to m of
         None \<Rightarrow> compatible_managers c role = []
       | Some n \<Rightarrow> n \<in> fst ` set (compatible_managers c role))"
proof (cases "compatible_managers c role = []")
  case True
  with assms show ?thesis by (auto simp: engineer_members_def numbered_member new_member_def)
next
  case False
  from engineer_member [OF assms this] obtain n name where
    "n \<in> fst ` set (compatible_managers c role)" "m = new_member c role Engineer name (Some n)" by blast
  then show ?thesis by (simp add: new_member_def)
qed

definition superior :: "role_type \<Rightarrow> role_type \<Rightarrow> bool" where
  "superior a b \<longleftrightarrow> (a, b) \<in> {(Manager, Architect), (Engineer, Manager)}"

lemma reports_member:
  assumes "\<forall>r \<in> set (c_roles c). 0 < r_instances r" and "m \<in> set (all_members c)" and "m_reports_to m = Some n"
  shows "\<exists>b \<in> set (all_members c). m_name b = n \<and> superior (m_role_type m) (m_role_type b)"
proof -
  from assms(2,3) consider "m \<in> set (manager_members c)" | role where "m \<in> set (engineer_members c role)"
    by (auto simp: all_members_def user_members_def architect_members_def numbered_def new_member_def default_member_def)
  then show ?thesis
  proof cases
    case 1
    with assms(3) have "m_role_type m = Manager" "first_architect c = Some n"
      by (auto simp: manager_members_def numbered_def new_member_def)
    with first_architect_member [OF assms(1)] show ?thesis by (auto simp: superior_def)
  next
    case 2
    from engineer_reports [OF this] assms(3) compatible_sub have "m_role_type m = Engineer"
      "n \<in> fst ` set (manager_instances c)" by force+
    with manager_instance_member [of n _ c] show ?thesis by (fastforce simp: superior_def)
  qed
qed

section \<open>The partition of the engineers\<close>


lemma block_role: "m \<in> set (block c role) \<Longrightarrow> m_role_name m = r_name role \<and> m_role_type m = r_role_type role"
  using engineer_reports [of m c role]
  by (cases "r_role_type role") (auto simp: block_def numbered_member new_member_def)





section \<open>Properties\<close>

text \<open>
  C30. The instance names of a validated team are unique when no role name contains a dash, over
  all phases and the renamed engineers of a sole engineer role included.
\<close>

theorem member_names_unique:
  assumes "validate c = Inr ()" and "\<forall>r \<in> set (c_roles c). dash_free (r_name r)"
    and "resolve_hierarchy c = Inr ms"
  shows "distinct (map m_name ms)"
proof -
  from assms(1) have "distinct (role_names c)" by (simp add: validate_iff config_ok_def)
  from distinct_members [OF this assms(2)] assms(3) show ?thesis
    by (simp add: resolve_hierarchy_def split: if_splits)
qed

text \<open>
  C31. The hierarchy of a validated team resolves exactly when it has a role that is not a user,
  and then every member that reports to a name reports to a member of the team one level up:
  managers to an architect, engineers to a manager; architects and users report to nobody.
\<close>

theorem hierarchy_resolves:
  assumes "validate c = Inr ()"
  shows "case resolve_hierarchy c of
      Inl e \<Rightarrow> \<forall>r \<in> set (c_roles c). r_role_type r = User
    | Inr ms \<Rightarrow> (\<exists>r \<in> set (c_roles c). r_role_type r \<noteq> User)
        \<and> (\<forall>m \<in> set ms. \<forall>n. m_reports_to m = Some n \<longrightarrow>
             (\<exists>b \<in> set ms. m_name b = n \<and> superior (m_role_type m) (m_role_type b)))"
proof -
  from assms have pos: "\<forall>r \<in> set (c_roles c). 0 < r_instances r"
    by (simp add: validate_iff config_ok_def role_ok_def)
  have "block c r \<noteq> []" if "r \<in> set (c_roles c)" for r
  proof -
    have "0 < r_instances r" using pos that by blast
    then have "numbered c ty rep r \<noteq> []" for ty rep by (simp add: numbered_def)
    moreover have "engineer_members c r \<noteq> []" if "compatible_managers c r \<noteq> []"
      using that \<open>0 < r_instances r\<close>
      by (cases "compatible_managers c r") (auto simp: engineer_members_def Let_def)
    moreover have "engineer_members c r = numbered c Engineer None r" if "compatible_managers c r = []"
      using that by (simp add: engineer_members_def)
    ultimately show ?thesis by (cases "r_role_type r"; cases "compatible_managers c r = []") (simp_all add: block_def)
  qed
  then have "(\<exists>m \<in> set (all_members c). m_role_type m \<noteq> User) \<longleftrightarrow> (\<exists>r \<in> set (c_roles c). r_role_type r \<noteq> User)"
    unfolding all_members_blocks
  proof (safe)
    fix m assume "m \<in> set (concat (map (block c) (role_order c)))" "m_role_type m \<noteq> User"
    then obtain r where "r \<in> set (c_roles c)" "m \<in> set (block c r)" by auto
    with block_role [of m c r] \<open>m_role_type m \<noteq> User\<close> show "\<exists>r \<in> set (c_roles c). r_role_type r \<noteq> User" by auto
  next
    fix r assume r: "r \<in> set (c_roles c)" "r_role_type r \<noteq> User" "\<And>r. r \<in> set (c_roles c) \<Longrightarrow> block c r \<noteq> []"
    from r(3) [OF r(1)] obtain m where "m \<in> set (block c r)" by (cases "block c r") auto
    moreover from this r(1) have "m \<in> set (concat (map (block c) (role_order c)))" by auto
    ultimately show "\<exists>m \<in> set (concat (map (block c) (role_order c))). m_role_type m \<noteq> User"
      using r(2) block_role [of m c r] by metis
  qed
  then show ?thesis
    using reports_member [OF pos] by (auto simp: resolve_hierarchy_def pane_count_def filter_empty_conv)
qed


section \<open>The sample team\<close>

definition sample_members :: "member_instance list" where
  "sample_members = all_members sample_config"

lemma sample_resolves: "resolve_hierarchy sample_config = Inr sample_members"
proof -
  have "pane_count (all_members sample_config) \<noteq> 0" by code_simp
  then show ?thesis by (simp add: resolve_hierarchy_def sample_members_def)
qed

lemma sample_names: "map m_name sample_members = [''human'', ''architect'', ''manager-1'', ''manager-2'', ''eng-1-1'',
    ''eng-1-2'', ''eng-1-3'', ''eng-2-1'', ''eng-2-2'', ''eng-2-3'']"
  by code_simp

lemma sample_length: "2 < length sample_members"
  by code_simp

lemma sample_dash_free: "\<forall>r \<in> set (c_roles sample_config). dash_free (r_name r)"
  by code_simp

theorem member_names_unique_witness:
  "distinct [''human'', ''architect'', ''manager-1'', ''manager-2'', ''eng-1-1'', ''eng-1-2'', ''eng-1-3'',
     ''eng-2-1'', ''eng-2-2'', ''eng-2-3'']"
  using member_names_unique [OF sample_config_valid sample_dash_free sample_resolves] unfolding sample_names .

theorem hierarchy_resolves_witness:
  "\<exists>b \<in> set sample_members. m_name b = ''architect'' \<and> superior Manager (m_role_type b)"
proof -
  define m where "m = sample_members ! 2"
  note len = sample_length
  have r: "m_reports_to m = Some ''architect''" "m_role_type m = Manager" unfolding m_def by code_simp+
  from hierarchy_resolves [OF sample_config_valid] have
    "\<forall>m \<in> set sample_members. \<forall>n. m_reports_to m = Some n \<longrightarrow>
       (\<exists>b \<in> set sample_members. m_name b = n \<and> superior (m_role_type m) (m_role_type b))"
    by (simp add: sample_resolves)
  with r len show ?thesis unfolding m_def by (metis nth_mem)
qed


subsection \<open>Where the documentation and the code part\<close>

text \<open>Names with dashes can collide: two instances of \<open>dev\<close> and a role \<open>dev-1\<close>.\<close>

definition colliding_config :: team_config where
  "colliding_config = sample_config\<lparr>c_roles := [default_role\<lparr>r_name := ''dev'', r_instances := 2\<rparr>,
     default_role\<lparr>r_name := ''dev-1''\<rparr>]\<rparr>"

lemma dashed_names_collide:
  "validate colliding_config = Inr () \<and> \<not> distinct (map m_name (all_members colliding_config))"
proof
  show "validate colliding_config = Inr ()" by code_simp
  show "\<not> distinct (map m_name (all_members colliding_config))" by code_simp
qed

text \<open>Engineers that may talk to the architect only are assigned to no manager, although the
  rule of the source text assigns a role without manager names to all managers.\<close>

lemma no_manager_named_no_manager:
  "list_all (\<lambda>m. m_reports_to m = None)
     (filter (\<lambda>m. m_role_type m = Engineer)
        (all_members (sample_config\<lparr>c_roles := map (\<lambda>r. if r_role_type r = Engineer
           then r\<lparr>r_talks_to := [''architect'']\<rparr> else r) (c_roles sample_config)\<rparr>)))"
  by code_simp

end
