(* ===== verification/Capability.thy ===== *)
theory Capability
  imports Hierarchy Ordered_Map
begin

text \<open>
  The capabilities of the members of a team (\<open>src/team/capability.rs\<close>): what each member may do in
  the workflow, derived from its role type, its place in the hierarchy and the other members.
\<close>

section \<open>Capabilities and their holders\<close>

datatype workflow_capability = Planner | Dispatcher | Executor | Reviewer | Orchestrator_Cap | Operator_Cap

datatype capability_subject = Member string | Orchestrator | Operator

text \<open>The derived orders: by the position of the constructor, then by the name.\<close>

definition capability_rank :: "workflow_capability \<Rightarrow> nat" where
  "capability_rank c = (case c of Planner \<Rightarrow> 0 | Dispatcher \<Rightarrow> 1 | Executor \<Rightarrow> 2 | Reviewer \<Rightarrow> 3
     | Orchestrator_Cap \<Rightarrow> 4 | Operator_Cap \<Rightarrow> 5)"

definition subject_rank :: "capability_subject \<Rightarrow> nat \<times> string" where
  "subject_rank s = (case s of Member n \<Rightarrow> (0, n) | Orchestrator \<Rightarrow> (1, []) | Operator \<Rightarrow> (2, []))"

lemma capability_rank_inj: "capability_rank a = capability_rank b \<longleftrightarrow> a = b"
  by (cases a; cases b) (simp_all add: capability_rank_def)

lemma subject_rank_inj: "subject_rank a = subject_rank b \<longleftrightarrow> a = b"
  by (cases a; cases b) (simp_all add: subject_rank_def)

instantiation workflow_capability :: linorder
begin

definition less_eq_workflow_capability :: "workflow_capability \<Rightarrow> workflow_capability \<Rightarrow> bool" where
  "less_eq_workflow_capability a b = (capability_rank a \<le> capability_rank b)"

definition less_workflow_capability :: "workflow_capability \<Rightarrow> workflow_capability \<Rightarrow> bool" where
  "less_workflow_capability a b = (capability_rank a < capability_rank b)"

instance
  by standard (auto simp: less_eq_workflow_capability_def less_workflow_capability_def capability_rank_inj
      intro: capability_rank_inj [THEN iffD1])

end

instantiation capability_subject :: linorder
begin

definition less_eq_capability_subject :: "capability_subject \<Rightarrow> capability_subject \<Rightarrow> bool" where
  "less_eq_capability_subject a b = (subject_rank a \<le> subject_rank b)"

definition less_capability_subject :: "capability_subject \<Rightarrow> capability_subject \<Rightarrow> bool" where
  "less_capability_subject a b = (subject_rank a < subject_rank b)"

instance
  by standard (auto simp: less_eq_capability_subject_def less_capability_subject_def
      intro: subject_rank_inj [THEN iffD1] order_antisym)

end

section \<open>Resolution\<close>

definition has_role_type :: "role_type \<Rightarrow> member_instance list \<Rightarrow> bool" where
  "has_role_type ty members = list_ex (\<lambda>m. m_role_type m = ty) members"

definition resolve_member_capabilities :: "member_instance \<Rightarrow> member_instance list \<Rightarrow> workflow_capability set" where
  "resolve_member_capabilities member members =
     (let has_architect = has_role_type Architect members; has_manager = has_role_type Manager members;
          is_top_level = (m_reports_to member = None) in
      case m_role_type member of
        User \<Rightarrow> {}
      | Architect \<Rightarrow> {Planner, Reviewer} \<union> (if \<not> has_manager then {Dispatcher} else {})
      | Manager \<Rightarrow> {Dispatcher, Reviewer} \<union> (if \<not> has_architect \<and> is_top_level then {Planner} else {})
      | Engineer \<Rightarrow> {Executor}
          \<union> (if \<not> has_architect \<and> \<not> has_manager \<and> is_top_level then {Planner, Dispatcher} else {}))"

definition has_agent_reviewer :: "member_instance list \<Rightarrow> bool" where
  "has_agent_reviewer members = list_ex (\<lambda>m.
     (m_role_type m = Architect \<or> m_role_type m = Manager)
     \<and> resolve_member_capabilities m members \<noteq> {} \<and> Reviewer \<in> resolve_member_capabilities m members) members"

type_synonym capability_map = "(capability_subject, workflow_capability set) btree_map"

definition insert_member :: "member_instance list \<Rightarrow> member_instance \<Rightarrow> capability_map \<Rightarrow> capability_map" where
  "insert_member members member m =
     (if m_role_type member = User then m
      else if resolve_member_capabilities member members = {} then m
      else bt_insert (Member (m_name member)) (resolve_member_capabilities member members) m)"

definition resolve_capability_map :: "member_instance list \<Rightarrow> capability_map" where
  "resolve_capability_map members =
     bt_insert Orchestrator {Orchestrator_Cap}
       (bt_insert Operator ({Operator_Cap} \<union> (if \<not> has_agent_reviewer members then {Reviewer} else {}))
         (fold (insert_member members) members []))"

section \<open>Lemmas\<close>

lemma capabilities_None [simp]: "resolve_member_capabilities m members = {} \<longleftrightarrow> m_role_type m = User"
  by (cases "m_role_type m") (auto simp: resolve_member_capabilities_def Let_def)

lemma insert_member_ordered: "bt_ordered m \<Longrightarrow> bt_ordered (fold (insert_member members) ms m)"
  by (induction ms arbitrary: m) (auto simp: insert_member_def bt_insert_ordered)

text \<open>With distinct names the map gives every member that is no user its own capabilities.\<close>

lemma insert_members_look:
  assumes "bt_ordered m" and "distinct (map m_name ms)"
  shows "map_of (fold (insert_member members) ms m) k =
    (case k of
       Member n \<Rightarrow> (case find (\<lambda>x. m_name x = n \<and> m_role_type x \<noteq> User) ms of
                      Some x \<Rightarrow> Some (resolve_member_capabilities x members) | None \<Rightarrow> map_of m k)
     | _ \<Rightarrow> map_of m k)"
  using assms
proof (induction ms arbitrary: m)
  case (Cons y ms)
  have "bt_ordered (insert_member members y m)"
    using insert_member_ordered [OF Cons.prems(1), of members "[y]"] by simp
  note ih = Cons.IH [OF this]
  have none: "find (\<lambda>x. m_name x = m_name y \<and> m_role_type x \<noteq> User) ms = None"
    using Cons.prems(2) by (simp add: find_None_all) (metis imageI)
  show ?case
    using ih Cons.prems none
    by (cases k; cases "find (\<lambda>x. m_name x = m_name y \<and> m_role_type x \<noteq> User) ms")
      (auto simp: insert_member_def bt_insert_look split: option.splits)
qed (simp split: capability_subject.splits)

lemma capability_map_look:
  assumes "distinct (map m_name members)"
  shows "map_of (resolve_capability_map members) k =
    (case k of
       Orchestrator \<Rightarrow> Some {Orchestrator_Cap}
     | Operator \<Rightarrow> Some ({Operator_Cap} \<union> (if \<not> has_agent_reviewer members then {Reviewer} else {}))
     | Member n \<Rightarrow> map_option (\<lambda>x. resolve_member_capabilities x members)
                     (find (\<lambda>x. m_name x = n \<and> m_role_type x \<noteq> User) members))"
proof -
  have o: "bt_ordered (fold (insert_member members) members [])" by (rule insert_member_ordered) simp
  show ?thesis
    unfolding resolve_capability_map_def bt_insert_look [OF bt_insert_ordered [OF o]] bt_insert_look [OF o]
    using insert_members_look [OF bt_ordered_Nil assms, of members k]
    by (simp split: capability_subject.splits option.splits)
qed

lemma member_entry:
  assumes "distinct (map m_name members)" and "x \<in> set members" and "m_role_type x \<noteq> User"
  shows "map_of (resolve_capability_map members) (Member (m_name x)) = Some (resolve_member_capabilities x members)"
proof -
  from assms(2,3) obtain y where y: "find (\<lambda>z. m_name z = m_name x \<and> m_role_type z \<noteq> User) members = Some y"
    using find_Some_iff_ex by (metis (mono_tags, lifting))
  then have "y \<in> set members" "m_name y = m_name x" by (auto dest: find_Some_in)
  with assms(1,2) have "y = x" by (auto simp: distinct_map dest: inj_onD)
  with y show ?thesis by (simp add: capability_map_look [OF assms(1)])
qed

lemma duty_held:
  assumes "validate c = Inr ()" and "resolve_hierarchy c = Inr ms" and "duty \<in> {Planner, Dispatcher}
      \<or> duty = Reviewer \<and> (has_role_type Architect ms \<or> has_role_type Manager ms)"
  shows "\<exists>x \<in> set ms. m_role_type x \<noteq> User \<and> duty \<in> resolve_member_capabilities x ms"
proof -
  from assms(2) have ms: "ms = all_members c" and agent: "\<exists>x \<in> set ms. m_role_type x \<noteq> User"
    by (auto simp: resolve_hierarchy_def pane_count_def filter_empty_conv split: if_splits)
  from assms(1) have pos: "\<forall>r \<in> set (c_roles c). 0 < r_instances r"
    by (simp add: validate_iff config_ok_def role_ok_def)
  have top: "m_reports_to x = None" if "x \<in> set ms" "\<not> (\<exists>b \<in> set ms. superior (m_role_type x) (m_role_type b))" for x
    using reports_member [OF pos, of x] that ms by (cases "m_reports_to x") auto
  have has: "has_role_type ty ms \<longleftrightarrow> (\<exists>x \<in> set ms. m_role_type x = ty)" for ty
    by (simp add: has_role_type_def list_ex_iff)
  consider a where "a \<in> set ms" "m_role_type a = Architect"
    | m where "\<not> has_role_type Architect ms" "m \<in> set ms" "m_role_type m = Manager"
    | e where "\<not> has_role_type Architect ms" "\<not> has_role_type Manager ms" "e \<in> set ms" "m_role_type e = Engineer"
    using agent has by (metis role_type.exhaust)
  then show ?thesis
  proof cases
    case 1
    show ?thesis
    proof (cases "has_role_type Manager ms")
      case True
      then obtain m where "m \<in> set ms" "m_role_type m = Manager" using has by auto
      show ?thesis
      proof (cases "duty = Dispatcher")
        case True
        with \<open>m \<in> set ms\<close> \<open>m_role_type m = Manager\<close> show ?thesis
          by (intro bexI [of _ m]) (auto simp: resolve_member_capabilities_def Let_def)
      next
        case False
        with 1 assms(3) show ?thesis
          by (intro bexI [of _ a]) (auto simp: resolve_member_capabilities_def Let_def)
      qed
    next
      case False
      with 1 assms(3) show ?thesis
        by (intro bexI [of _ a]) (auto simp: resolve_member_capabilities_def Let_def)
    qed
  next
    case 2
    have "m_reports_to m = None" using 2 has by (intro top) (auto simp: superior_def)
    with 2 assms(3) show ?thesis by (intro bexI [of _ m]) (auto simp: resolve_member_capabilities_def Let_def)
  next
    case 3
    have "m_reports_to e = None" using 3 has by (intro top) (auto simp: superior_def)
    with 3 assms(3) show ?thesis by (intro bexI [of _ e]) (auto simp: resolve_member_capabilities_def Let_def)
  qed
qed

lemma agent_reviewer_iff: "has_agent_reviewer ms \<longleftrightarrow> has_role_type Architect ms \<or> has_role_type Manager ms"
  by (auto simp: has_agent_reviewer_def has_role_type_def list_ex_iff resolve_member_capabilities_def Let_def)

lemma member_duties:
  "Orchestrator_Cap \<notin> resolve_member_capabilities x ms" "Operator_Cap \<notin> resolve_member_capabilities x ms"
  by (cases "m_role_type x"; simp add: resolve_member_capabilities_def Let_def)+

section \<open>Properties\<close>

text \<open>
  C33. In a team whose configuration validates and whose hierarchy resolves to members with distinct names,
  no duty of the workflow is left without a holder in the capability map: somebody plans, somebody dispatches,
  somebody reviews, and the two control-plane duties are held. The operator holds the review duty exactly when the team has neither
  an architect nor a manager. The control-plane duties belong to the orchestrator and to the operator alone, and
  planning, dispatching and executing to members of the team alone.
\<close>

theorem capabilities_covered:
  assumes "validate c = Inr ()" and "resolve_hierarchy c = Inr ms" and "distinct (map m_name ms)"
    and "duty \<in> {Planner, Dispatcher, Reviewer, Orchestrator_Cap, Operator_Cap}"
  shows "(\<exists>who caps. map_of (resolve_capability_map ms) who = Some caps \<and> duty \<in> caps)
    \<and> (\<exists>caps. map_of (resolve_capability_map ms) Operator = Some caps
         \<and> (Reviewer \<in> caps \<longleftrightarrow> \<not> has_role_type Architect ms \<and> \<not> has_role_type Manager ms))
    \<and> (\<forall>who caps. map_of (resolve_capability_map ms) who = Some caps \<longrightarrow>
         (Orchestrator_Cap \<in> caps \<longleftrightarrow> who = Orchestrator) \<and> (Operator_Cap \<in> caps \<longleftrightarrow> who = Operator)
         \<and> (caps \<inter> {Planner, Dispatcher, Executor} \<noteq> {} \<longrightarrow> (\<exists>n. who = Member n)))"
proof (intro conjI)
  note look = capability_map_look [OF assms(3)]
  show "\<exists>who caps. map_of (resolve_capability_map ms) who = Some caps \<and> duty \<in> caps"
  proof (cases "duty \<in> {Planner, Dispatcher} \<or> duty = Reviewer \<and> (has_role_type Architect ms \<or> has_role_type Manager ms)")
    case True
    from duty_held [OF assms(1,2) True] obtain x where
      x: "x \<in> set ms" "m_role_type x \<noteq> User" "duty \<in> resolve_member_capabilities x ms" by blast
    from member_entry [OF assms(3) x(1,2)] x(3) show ?thesis by blast
  next
    case False
    with assms(4) consider "duty = Orchestrator_Cap" | "duty = Operator_Cap \<or> duty = Reviewer" by auto
    then show ?thesis
    proof cases
      case 1
      then show ?thesis by (intro exI [of _ Orchestrator]) (simp add: look)
    next
      case 2
      with False assms(4) show ?thesis
        by (intro exI [of _ Operator]) (auto simp: look agent_reviewer_iff)
    qed
  qed
  show "\<exists>caps. map_of (resolve_capability_map ms) Operator = Some caps
      \<and> (Reviewer \<in> caps \<longleftrightarrow> \<not> has_role_type Architect ms \<and> \<not> has_role_type Manager ms)"
    by (auto simp: look agent_reviewer_iff)
  show "\<forall>who caps. map_of (resolve_capability_map ms) who = Some caps \<longrightarrow>
      (Orchestrator_Cap \<in> caps \<longleftrightarrow> who = Orchestrator) \<and> (Operator_Cap \<in> caps \<longleftrightarrow> who = Operator)
      \<and> (caps \<inter> {Planner, Dispatcher, Executor} \<noteq> {} \<longrightarrow> (\<exists>n. who = Member n))"
    using member_duties by (auto simp: look split: capability_subject.splits if_splits)
qed

theorem capabilities_covered_witness:
  "(\<exists>who caps. map_of (resolve_capability_map sample_members) who = Some caps \<and> Planner \<in> caps)
   \<and> has_role_type Manager sample_members
   \<and> (\<exists>caps. map_of (resolve_capability_map sample_members) Operator = Some caps \<and> Reviewer \<notin> caps)"
proof -
  have d: "distinct (map m_name sample_members)" unfolding sample_names by code_simp
  have m: "has_role_type Manager sample_members" by code_simp
  from capabilities_covered [OF sample_config_valid sample_resolves d, of Planner] m show ?thesis by auto
qed

end
