(* ===== verification/Body_Refs.thy ===== *)
theory Body_Refs
  imports Batty_Prelude
begin

text \<open>
  What the dispatcher reads from the prose of a task (\<open>src/team/dispatch/queue.rs\<close>): the role a
  routing cue names, the task ids of a \<open>Blocked on:\<close> or \<open>Depends on:\<close> line, and the tags seeded
  from an engineer's role name.
\<close>

section \<open>Seed tags\<close>

definition dash :: char where "dash = CHR ''-''"

definition role_name_seed_tags :: "string \<Rightarrow> string list" where
  "role_name_seed_tags role_name =
     (let suffix = last (split_by (\<lambda>ch. ch = dash) role_name) in
      if suffix = role_name \<or> suffix = [] then [role_name]
      else [role_name, suffix]
        @ (case strip_suffix ''er'' suffix of
             Some stem \<Rightarrow> if 3 \<le> length stem then [stem, stem @ ''ing''] else []
           | None \<Rightarrow> []))"

section \<open>The owner named by the body\<close>

definition non_role_hyphen_tokens :: "string list" where
  "non_role_hyphen_tokens = [''role-flexible'', ''strategic-analysis'', ''narrative-audit'', ''north-star'',
     ''any-engineer'']"

definition is_lower :: "char \<Rightarrow> bool" where
  "is_lower ch = (ch \<in> set lower_letters)"

definition token_char :: "char \<Rightarrow> bool" where
  "token_char ch = (is_lower ch \<or> ch = dash)"

definition is_role_token :: "string \<Rightarrow> bool" where
  "is_role_token token =
     (contains [dash] token \<and> \<not> starts_with [dash] token \<and> token \<notin> set non_role_hyphen_tokens)"

lemma dropWhile_length: "length (dropWhile P xs) \<le> length xs"
  by (induction xs) auto

function first_role_token_after :: "string \<Rightarrow> string option" where
  "first_role_token_after s =
     (case dropWhile (\<lambda>ch. \<not> is_lower ch) s of
        [] \<Rightarrow> None
      | first # more \<Rightarrow>
          (let token = trim_end_by (\<lambda>ch. ch = dash) (first # takeWhile token_char more) in
           if is_role_token token then Some token
           else first_role_token_after (dropWhile token_char more)))"
  by auto
termination
proof (relation "measure length")
  fix s first more x
  assume "dropWhile (\<lambda>ch. \<not> is_lower ch) s = first # more"
  then have "Suc (length more) \<le> length s"
    using dropWhile_length [of "\<lambda>ch. \<not> is_lower ch" s] by simp
  then show "(dropWhile token_char more, s) \<in> measure length"
    using dropWhile_length [of token_char more] by simp
qed simp

declare first_role_token_after.simps [simp del]

definition routing_cues :: "string list" where
  "routing_cues = [''Owner:'', ''OWNER:'', ''Route:'', ''Primary:'', ''Owner routing'', ''route to'',
     ''dispatch to'', ''assign to'']"

definition boundary_ok :: "string \<Rightarrow> bool" where
  "boundary_ok before =
     (before = [] \<or> is_ws (last before)
      \<or> last before \<in> {CHR ''-'', CHR ''*'', CHR ''_'', CHR ''('', CHR ''['', CHR ''.'', CHR '';'', CHR '':'', CHR '',''})"

lemma split_once_shorter: "split_once pat s = Some (a, b) \<Longrightarrow> pat \<noteq> [] \<Longrightarrow> length b < length s"
  by (cases pat) (auto dest!: split_once_append)

text \<open>The occurrences of one cue in a line: \<open>before\<close> is the text up to the search position. Every
  cue has a text, the first test only makes the definition total.\<close>

function search_cue :: "string \<Rightarrow> string \<Rightarrow> string \<Rightarrow> string option" where
  "search_cue cue before rest =
     (if cue = [] then None
      else
        (case split_once cue rest of
           None \<Rightarrow> None
         | Some (a, b) \<Rightarrow>
             (case (if boundary_ok (before @ a) then first_role_token_after b else None) of
                Some role \<Rightarrow> Some role
              | None \<Rightarrow> search_cue cue (before @ a @ cue) b)))"
  by auto
termination
  by (relation "measure (\<lambda>(cue, before, rest). length rest)") (auto simp: split_once_shorter)

declare search_cue.simps [simp del]

fun first_some :: "('a \<Rightarrow> 'b option) \<Rightarrow> 'a list \<Rightarrow> 'b option" where
  "first_some f [] = None"
| "first_some f (x # xs) = (case f x of Some y \<Rightarrow> Some y | None \<Rightarrow> first_some f xs)"

definition parse_body_owner_role :: "string \<Rightarrow> string option" where
  "parse_body_owner_role body =
     first_some (\<lambda>line. first_some (\<lambda>cue. search_cue cue [] line) routing_cues) (str_lines body)"

section \<open>Dependencies named by the body\<close>

definition body_dependency_reference :: "string \<Rightarrow> string option" where
  "body_dependency_reference line =
     (let trimmed = trim (trim_start_by (\<lambda>ch. ch = dash) (trim line)); lower = lowercase trimmed in
      if starts_with ''blocked on:'' lower \<or> starts_with ''depends on:'' lower then Some trimmed else None)"

definition reference_ids :: "string \<Rightarrow> nat list" where
  "reference_ids trimmed =
     List.map_filter (\<lambda>s. parse_u32 (takeWhile is_digit s)) (tl (split_by (\<lambda>ch. ch = CHR ''#'') trimmed))"

definition parse_body_dependency_ids :: "string \<Rightarrow> nat list option" where
  "parse_body_dependency_ids body =
     map_option reference_ids (first_some body_dependency_reference (str_lines body))"

section \<open>Lemmas\<close>

lemma first_some_Some: "first_some f xs = Some y \<Longrightarrow> \<exists>x \<in> set xs. f x = Some y"
  by (induction xs) (auto split: option.splits)

lemma first_some_skip: "(\<forall>x \<in> set as. f x = None) \<Longrightarrow> first_some f (as @ bs) = first_some f bs"
  by (induction as) auto

lemma first_some_None: "first_some f xs = None \<longleftrightarrow> (\<forall>x \<in> set xs. f x = None)"
  by (induction xs) (auto split: option.splits)

definition role_token :: "string \<Rightarrow> bool" where
  "role_token r \<longleftrightarrow> r \<noteq> [] \<and> (\<forall>ch \<in> set r. is_lower ch \<or> ch = CHR ''-'') \<and> is_lower (hd r) \<and> is_lower (last r)
     \<and> CHR ''-'' \<in> set r \<and> r \<notin> set non_role_hyphen_tokens"

definition occurs_in :: "string \<Rightarrow> string \<Rightarrow> bool" where
  "occurs_in r s \<longleftrightarrow> (\<exists>a b. s = a @ r @ b)"

lemma occurs_in_append: "occurs_in r s \<Longrightarrow> occurs_in r (a @ s @ b)"
  unfolding occurs_in_def by (metis append.assoc)

lemma trim_end_prefix: "\<exists>z. s = trim_end_by P s @ z \<and> (\<forall>ch \<in> set z. P ch)"
proof -
  have "rev s = takeWhile P (rev s) @ dropWhile P (rev s)" by simp
  then have "s = trim_end_by P s @ rev (takeWhile P (rev s))"
    by (metis rev_append rev_rev_ident trim_end_by_def)
  then show ?thesis by (intro exI [of _ "rev (takeWhile P (rev s))"]) (auto dest: set_takeWhileD)
qed

lemma trim_end_last: "trim_end_by P s \<noteq> [] \<Longrightarrow> \<not> P (last (trim_end_by P s))"
  unfolding trim_end_by_def by (metis hd_dropWhile last_rev rev.simps(1) rev_is_Nil_conv)

lemma token_wellformed:
  assumes "is_lower first" and "token = trim_end_by (\<lambda>ch. ch = dash) (first # takeWhile token_char more)"
    and "is_role_token token"
  shows "role_token token"
proof -
  let ?run = "first # takeWhile token_char more"
  from trim_end_prefix [of ?run "\<lambda>ch. ch = dash"] assms(2) obtain z where z: "?run = token @ z" by auto
  from assms(3) obtain a b where ab: "token = a @ [dash] @ b" by (auto simp: is_role_token_def contains_iff)
  then have ne: "token \<noteq> []" by simp
  have chars: "\<forall>ch \<in> set token. is_lower ch \<or> ch = dash"
  proof
    fix ch assume "ch \<in> set token"
    with z have "ch \<in> set ?run" by (metis Un_iff set_append)
    with assms(1) show "is_lower ch \<or> ch = dash" by (auto simp: token_char_def dest: set_takeWhileD)
  qed
  moreover have "hd token = first" using z ne by (cases token) auto
  moreover have "last token \<noteq> dash" using trim_end_last [of "\<lambda>ch. ch = dash" ?run] ne assms(2) by auto
  ultimately show ?thesis using assms(1,3) ne ab last_in_set [OF ne]
    by (auto simp: role_token_def is_role_token_def dash_def)
qed

lemma first_role_sound: "first_role_token_after s = Some r \<Longrightarrow> role_token r \<and> occurs_in r s"
proof (induction s rule: first_role_token_after.induct)
  case (1 s)
  show ?case
  proof (cases "dropWhile (\<lambda>ch. \<not> is_lower ch) s")
    case Nil
    with 1(2) show ?thesis by (simp add: first_role_token_after.simps)
  next
    case (Cons first more)
    let ?run = "first # takeWhile token_char more"
    let ?token = "trim_end_by (\<lambda>ch. ch = dash) ?run"
    have low: "is_lower first" using hd_dropWhile [of "\<lambda>ch. \<not> is_lower ch" s] Cons by auto
    have s: "s = takeWhile (\<lambda>ch. \<not> is_lower ch) s @ ?run @ dropWhile token_char more"
      by (metis Cons append_Cons takeWhile_dropWhile_id)
    show ?thesis
    proof (cases "is_role_token ?token")
      case True
      with 1(2) Cons have r: "r = ?token" by (subst (asm) first_role_token_after.simps) (simp add: Let_def)
      from trim_end_prefix [of ?run "\<lambda>ch. ch = dash"] obtain z where "?run = r @ z" using r by auto
      with s have "occurs_in r s" unfolding occurs_in_def by (metis append.assoc)
      with token_wellformed [OF low r] True r show ?thesis by simp
    next
      case False
      with 1(2) Cons have "first_role_token_after (dropWhile token_char more) = Some r"
        by (subst (asm) first_role_token_after.simps) (simp add: Let_def)
      with 1(1) [OF Cons refl False] have "role_token r" "occurs_in r (dropWhile token_char more)" by auto
      with s show ?thesis by (metis append.assoc append_Nil2 occurs_in_append)
    qed
  qed
qed

lemma search_cue_sound: "search_cue cue before rest = Some r \<Longrightarrow>
    role_token r \<and> (\<exists>a b. before @ rest = a @ cue @ b \<and> boundary_ok a \<and> occurs_in r b)"
proof (induction cue before rest rule: search_cue.induct)
  case (1 cue before rest)
  from 1(2) have ne: "cue \<noteq> []" by (subst (asm) search_cue.simps) (simp split: if_splits)
  from 1(2) ne obtain a b where sp: "split_once cue rest = Some (a, b)"
    by (subst (asm) search_cue.simps) (auto split: option.splits)
  then have eq: "before @ rest = (before @ a) @ cue @ b" by (simp add: split_once_append)
  show ?case
  proof (cases "if boundary_ok (before @ a) then first_role_token_after b else None")
    case (Some role)
    with 1(2) ne sp have "role = r" by (subst (asm) search_cue.simps) simp
    with Some eq first_role_sound [of b r] show ?thesis by (metis option.distinct(1))
  next
    case None
    with 1(2) ne sp have "search_cue cue (before @ a @ cue) b = Some r" by (subst (asm) search_cue.simps) simp
    with 1(1) [OF ne sp refl None] eq show ?thesis by (metis append.assoc)
  qed
qed

section \<open>The form of a dependency line\<close>

definition dependency_line :: "nat list \<Rightarrow> string" where
  "dependency_line ids = ''Blocked on: '' @ join '', '' (map (\<lambda>i. ''#'' @ show_nat i) ids)"

lemma ids_after_text:
  assumes "\<forall>i \<in> set ids. i < 2 ^ 32" and "CHR ''#'' \<notin> set pre"
  shows "reference_ids (pre @ join '', '' (map (\<lambda>i. ''#'' @ show_nat i) ids)) = ids"
  using assms
proof (induction ids arbitrary: pre)
  case Nil
  then have "split_by (\<lambda>ch. ch = CHR ''#'') pre = [pre]" by (intro split_by_free) auto
  then show ?case by (simp add: reference_ids_def List.map_filter_def)
next
  case (Cons i ids)
  let ?hash = "\<lambda>ch. ch = CHR ''#''" and ?refs = "\<lambda>ids. join '', '' (map (\<lambda>i. ''#'' @ show_nat i) ids)"
  let ?tail = "if ids = [] then [] else '', '' @ ?refs ids"
  have digits_free: "CHR ''#'' \<notin> set (show_nat i)"
    using show_nat_digits [of "CHR ''#''" i] by (auto simp: is_digit_def digits_def)
  have eq: "?refs (i # ids) = CHR ''#'' # show_nat i @ ?tail" by (cases ids) simp_all
  have free: "\<forall>ch \<in> set pre. \<not> ?hash ch" using Cons.prems(2) by auto
  have first: "split_by ?hash (pre @ ?refs (i # ids)) = pre # split_by ?hash (show_nat i @ ?tail)"
    unfolding eq by (rule split_by_first [OF free]) simp
  have word: "takeWhile is_digit (show_nat i @ r) = show_nat i" if "r = [] \<or> \<not> is_digit (hd r)" for r
    using that show_nat_digits [of _ i] by (cases r) (auto simp: takeWhile_append)
  have num: "parse_u32 (show_nat i) = Some i" using Cons.prems(1) by (intro parse_show_nat) simp
  show ?case
  proof (cases ids)
    case Nil
    have "\<forall>ch \<in> set (show_nat i). \<not> ?hash ch" using digits_free by auto
    then have "split_by ?hash (show_nat i @ ?tail) = [show_nat i]" using Nil by (simp add: split_by_free)
    moreover have "parse_u32 (takeWhile is_digit (show_nat i)) = Some i" using word [of "[]"] num by (metis append_Nil2)
    ultimately show ?thesis using first Nil by (simp add: reference_ids_def List.map_filter_def)
  next
    case (Cons j js)
    let ?mid = "show_nat i @ '', ''"
    have mid_free: "\<forall>ch \<in> set ?mid. \<not> ?hash ch" using digits_free by auto
    obtain R where R: "?refs ids = CHR ''#'' # R" using Cons by (cases js) simp_all
    have tail: "show_nat i @ ?tail = ?mid @ ?refs ids" using Cons by simp
    have sp: "split_by ?hash (show_nat i @ ?tail) = ?mid # tl (split_by ?hash (?mid @ ?refs ids))"
    proof -
      have "split_by ?hash (?mid @ ?refs ids) = ?mid # split_by ?hash R"
        unfolding R by (rule split_by_first [OF mid_free]) simp
      with tail show ?thesis by simp
    qed
    have "reference_ids (?mid @ ?refs ids) = ids" using mid_free Cons.IH [of ?mid] Cons.prems(1) by auto
    with first sp word [of "'', ''"] num show ?thesis
      by (simp add: reference_ids_def List.map_filter_def is_digit_def digits_def)
  qed
qed

lemma ref_list_last: "ids \<noteq> [] \<Longrightarrow> join '', '' (map (\<lambda>i. ''#'' @ show_nat i) ids) \<noteq> []
    \<and> is_digit (last (join '', '' (map (\<lambda>i. ''#'' @ show_nat i) ids)))"
proof (induction ids)
  case (Cons i ids)
  have "is_digit (last (show_nat i))" by (rule show_nat_digits) (rule last_in_set, simp)
  with Cons show ?case by (cases ids) simp_all
qed simp

lemma trim_id: "s \<noteq> [] \<Longrightarrow> \<not> is_ws (hd s) \<Longrightarrow> \<not> is_ws (last s) \<Longrightarrow> trim s = s"
proof -
  assume s: "s \<noteq> []" "\<not> is_ws (hd s)" "\<not> is_ws (last s)"
  from s(1,2) have a: "dropWhile is_ws s = s" by (cases s) auto
  from s(1,3) have b: "dropWhile is_ws (rev s) = rev s" by (cases s rule: rev_cases) auto
  show ?thesis by (simp add: trim_by_def trim_end_by_def trim_start_by_def a b)
qed

section \<open>Properties\<close>

text \<open>
  C39. A role read from the body is well formed and was really named there: it is made of lower
  case letters and inner hyphens with at least one of each, is none of the descriptive tokens, and
  occurs after a routing cue that stands at a word boundary in a line of the body.
\<close>

theorem owner_role_sound:
  assumes "parse_body_owner_role body = Some r"
  shows "role_token r \<and> (\<exists>line \<in> set (str_lines body). \<exists>cue \<in> set routing_cues. \<exists>a b.
    line = a @ cue @ b \<and> boundary_ok a \<and> occurs_in r b)"
proof -
  from assms obtain line where line: "line \<in> set (str_lines body)"
    "first_some (\<lambda>cue. search_cue cue [] line) routing_cues = Some r"
    unfolding parse_body_owner_role_def using first_some_Some by fastforce
  then obtain cue where "cue \<in> set routing_cues" "search_cue cue [] line = Some r"
    using first_some_Some by fastforce
  with line(1) search_cue_sound [of cue "[]" line r] show ?thesis by auto
qed

theorem owner_role_sound_witness:
  "role_token ''priya-writer''"
proof -
  have "parse_body_owner_role ''Intro. Owner: any-engineer or priya-writer.'' = Some ''priya-writer''"
    by code_simp
  from owner_role_sound [OF this] show ?thesis by simp
qed

text \<open>
  A dependency line is read back: the ids written after \<open>Blocked on:\<close> are exactly the ids the
  dispatcher waits for, when no earlier line of the body is a dependency line.
\<close>

theorem dependency_line_roundtrip:
  assumes "str_lines body = before @ dependency_line ids # after"
    and "\<forall>line \<in> set before. body_dependency_reference line = None"
    and "\<forall>i \<in> set ids. i < 2 ^ 32" and "ids \<noteq> []"
  shows "parse_body_dependency_ids body = Some ids"
proof -
  have "trim (dependency_line ids) = dependency_line ids"
    using ref_list_last [OF assms(4)] by (intro trim_id) (auto simp: dependency_line_def is_ws_def is_digit_def digits_def)
  moreover have "trim_start_by (\<lambda>ch. ch = dash) (dependency_line ids) = dependency_line ids"
    by (simp add: trim_start_by_def dependency_line_def dash_def)
  moreover have "starts_with ''blocked on:'' (lowercase (dependency_line ids))"
  proof -
    have "lowercase (dependency_line ids) = lowercase ''Blocked on:'' @ lowercase ('' '' @ join '', '' (map (\<lambda>i. ''#'' @ show_nat i) ids))"
      by (simp add: dependency_line_def lowercase_def)
    also have "lowercase ''Blocked on:'' = ''blocked on:''" by code_simp
    finally show ?thesis by (auto simp: starts_with_iff)
  qed
  ultimately have "body_dependency_reference (dependency_line ids) = Some (dependency_line ids)"
    by (simp add: body_dependency_reference_def)
  then have "first_some body_dependency_reference (str_lines body) = Some (dependency_line ids)"
    using assms(1,2) by (simp add: first_some_skip)
  moreover have "reference_ids (dependency_line ids) = ids"
    unfolding dependency_line_def by (rule ids_after_text [OF assms(3)]) simp
  ultimately show ?thesis by (simp add: parse_body_dependency_ids_def)
qed

theorem dependency_line_roundtrip_witness:
  "parse_body_dependency_ids (''Notes'' @ [newline] @ ''Blocked on: #65, #66'' @ [newline] @ ''Depends on: #7'') = Some [65, 66]"
proof -
  have l: "str_lines (''Notes'' @ [newline] @ ''Blocked on: #65, #66'' @ [newline] @ ''Depends on: #7'')
      = [''Notes''] @ dependency_line [65, 66] # [''Depends on: #7'']" by code_simp
  have b: "\<forall>line \<in> set [''Notes'']. body_dependency_reference line = None" by code_simp
  from dependency_line_roundtrip [OF l b] show ?thesis by simp
qed

end
