(* ===== verification/Resolver.thy ===== *)
theory Resolver
  imports Capability Body_Refs Board_Metadata "HOL-Library.Multiset"
begin

text \<open>
  The resolution of board tasks into workflow states (\<open>src/team/resolver.rs\<close>): which tasks are
  runnable, blocked or wait for a review, which can be dispatched and why not, and who acts next.
  Task files are read again for their workflow metadata through their source paths; \<open>files\<close> maps
  the paths that can be read to their contents. Loading the board is the subject of the theory
  of task files, so the operations start from the loaded tasks.
\<close>

section \<open>Workflow metadata as the resolver reads it\<close>

record resolver_metadata =
  w_execution_owner :: "string option"
  w_blocked_on :: "string option"
  w_review_owner :: "string option"
  w_tests_passed :: "bool option"
  w_outcome :: "string option"
  w_artifacts :: "string list"

definition no_metadata :: resolver_metadata where
  "no_metadata = \<lparr> w_execution_owner = None, w_blocked_on = None, w_review_owner = None,
     w_tests_passed = None, w_outcome = None, w_artifacts = [] \<rparr>"

definition resolver_metadata_of :: "libs \<Rightarrow> ymapping \<Rightarrow> resolver_metadata option" where
  "resolver_metadata_of L m =
     do { owner \<leftarrow> field_opt (de_string L) m ''execution_owner'';
          blocked \<leftarrow> field_opt (de_string L) m ''blocked_on'';
          reviewer \<leftarrow> field_opt (de_string L) m ''review_owner'';
          passed \<leftarrow> field_opt de_bool m ''tests_passed'';
          outcome \<leftarrow> field_opt (de_string L) m ''outcome'';
          artifacts \<leftarrow> field_default [] (de_seq (de_string L)) m ''artifacts'';
          Some \<lparr> w_execution_owner = owner, w_blocked_on = blocked, w_review_owner = reviewer,
                 w_tests_passed = passed, w_outcome = outcome, w_artifacts = artifacts \<rparr> }"

datatype resolver_error = Unreadable string | BadMetadata

definition opening_fence :: "string \<Rightarrow> string option" where
  "opening_fence content =
     Option.bind (strip_prefix fence (trim_start content)) (\<lambda>rest.
     Option.bind (strip_prefix [newline] rest) (\<lambda>rest'.
     map_option fst (split_once closing_fence rest')))"

definition load_workflow_metadata :: "libs \<Rightarrow> (string \<rightharpoonup> string) \<Rightarrow> task \<Rightarrow> resolver_error + resolver_metadata" where
  "load_workflow_metadata L files task =
     (if t_source_path task = [] then Inr no_metadata
      else
        (case files (t_source_path task) of
           None \<Rightarrow> Inl (Unreadable (t_source_path task))
         | Some content \<Rightarrow>
             (case opening_fence content of
                None \<Rightarrow> Inr no_metadata
              | Some frontmatter \<Rightarrow>
                  (case Option.bind (yaml_parse L frontmatter) (resolver_metadata_of L) of
                     None \<Rightarrow> Inl BadMetadata
                   | Some md \<Rightarrow> Inr md))))"

definition metadata_or_default :: "libs \<Rightarrow> (string \<rightharpoonup> string) \<Rightarrow> task \<Rightarrow> resolver_metadata" where
  "metadata_or_default L files task =
     (case load_workflow_metadata L files task of Inl _ \<Rightarrow> no_metadata | Inr md \<Rightarrow> md)"

definition verification_retry_required :: "resolver_metadata \<Rightarrow> bool" where
  "verification_retry_required md =
     (w_tests_passed md = Some False \<and> w_outcome md = Some ''verification_retry_required'' \<and> w_artifacts md \<noteq> [])"

section \<open>Why a task is blocked\<close>

definition closed_status :: "string \<Rightarrow> bool" where
  "closed_status s = (s = ''done'' \<or> s = ''archived'')"

definition open_status :: "string \<Rightarrow> bool" where
  "open_status s = (s = ''todo'' \<or> s = ''backlog'' \<or> s = ''runnable'')"

definition scheduled_text :: "task \<Rightarrow> string" where
  "scheduled_text task = ''scheduled for '' @ (case t_scheduled_for task of Some s \<Rightarrow> s | None \<Rightarrow> ''unknown'')"

definition blocking_reason :: "libs \<Rightarrow> int \<Rightarrow> task \<Rightarrow> resolver_metadata \<Rightarrow> nat set \<Rightarrow> string option" where
  "blocking_reason L now task md finished =
     (case t_blocked task of
        Some reason \<Rightarrow> Some reason
      | None \<Rightarrow>
     (case w_blocked_on md of
        Some reason \<Rightarrow> Some reason
      | None \<Rightarrow>
     if is_schedule_blocked L now task then Some (scheduled_text task)
     else
       (case (case parse_body_dependency_ids (t_description task) of
                None \<Rightarrow> None
              | Some ids \<Rightarrow>
                  if ids = [] then Some ''body dependency reference''
                  else map_option (\<lambda>d. ''unmet body dependency #'' @ show_nat d) (find (\<lambda>d. d \<notin> finished) ids)) of
          Some reason \<Rightarrow> Some reason
        | None \<Rightarrow> map_option (\<lambda>d. ''unmet dependency #'' @ show_nat d) (find (\<lambda>d. d \<notin> finished) (t_depends_on task)))))"

definition finished_ids :: "task list \<Rightarrow> nat set" where
  "finished_ids tasks = set (map t_id (filter (\<lambda>t. closed_status (t_status t)) tasks))"

definition is_dispatchable_task :: "libs \<Rightarrow> int \<Rightarrow> (string \<rightharpoonup> string) \<Rightarrow> task \<Rightarrow> nat set \<Rightarrow> bool" where
  "is_dispatchable_task L now files task finished =
     (if closed_status (t_status task) then False
      else
        (let md = metadata_or_default L files task; retry = verification_retry_required md in
         if \<not> open_status (t_status task) \<and> \<not> retry then False
         else if t_claimed_by task \<noteq> None \<and> \<not> retry then False
         else blocking_reason L now task md finished = None))"

definition dispatchable_tasks :: "libs \<Rightarrow> int \<Rightarrow> (string \<rightharpoonup> string) \<Rightarrow> task list \<Rightarrow> task list" where
  "dispatchable_tasks L now files tasks =
     filter (\<lambda>t. is_dispatchable_task L now files t (finished_ids tasks)) tasks"

text \<open>The status of the last task with the id, as the hash map keeps it.\<close>

definition status_by_id :: "task list \<Rightarrow> nat \<rightharpoonup> string" where
  "status_by_id tasks = map_of (rev (map (\<lambda>t. (t_id t, t_status t)) tasks))"

definition status_or_missing :: "task list \<Rightarrow> nat \<Rightarrow> string" where
  "status_or_missing tasks d = (case status_by_id tasks d of Some s \<Rightarrow> s | None \<Rightarrow> ''missing'')"

definition unmet :: "task list \<Rightarrow> nat \<Rightarrow> bool" where
  "unmet tasks d = (\<not> (case status_by_id tasks d of Some s \<Rightarrow> closed_status s | None \<Rightarrow> False))"

definition dispatch_blocking_reason :: "libs \<Rightarrow> int \<Rightarrow> (string \<rightharpoonup> string) \<Rightarrow> task \<Rightarrow> task list \<Rightarrow> string option" where
  "dispatch_blocking_reason L now files task tasks =
     (let status_text = ''status '' @ t_status task @ '' is not dispatchable'' in
      if closed_status (t_status task) then Some status_text
      else
        (let md = metadata_or_default L files task; retry = verification_retry_required md in
         if \<not> open_status (t_status task) \<and> \<not> retry then Some status_text
         else if t_claimed_by task \<noteq> None \<and> \<not> retry then
           Some (''claimed by '' @ the (t_claimed_by task)
             @ ''; next: release stale claim or normalize matching active work to in-progress'')
         else
           (case t_blocked task of
              Some reason \<Rightarrow> Some reason
            | None \<Rightarrow>
           (case w_blocked_on md of
              Some reason \<Rightarrow> Some reason
            | None \<Rightarrow>
           if is_schedule_blocked L now task then Some (scheduled_text task)
           else
             (case (case parse_body_dependency_ids (t_description task) of
                      None \<Rightarrow> None
                    | Some ids \<Rightarrow>
                        if ids = [] then Some ''body dependency reference''
                        else map_option (\<lambda>d. ''unmet body dependency #'' @ show_nat d @ '' ('' @ status_or_missing tasks d @ '')'')
                               (find (unmet tasks) ids)) of
                Some reason \<Rightarrow> Some reason
              | None \<Rightarrow>
                  first_some (\<lambda>d.
                    if closed_status (status_or_missing tasks d) then None
                    else Some (''unmet dependency #'' @ show_nat d @ '' ('' @ status_or_missing tasks d @ '')''))
                    (t_depends_on task))))))"

section \<open>Resolution of the board\<close>

datatype resolution_status = Runnable | Blocked_Status | NeedsReview | NeedsAction

record task_resolution =
  rs_task_id :: nat
  rs_title :: string
  rs_status :: resolution_status
  rs_execution_owner :: "string option"
  rs_review_owner :: "string option"
  rs_blocking_reason :: "string option"
  rs_acting_capability :: "workflow_capability option"

definition is_supervisor :: "member_instance \<Rightarrow> bool" where
  "is_supervisor m = (m_role_type m = Manager \<or> m_role_type m = Architect)"

definition has_executor :: "member_instance list \<Rightarrow> bool" where
  "has_executor members = (list_ex (\<lambda>m. m_role_type m = Engineer) members \<or> list_ex is_supervisor members)"
definition has_planner :: "member_instance list \<Rightarrow> bool" where
  "has_planner members = (list_ex is_supervisor members \<or> has_executor members)"
definition has_dispatcher :: "member_instance list \<Rightarrow> bool" where
  "has_dispatcher members = (list_ex is_supervisor members \<or> has_executor members)"
definition has_reviewer :: "member_instance list \<Rightarrow> bool" where
  "has_reviewer members = (list_ex is_supervisor members \<or> has_executor members)"

definition acting_capability ::
  "task \<Rightarrow> resolver_metadata \<Rightarrow> resolution_status \<Rightarrow> member_instance list \<Rightarrow> string option \<Rightarrow> workflow_capability option" where
  "acting_capability task md status members execution_owner =
     (case status of
        Blocked_Status \<Rightarrow> None
      | NeedsReview \<Rightarrow> if w_review_owner md \<noteq> None \<or> has_reviewer members then Some Reviewer else None
      | Runnable \<Rightarrow>
          if execution_owner \<noteq> None then Some Executor
          else if has_dispatcher members then Some Dispatcher
          else if has_executor members then Some Executor
          else None
      | NeedsAction \<Rightarrow>
          if t_status task = ''in-progress'' \<and> has_executor members then Some Executor
          else if t_status task = ''backlog'' \<and> has_planner members then Some Planner
          else if has_dispatcher members then Some Dispatcher
          else None)"

definition resolution_status_of :: "task \<Rightarrow> string option \<Rightarrow> resolution_status" where
  "resolution_status_of task reason =
     (if reason \<noteq> None then Blocked_Status
      else if t_status task = ''review'' then NeedsReview
      else if t_status task \<in> {''todo'', ''backlog'', ''in-progress'', ''runnable''} then Runnable
      else NeedsAction)"

definition resolve_task ::
  "libs \<Rightarrow> int \<Rightarrow> (string \<rightharpoonup> string) \<Rightarrow> member_instance list \<Rightarrow> nat set \<Rightarrow> task \<Rightarrow> resolver_error + task_resolution" where
  "resolve_task L now files members finished task =
     res_bind (load_workflow_metadata L files task) (\<lambda>md.
       let owner = opt_or (w_execution_owner md) (t_claimed_by task);
           reason = blocking_reason L now task md finished;
           status = resolution_status_of task reason
       in Inr \<lparr> rs_task_id = t_id task, rs_title = t_title task, rs_status = status, rs_execution_owner = owner,
                rs_review_owner = w_review_owner md, rs_blocking_reason = reason,
                rs_acting_capability = acting_capability task md status members owner \<rparr>)"

fun collect_res :: "('e + 'a) list \<Rightarrow> 'e + 'a list" where
  "collect_res [] = Inr []"
| "collect_res (r # rs) = res_bind r (\<lambda>x. res_bind (collect_res rs) (\<lambda>xs. Inr (x # xs)))"

definition resolve_board ::
  "libs \<Rightarrow> int \<Rightarrow> (string \<rightharpoonup> string) \<Rightarrow> member_instance list \<Rightarrow> task list \<Rightarrow> resolver_error + task_resolution list" where
  "resolve_board L now files members tasks =
     res_bind (collect_res (map (resolve_task L now files members (finished_ids tasks))
                  (filter (\<lambda>t. \<not> closed_status (t_status t)) tasks)))
       (\<lambda>rs. Inr (sort_key rs_task_id rs))"

definition runnable_tasks :: "task_resolution list \<Rightarrow> task_resolution list" where
  "runnable_tasks rs = filter (\<lambda>r. rs_status r = Runnable) rs"

section \<open>Tasks for engineers\<close>

definition dispatch_priority_rank :: "string \<Rightarrow> nat" where
  "dispatch_priority_rank p =
     (if p = ''critical'' then 0 else if p = ''high'' then 1 else if p = ''medium'' then 2
      else if p = ''low'' then 3 else 4)"

definition is_engineer_dispatchable :: "task \<Rightarrow> string set \<Rightarrow> bool" where
  "is_engineer_dispatchable task non_engineers =
     (case t_assignee task of
        Some a \<Rightarrow> a \<notin> non_engineers
      | None \<Rightarrow>
          (case parse_body_owner_role (t_description task) of
             Some owner \<Rightarrow> owner \<notin> non_engineers
           | None \<Rightarrow> True))"

definition non_engineer_names :: "member_instance list \<Rightarrow> string set" where
  "non_engineer_names members = set (map m_name (filter (\<lambda>m. m_role_type m \<noteq> Engineer) members))"

definition engineer_dispatchable_tasks ::
  "libs \<Rightarrow> int \<Rightarrow> (string \<rightharpoonup> string) \<Rightarrow> member_instance list \<Rightarrow> task list \<Rightarrow> task list" where
  "engineer_dispatchable_tasks L now files members tasks =
     sort_key (\<lambda>t. (dispatch_priority_rank (t_priority t), t_id t))
       (filter (\<lambda>t. is_engineer_dispatchable t (non_engineer_names members)) (dispatchable_tasks L now files tasks))"

section \<open>Lemmas\<close>

lemma status_by_id_Some:
  assumes "distinct (map t_id tasks)"
  shows "status_by_id tasks d = Some s \<longleftrightarrow> (\<exists>t \<in> set tasks. t_id t = d \<and> t_status t = s)"
proof -
  have "distinct (map fst (rev (map (\<lambda>t. (t_id t, t_status t)) tasks)))"
    using assms by (simp add: rev_map [symmetric] comp_def)
  then show ?thesis unfolding status_by_id_def by (auto simp: map_of_eq_Some_iff)
qed

lemma unmet_iff: "distinct (map t_id tasks) \<Longrightarrow> unmet tasks d \<longleftrightarrow> d \<notin> finished_ids tasks"
proof -
  assume d: "distinct (map t_id tasks)"
  show ?thesis
  proof (cases "status_by_id tasks d")
    case None
    then have "\<nexists>t. t \<in> set tasks \<and> t_id t = d" using status_by_id_Some [OF d, of d] by auto
    with None show ?thesis by (auto simp: unmet_def finished_ids_def)
  next
    case (Some s)
    then obtain t where t: "t \<in> set tasks" "t_id t = d" "t_status t = s" using status_by_id_Some [OF d] by auto
    have "d \<in> finished_ids tasks \<longleftrightarrow> closed_status s"
    proof
      assume "d \<in> finished_ids tasks"
      then obtain u where u: "u \<in> set tasks" "t_id u = d" "closed_status (t_status u)" by (auto simp: finished_ids_def)
      with t d have "u = t" by (auto simp: distinct_map dest: inj_onD)
      with u t show "closed_status s" by simp
    qed (use t in \<open>auto simp: finished_ids_def\<close>)
    with Some show ?thesis by (simp add: unmet_def)
  qed
qed

lemma closed_or_missing: "closed_status (status_or_missing tasks d) \<longleftrightarrow> \<not> unmet tasks d"
  by (auto simp: status_or_missing_def unmet_def closed_status_def split: option.splits)

lemma blocking_reason_None:
  "blocking_reason L now task md finished = None \<longleftrightarrow>
     t_blocked task = None \<and> w_blocked_on md = None \<and> \<not> is_schedule_blocked L now task
     \<and> (\<forall>ids. parse_body_dependency_ids (t_description task) = Some ids \<longrightarrow> ids \<noteq> [] \<and> set ids \<subseteq> finished)
     \<and> set (t_depends_on task) \<subseteq> finished"
  unfolding blocking_reason_def
  by (cases "t_blocked task"; cases "w_blocked_on md"; cases "parse_body_dependency_ids (t_description task)")
    (auto simp: find_None_all dest: find_Some_in split: option.splits)

lemma dispatch_reason_None:
  "dispatch_blocking_reason L now files task tasks = None \<longleftrightarrow>
     (let md = metadata_or_default L files task; retry = verification_retry_required md in
      \<not> closed_status (t_status task) \<and> (open_status (t_status task) \<or> retry)
      \<and> (t_claimed_by task = None \<or> retry)
      \<and> t_blocked task = None \<and> w_blocked_on md = None \<and> \<not> is_schedule_blocked L now task
      \<and> (\<forall>ids. parse_body_dependency_ids (t_description task) = Some ids \<longrightarrow>
           ids \<noteq> [] \<and> (\<forall>d \<in> set ids. \<not> unmet tasks d))
      \<and> (\<forall>d \<in> set (t_depends_on task). \<not> unmet tasks d))"
  unfolding dispatch_blocking_reason_def Let_def
  by (cases "t_blocked task"; cases "w_blocked_on (metadata_or_default L files task)";
      cases "parse_body_dependency_ids (t_description task)")
    (auto simp: find_None_all first_some_None closed_or_missing dest: find_Some_in split: option.splits)

lemma dispatchable_iff:
  "is_dispatchable_task L now files task finished \<longleftrightarrow>
     (let md = metadata_or_default L files task; retry = verification_retry_required md in
      \<not> closed_status (t_status task) \<and> (open_status (t_status task) \<or> retry)
      \<and> (t_claimed_by task = None \<or> retry) \<and> blocking_reason L now task md finished = None)"
  by (simp add: is_dispatchable_task_def Let_def)

lemma collect_res_Inr: "collect_res rs = Inr xs \<longleftrightarrow> rs = map Inr xs"
  by (induction rs arbitrary: xs) auto

lemma resolve_task_Inr: "resolve_task L now files members finished t = Inr r \<Longrightarrow> rs_task_id r = t_id t
    \<and> (\<exists>md. load_workflow_metadata L files t = Inr md \<and> rs_blocking_reason r = blocking_reason L now t md finished
        \<and> rs_status r = resolution_status_of t (rs_blocking_reason r))"
  by (auto simp: resolve_task_def Let_def)

section \<open>Properties\<close>

text \<open>
  C18. The two accounts of dispatchability agree on a board with distinct ids: a task can be
  dispatched exactly when the explanation for the operator finds no reason against it.
\<close>

theorem dispatch_reason_agrees:
  assumes "distinct (map t_id tasks)"
  shows "is_dispatchable_task L now files task (finished_ids tasks)
    \<longleftrightarrow> dispatch_blocking_reason L now files task tasks = None"
  unfolding dispatchable_iff dispatch_reason_None blocking_reason_None Let_def
  using unmet_iff [OF assms] by auto

text \<open>
  C34. The resolution of the board covers every open task once, in the order of the ids, and a
  task is resolved as runnable only if it is neither blocked nor scheduled for later, is in one
  of the four states, and all its dependencies, in the front matter and in the body, are done.
\<close>

theorem resolve_board_sound:
  assumes "resolve_board L now files members tasks = Inr rs"
  shows "sorted (map rs_task_id rs)
    \<and> mset (map rs_task_id rs) = mset (map t_id (filter (\<lambda>t. \<not> closed_status (t_status t)) tasks))
    \<and> (\<forall>r \<in> set (runnable_tasks rs). \<exists>t \<in> set tasks. t_id t = rs_task_id r
         \<and> t_status t \<in> {''todo'', ''backlog'', ''in-progress'', ''runnable''} \<and> t_blocked t = None
         \<and> \<not> is_schedule_blocked L now t \<and> set (t_depends_on t) \<subseteq> finished_ids tasks
         \<and> (\<forall>ids. parse_body_dependency_ids (t_description t) = Some ids \<longrightarrow> set ids \<subseteq> finished_ids tasks))"
proof -
  let ?open = "filter (\<lambda>t. \<not> closed_status (t_status t)) tasks"
  from assms obtain us where us: "map (resolve_task L now files members (finished_ids tasks)) ?open = map Inr us"
    "rs = sort_key rs_task_id us" by (auto simp: resolve_board_def collect_res_Inr)
  have ids: "map rs_task_id us = map t_id ?open"
  proof (rule nth_equalityI)
    show "length (map rs_task_id us) = length (map t_id ?open)" using us(1) by (metis length_map)
    fix k assume k: "k < length (map rs_task_id us)"
    with us(1) have "resolve_task L now files members (finished_ids tasks) (?open ! k) = Inr (us ! k)"
      by (metis length_map nth_map)
    with k us(1) show "map rs_task_id us ! k = map t_id ?open ! k"
      using resolve_task_Inr by (metis length_map nth_map)
  qed
  have from_task: "\<exists>t \<in> set ?open. resolve_task L now files members (finished_ids tasks) t = Inr r" if "r \<in> set us" for r
    using us(1) that by (metis (no_types, lifting) imageE imageI list.set_map)
  show ?thesis
  proof (intro conjI ballI)
    show "sorted (map rs_task_id rs)" using us(2) by simp
    show "mset (map rs_task_id rs) = mset (map t_id ?open)" using us(2) ids by (metis mset_map mset_sort)
    fix r assume r: "r \<in> set (runnable_tasks rs)"
    with us(2) have "r \<in> set us" "rs_status r = Runnable" by (auto simp: runnable_tasks_def)
    with from_task obtain t where t: "t \<in> set ?open" "resolve_task L now files members (finished_ids tasks) t = Inr r" by blast
    from resolve_task_Inr [OF t(2)] \<open>rs_status r = Runnable\<close> obtain md where
      md: "rs_task_id r = t_id t" "rs_blocking_reason r = blocking_reason L now t md (finished_ids tasks)"
        "resolution_status_of t (rs_blocking_reason r) = Runnable" by auto
    from md(3) have "rs_blocking_reason r = None" "t_status t \<in> {''todo'', ''backlog'', ''in-progress'', ''runnable''}"
      by (auto simp: resolution_status_of_def split: if_splits)
    moreover from this(1) md(2) have "blocking_reason L now t md (finished_ids tasks) = None" by simp
    ultimately show "\<exists>t \<in> set tasks. t_id t = rs_task_id r
         \<and> t_status t \<in> {''todo'', ''backlog'', ''in-progress'', ''runnable''} \<and> t_blocked t = None
         \<and> \<not> is_schedule_blocked L now t \<and> set (t_depends_on t) \<subseteq> finished_ids tasks
         \<and> (\<forall>ids. parse_body_dependency_ids (t_description t) = Some ids \<longrightarrow> set ids \<subseteq> finished_ids tasks)"
      using md(1) t(1) unfolding blocking_reason_None by (intro bexI [of _ t]) auto
  qed
qed

section \<open>A sample board\<close>

definition sample_board :: "task list" where
  "sample_board =
     [sample_task\<lparr>t_id := 3, t_status := ''todo'', t_blocked := None, t_depends_on := [1]\<rparr>,
      sample_task\<lparr>t_id := 1, t_status := ''done'', t_blocked := None\<rparr>,
      sample_task\<lparr>t_id := 2, t_status := ''todo'', t_blocked := None, t_description := ''Blocked on: #3''\<rparr>]"

definition plain_libs :: libs where
  "plain_libs = \<lparr> yaml_parse = (\<lambda>s. None), yaml_print = (\<lambda>m. None), scalar_text = (\<lambda>v. []),
     toml_config = (\<lambda>s. None), rfc3339_parse = (\<lambda>s. None), rfc3339_print = (\<lambda>d. []),
     datetime_add = (\<lambda>t s. Some (t + s)), cron_valid = (\<lambda>s. True) \<rparr>"

theorem dispatch_reason_agrees_witness:
  "dispatch_blocking_reason plain_libs 0 (\<lambda>_. None) (sample_board ! 0) sample_board = None
   \<and> \<not> is_dispatchable_task plain_libs 0 (\<lambda>_. None) (sample_board ! 2) (finished_ids sample_board)"
proof -
  have d: "distinct (map t_id sample_board)" by code_simp
  have a: "is_dispatchable_task plain_libs 0 (\<lambda>_. None) (sample_board ! 0) (finished_ids sample_board)" by code_simp
  have b: "dispatch_blocking_reason plain_libs 0 (\<lambda>_. None) (sample_board ! 2) sample_board
      = Some ''unmet body dependency #3 (todo)''" by code_simp
  from a b show ?thesis by (simp add: dispatch_reason_agrees [OF d])
qed

theorem resolve_board_sound_witness:
  "\<exists>rs. resolve_board plain_libs 0 (\<lambda>_. None) sample_members sample_board = Inr rs
     \<and> map rs_task_id (runnable_tasks rs) = [3] \<and> sorted (map rs_task_id rs)"
proof -
  have "case resolve_board plain_libs 0 (\<lambda>_. None) sample_members sample_board of
      Inl e \<Rightarrow> False | Inr rs \<Rightarrow> map rs_task_id (runnable_tasks rs) = [3]" by code_simp
  then obtain rs where rs: "resolve_board plain_libs 0 (\<lambda>_. None) sample_members sample_board = Inr rs"
    "map rs_task_id (runnable_tasks rs) = [3]" by (auto split: sum.splits)
  from resolve_board_sound [OF rs(1)] have "sorted (map rs_task_id rs)" by (rule conjunct1)
  with rs show ?thesis by (intro exI [of _ rs]) simp
qed

end
