(* ===== verification/Nudge.thy ===== *)
theory Nudge
  imports Resolver
begin

text \<open>
  The choice of the members to nudge (\<open>src/team/nudge.rs\<close>): from the resolved board, the states of
  the members and their pending inbox messages to at most one reason for each member and
  capability.
\<close>

section \<open>Targets\<close>

datatype member_state = Idle | Working

record nudge_target =
  g_member :: string
  g_reason :: string
  g_capability :: workflow_capability

type_synonym targets = "(string \<times> workflow_capability, string) btree_map"

text \<open>What the eligibility of a member depends on: states, pending messages, capabilities.\<close>

record nudge_context =
  x_states :: "string \<rightharpoonup> member_state"
  x_pending :: "string \<rightharpoonup> nat"
  x_capabilities :: "string \<rightharpoonup> workflow_capability set"

definition member_capabilities :: "member_instance list \<Rightarrow> string \<rightharpoonup> workflow_capability set" where
  "member_capabilities members = map_of (rev (map (\<lambda>m. (m_name m, resolve_member_capabilities m members)) members))"

definition member_is_eligible :: "nudge_context \<Rightarrow> string \<Rightarrow> workflow_capability \<Rightarrow> bool" where
  "member_is_eligible x name cap =
     (x_states x name = Some Idle
      \<and> (case x_pending x name of Some n \<Rightarrow> n | None \<Rightarrow> 0) = 0
      \<and> (case x_capabilities x name of Some caps \<Rightarrow> cap \<in> caps | None \<Rightarrow> False))"

definition record_target :: "string \<Rightarrow> workflow_capability \<Rightarrow> string \<Rightarrow> targets \<Rightarrow> targets" where
  "record_target name cap reason targets = bt_or_insert (name, cap) reason targets"

definition resolve_member_reference :: "string \<Rightarrow> member_instance list \<Rightarrow> string" where
  "resolve_member_reference name members =
     (if list_ex (\<lambda>m. m_name m = name) members then name
      else
        (case map m_name (filter (\<lambda>m. m_role_name m = name) members) of
           [first] \<Rightarrow> first
         | _ \<Rightarrow> name))"

definition offer :: "nudge_context \<Rightarrow> workflow_capability \<Rightarrow> string \<Rightarrow> string \<Rightarrow> targets \<Rightarrow> targets" where
  "offer x cap reason name targets =
     (if member_is_eligible x name cap then record_target name cap reason targets else targets)"

definition offer_all :: "nudge_context \<Rightarrow> member_instance list \<Rightarrow> workflow_capability \<Rightarrow> string \<Rightarrow> targets \<Rightarrow> targets" where
  "offer_all x members cap reason targets = fold (\<lambda>m. offer x cap reason (m_name m)) members targets"

definition task_text :: "task_resolution \<Rightarrow> string" where
  "task_text r = show_nat (rs_task_id r) @ '': '' @ rs_title r"

definition nudge_for :: "nudge_context \<Rightarrow> member_instance list \<Rightarrow> task_resolution \<Rightarrow> targets \<Rightarrow> targets" where
  "nudge_for x members r targets =
     (case rs_status r of
        Runnable \<Rightarrow>
          (case rs_execution_owner r of
             Some owner \<Rightarrow> offer x Executor (''resume runnable owned task #'' @ task_text r)
                             (resolve_member_reference owner members) targets
           | None \<Rightarrow> offer_all x members Dispatcher (''dispatch unassigned runnable task #'' @ task_text r) targets)
      | NeedsReview \<Rightarrow>
          (let reason = ''review backlog for task #'' @ task_text r in
           case rs_review_owner r of
             Some owner \<Rightarrow> offer x Reviewer reason (resolve_member_reference owner members) targets
           | None \<Rightarrow> offer_all x members Reviewer reason targets)
      | Blocked_Status \<Rightarrow> targets
      | NeedsAction \<Rightarrow> targets)"

definition compute_nudges :: "nudge_context \<Rightarrow> member_instance list \<Rightarrow> task_resolution list \<Rightarrow> nudge_target list" where
  "compute_nudges x members rs =
     (let targets = fold (nudge_for x members) rs [];
          has_runnable = list_ex (\<lambda>r. rs_status r = Runnable) rs;
          has_blocked = list_ex (\<lambda>r. rs_status r = Blocked_Status) rs;
          final = (if \<not> has_runnable \<and> has_blocked
                   then offer_all x members Planner ''blocked frontier needs planning attention'' targets
                   else targets)
      in map (\<lambda>((name, cap), reason). \<lparr> g_member = name, g_reason = reason, g_capability = cap \<rparr>) final)"

definition nudge_context_of ::
  "(string \<rightharpoonup> member_state) \<Rightarrow> (string \<rightharpoonup> nat) \<Rightarrow> member_instance list \<Rightarrow> nudge_context" where
  "nudge_context_of states pending members =
     \<lparr> x_states = states, x_pending = pending, x_capabilities = member_capabilities members \<rparr>"

definition compute_board_nudges ::
  "libs \<Rightarrow> int \<Rightarrow> (string \<rightharpoonup> string) \<Rightarrow> member_instance list \<Rightarrow> (string \<rightharpoonup> member_state) \<Rightarrow> (string \<rightharpoonup> nat)
   \<Rightarrow> task list \<Rightarrow> resolver_error + nudge_target list" where
  "compute_board_nudges L now files members states pending tasks =
     res_bind (resolve_board L now files members tasks)
       (\<lambda>rs. Inr (compute_nudges (nudge_context_of states pending members) members rs))"

section \<open>Lemmas\<close>

text \<open>What every step keeps: the targets stay ordered and name eligible pairs only.\<close>

definition targets_ok :: "nudge_context \<Rightarrow> targets \<Rightarrow> bool" where
  "targets_ok x targets \<longleftrightarrow> bt_ordered targets
     \<and> (\<forall>name cap reason. map_of targets (name, cap) = Some reason \<longrightarrow> member_is_eligible x name cap)"

lemma targets_ok_Nil: "targets_ok x []"
  by (simp add: targets_ok_def)

lemma offer_ok: "targets_ok x targets \<Longrightarrow> targets_ok x (offer x cap reason name targets)"
  by (auto simp: targets_ok_def offer_def record_target_def bt_or_insert_ordered bt_or_insert_look split: if_splits)

lemma offer_all_ok: "targets_ok x targets \<Longrightarrow> targets_ok x (offer_all x members cap reason targets)"
  unfolding offer_all_def by (induction members arbitrary: targets) (auto simp: offer_ok)

lemma nudge_for_ok: "targets_ok x targets \<Longrightarrow> targets_ok x (nudge_for x members r targets)"
  by (auto simp: nudge_for_def Let_def offer_ok offer_all_ok split: resolution_status.split option.split)

lemma nudges_ok: "targets_ok x targets \<Longrightarrow> targets_ok x (fold (nudge_for x members) rs targets)"
  by (induction rs arbitrary: targets) (auto simp: nudge_for_ok)

lemma offer_keeps: "targets_ok x targets \<Longrightarrow> map_of targets k \<noteq> None \<Longrightarrow> map_of (offer x cap reason name targets) k \<noteq> None"
  by (auto simp: targets_ok_def offer_def record_target_def bt_or_insert_look)

lemma offer_adds: "targets_ok x targets \<Longrightarrow> member_is_eligible x name cap \<Longrightarrow> map_of (offer x cap reason name targets) (name, cap) \<noteq> None"
  by (auto simp: targets_ok_def offer_def record_target_def bt_or_insert_look)

lemma offer_all_keeps: "targets_ok x targets \<Longrightarrow> map_of targets k \<noteq> None \<Longrightarrow> map_of (offer_all x members cap reason targets) k \<noteq> None"
  unfolding offer_all_def by (induction members arbitrary: targets) (simp_all add: offer_ok offer_keeps del: not_None_eq)

lemma offer_all_adds:
  "targets_ok x targets \<Longrightarrow> m \<in> set members \<Longrightarrow> member_is_eligible x (m_name m) cap
   \<Longrightarrow> map_of (offer_all x members cap reason targets) (m_name m, cap) \<noteq> None"
proof (induction members arbitrary: targets)
  case (Cons y members)
  have split: "offer_all x (y # members) cap reason targets
      = offer_all x members cap reason (offer x cap reason (m_name y) targets)" by (simp add: offer_all_def)
  show ?case
  proof (cases "m = y")
    case True
    with Cons.prems show ?thesis unfolding split by (intro offer_all_keeps) (auto simp: offer_ok offer_adds)
  next
    case False
    with Cons show ?thesis unfolding split by (auto simp: offer_ok)
  qed
qed simp

lemma nudge_for_keeps:
  assumes "targets_ok x targets" and "map_of targets k \<noteq> None"
  shows "map_of (nudge_for x members r targets) k \<noteq> None"
  using assms offer_keeps [OF assms] offer_all_keeps [OF assms] unfolding nudge_for_def Let_def
  by (cases "rs_status r"; cases "rs_execution_owner r"; cases "rs_review_owner r")
    (simp_all del: not_None_eq)

lemma nudges_keep: "targets_ok x targets \<Longrightarrow> map_of targets k \<noteq> None \<Longrightarrow> map_of (fold (nudge_for x members) rs targets) k \<noteq> None"
  by (induction rs arbitrary: targets) (simp_all add: nudge_for_ok nudge_for_keeps del: not_None_eq)

lemma nudges_reach:
  assumes "targets_ok x targets" and "r \<in> set rs"
    and "\<And>ts. targets_ok x ts \<Longrightarrow> map_of (nudge_for x members r ts) k \<noteq> None"
  shows "map_of (fold (nudge_for x members) rs targets) k \<noteq> None"
  using assms
proof (induction rs arbitrary: targets)
  case (Cons s rs)
  show ?case
  proof (cases "r = s")
    case True
    with Cons.prems show ?thesis by (simp add: nudges_keep nudge_for_ok)
  next
    case False
    with Cons show ?thesis by (simp add: nudge_for_ok)
  qed
qed simp

definition final_targets :: "nudge_context \<Rightarrow> member_instance list \<Rightarrow> task_resolution list \<Rightarrow> targets" where
  "final_targets x members rs =
     (let targets = fold (nudge_for x members) rs [] in
      if \<not> list_ex (\<lambda>r. rs_status r = Runnable) rs \<and> list_ex (\<lambda>r. rs_status r = Blocked_Status) rs
      then offer_all x members Planner ''blocked frontier needs planning attention'' targets
      else targets)"

lemma final_targets_ok: "targets_ok x (final_targets x members rs)"
  by (simp add: final_targets_def Let_def offer_all_ok nudges_ok targets_ok_Nil)

lemma compute_nudges_targets:
  "map (\<lambda>g. ((g_member g, g_capability g), g_reason g)) (compute_nudges x members rs) = final_targets x members rs"
  by (simp add: compute_nudges_def final_targets_def Let_def comp_def case_prod_beta)

lemma nudged_iff:
  "(\<exists>g \<in> set (compute_nudges x members rs). g_member g = name \<and> g_capability g = cap)
   \<longleftrightarrow> map_of (final_targets x members rs) (name, cap) \<noteq> None"
proof -
  have "map_of (final_targets x members rs) (name, cap) \<noteq> None
      \<longleftrightarrow> (name, cap) \<in> fst ` set (final_targets x members rs)"
    by (simp add: map_of_eq_None_iff)
  also have "\<dots> \<longleftrightarrow> (name, cap) \<in> (\<lambda>g. (g_member g, g_capability g)) ` set (compute_nudges x members rs)"
    unfolding compute_nudges_targets [symmetric] by (simp add: image_image)
  also have "\<dots> \<longleftrightarrow> (\<exists>g \<in> set (compute_nudges x members rs). g_member g = name \<and> g_capability g = cap)"
    by auto
  finally show ?thesis by simp
qed

lemma reached:
  assumes "r \<in> set rs" and "\<And>ts. targets_ok x ts \<Longrightarrow> map_of (nudge_for x members r ts) k \<noteq> None"
  shows "map_of (final_targets x members rs) k \<noteq> None"
  using nudges_reach [OF targets_ok_Nil assms] offer_all_keeps [OF nudges_ok [OF targets_ok_Nil]]
  by (simp add: final_targets_def Let_def del: not_None_eq)

lemmas adds = offer_adds [unfolded not_None_eq] offer_all_adds [unfolded not_None_eq]

section \<open>Properties\<close>

text \<open>
  C38. Only members that can act are nudged: each target is idle, has no pending message and holds
  the capability it is nudged for, and no member is nudged twice for one capability; the
  targets come in the order of names and capabilities.
\<close>

theorem nudges_only_eligible:
  "list_all (\<lambda>g. member_is_eligible x (g_member g) (g_capability g)) (compute_nudges x members rs)
   \<and> sorted (map (\<lambda>g. (g_member g, g_capability g)) (compute_nudges x members rs))
   \<and> distinct (map (\<lambda>g. (g_member g, g_capability g)) (compute_nudges x members rs))"
proof -
  have keys: "map (\<lambda>g. (g_member g, g_capability g)) (compute_nudges x members rs)
      = map fst (final_targets x members rs)"
    unfolding compute_nudges_targets [symmetric] by simp
  have "member_is_eligible x (g_member g) (g_capability g)" if "g \<in> set (compute_nudges x members rs)" for g
  proof -
    from that nudged_iff have "map_of (final_targets x members rs) (g_member g, g_capability g) \<noteq> None" by blast
    with final_targets_ok [of x members rs] show ?thesis by (auto simp: targets_ok_def)
  qed
  with final_targets_ok [of x members rs] keys show ?thesis by (simp add: targets_ok_def bt_ordered_def list_all_iff)
qed

text \<open>
  C35. Work does not wait for a nudge: for a runnable task with an owner the owner is nudged when
  it can act, for one without an owner every dispatcher that can act, for a task in review
  its review owner or every reviewer, and when blocked tasks are all there is every planner.
\<close>

theorem open_work_is_nudged:
  assumes "member_is_eligible x name cap"
    and "(\<exists>r \<in> set rs. rs_status r = Runnable \<and> cap = Executor
            \<and> map_option (\<lambda>owner. resolve_member_reference owner members) (rs_execution_owner r) = Some name)
       \<or> (\<exists>r \<in> set rs. rs_status r = Runnable \<and> cap = Dispatcher \<and> rs_execution_owner r = None \<and> name \<in> m_name ` set members)
       \<or> (\<exists>r \<in> set rs. rs_status r = NeedsReview \<and> cap = Reviewer
            \<and> (case rs_review_owner r of Some owner \<Rightarrow> name = resolve_member_reference owner members
               | None \<Rightarrow> name \<in> m_name ` set members))
       \<or> (cap = Planner \<and> name \<in> m_name ` set members \<and> (\<exists>r \<in> set rs. rs_status r = Blocked_Status)
            \<and> (\<forall>r \<in> set rs. rs_status r \<noteq> Runnable))"
  shows "\<exists>g \<in> set (compute_nudges x members rs). g_member g = name \<and> g_capability g = cap"
  unfolding nudged_iff using assms(2)
proof (elim disjE bexE conjE)
  fix r assume r: "r \<in> set rs" "rs_status r = Runnable" "cap = Executor"
    "map_option (\<lambda>owner. resolve_member_reference owner members) (rs_execution_owner r) = Some name"
  show "map_of (final_targets x members rs) (name, cap) \<noteq> None"
    using r adds(1) [OF _ assms(1)] by (intro reached [OF r(1)]) (auto simp: nudge_for_def)
next
  fix r assume r: "r \<in> set rs" "rs_status r = Runnable" "cap = Dispatcher" "rs_execution_owner r = None"
    "name \<in> m_name ` set members"
  then show "map_of (final_targets x members rs) (name, cap) \<noteq> None"
    using assms(1) adds(2) by (intro reached [OF r(1)]) (auto simp: nudge_for_def)
next
  fix r assume r: "r \<in> set rs" "rs_status r = NeedsReview" "cap = Reviewer"
    "case rs_review_owner r of Some owner \<Rightarrow> name = resolve_member_reference owner members | None \<Rightarrow> name \<in> m_name ` set members"
  then show "map_of (final_targets x members rs) (name, cap) \<noteq> None"
    using assms(1) adds(2) adds(1) [OF _ assms(1)]
    by (intro reached [OF r(1)]) (auto simp: nudge_for_def Let_def split: option.splits)
next
  fix r assume r: "cap = Planner" "name \<in> m_name ` set members" "\<forall>r \<in> set rs. rs_status r \<noteq> Runnable"
    "r \<in> set rs" "rs_status r = Blocked_Status"
  then have "\<not> list_ex (\<lambda>r. rs_status r = Runnable) rs \<and> list_ex (\<lambda>r. rs_status r = Blocked_Status) rs"
    by (auto simp: list_ex_iff)
  with r(1,2) assms(1) show "map_of (final_targets x members rs) (name, cap) \<noteq> None"
    using adds(2) [OF nudges_ok [OF targets_ok_Nil]] by (auto simp: final_targets_def Let_def)
qed

definition sample_context :: nudge_context where
  "sample_context = nudge_context_of (\<lambda>n. if n = ''manager-1'' then Some Idle else None) (\<lambda>_. None) sample_members"

definition sample_resolution :: task_resolution where
  "sample_resolution = \<lparr> rs_task_id = 3, rs_title = ''Fix'', rs_status = Runnable, rs_execution_owner = None,
     rs_review_owner = None, rs_blocking_reason = None, rs_acting_capability = Some Dispatcher \<rparr>"

theorem open_work_is_nudged_witness:
  "\<exists>g \<in> set (compute_nudges sample_context sample_members [sample_resolution]).
     g_member g = ''manager-1'' \<and> g_capability g = Dispatcher"
proof -
  have e: "member_is_eligible sample_context ''manager-1'' Dispatcher" by code_simp
  have "list_ex (\<lambda>n. n = ''manager-1'') (map m_name sample_members)" by code_simp
  then have n: "''manager-1'' \<in> m_name ` set sample_members" by (simp add: list_ex_iff del: map_map)
  show ?thesis
    using n by (intro open_work_is_nudged [OF e]) (simp add: sample_resolution_def)
qed

end
