(* ===== verification/Cooldown.thy ===== *)
theory Cooldown
  imports Batty_Prelude
begin

text \<open>
  The growing cooldowns of the dispatcher (\<open>src/team/daemon.rs\<close>, \<open>RescueRecord\<close> and
  \<open>ReleaseRecord\<close>, and their bookkeeping in \<open>src/team/dispatch/queue.rs\<close>). Instants and durations
  are nanoseconds. A \<open>Duration\<close> saturates just below \<open>2^64\<close> seconds; the counters are 32-bit
  and saturate.
\<close>

section \<open>Durations\<close>

definition nanos :: nat where "nanos = 1000000000"
definition max_duration :: nat where "max_duration = 18446744073709551616 * nanos - 1"

definition from_secs :: "u64 \<Rightarrow> nat" where "from_secs s = unat s * nanos"

definition duration_saturating_mul :: "nat \<Rightarrow> nat \<Rightarrow> nat" where
  "duration_saturating_mul d k = min (d * k) max_duration"

definition elapsed :: "nat \<Rightarrow> nat \<Rightarrow> nat" where "elapsed now t = now - t"

definition u32_saturating_add :: "u32 \<Rightarrow> u32 \<Rightarrow> u32" where
  "u32_saturating_add a b = (if unat a + unat b < 4294967296 then a + b else 4294967295)"

definition u32_saturating_sub :: "u32 \<Rightarrow> u32 \<Rightarrow> u32" where
  "u32_saturating_sub a b = (if b \<le> a then a - b else 0)"

text \<open>The factor of the window: \<open>1 << min (count - 1) 4\<close>.\<close>

definition multiplier :: "u32 \<Rightarrow> nat" where
  "multiplier count = unat (push_bit (unat (min (u32_saturating_sub count 1) 4)) (1 :: u32))"

lemma unat_saturating_sub: "unat (u32_saturating_sub a b) = unat a - unat b"
  by (auto simp: u32_saturating_sub_def unat_sub word_le_nat_alt)

lemma unat_saturating_add: "unat (u32_saturating_add a b) = min (unat a + unat b) 4294967295"
proof (cases "unat a + unat b < 4294967296")
  case True
  then have "unat (a + b) = unat a + unat b" by (subst unat_add_lem [symmetric]) simp
  with True show ?thesis by (simp add: u32_saturating_add_def)
qed (simp add: u32_saturating_add_def)

lemma multiplier_nat: "multiplier n = 2 ^ min (unat n - 1) 4"
proof -
  have "unat (min a (4 :: u32)) = min (unat a) 4" for a by (simp add: min_def word_le_nat_alt)
  then have k: "unat (min (u32_saturating_sub n 1) 4) = min (unat n - 1) 4" by (simp add: unat_saturating_sub)
  have "unat (push_bit k (1 :: u32)) = 2 ^ k" if "k \<le> 4" for k :: nat
  proof -
    from that consider "k = 0" | "k = 1" | "k = 2" | "k = 3" | "k = 4" by linarith
    then show ?thesis by cases (simp_all add: push_bit_eq_mult)
  qed
  then show ?thesis by (simp add: multiplier_def k)
qed

lemma multiplier_range: "1 \<le> multiplier n \<and> multiplier n \<le> 16"
proof -
  have "min (unat n - 1) 4 \<le> 4" by simp
  then have "(2::nat) ^ min (unat n - 1) 4 \<le> 2 ^ 4" by (intro power_increasing) simp_all
  then show ?thesis by (simp add: multiplier_nat)
qed

text \<open>A further event doubles the factor until it is sixteen.\<close>

lemma multiplier_step:
  assumes "n \<noteq> 0"
  shows "multiplier (u32_saturating_add n 1) = min 16 (2 * multiplier n)"
proof -
  obtain v where v: "unat n = Suc v" using assms by (metis not0_implies_Suc unat_eq_zero)
  have "min (unat (u32_saturating_add n 1) - 1) 4 = min (Suc v) 4"
    unfolding unat_saturating_add v by (simp add: min_def)
  then have m: "multiplier (u32_saturating_add n 1) = 2 ^ min (Suc v) 4" by (simp only: multiplier_nat)
  have k: "multiplier n = 2 ^ min v 4" by (simp add: multiplier_nat v)
  show ?thesis
  proof (cases "Suc v \<le> 4")
    case True
    then have "v = 0 \<or> v = 1 \<or> v = 2 \<or> v = 3" by linarith
    then show ?thesis unfolding m k by auto
  next
    case False
    then have "min (Suc v) 4 = 4" "min v 4 = 4" by simp_all
    then show ?thesis unfolding m k by simp
  qed
qed

lemma saturating_add_positive: "u32_saturating_add n 1 \<noteq> 0"
proof
  assume "u32_saturating_add n 1 = 0"
  with unat_saturating_add [of n 1] show False by simp
qed

section \<open>The contract of a cascade\<close>

text \<open>A gate closes for the effective window after an event; events inside the cascade window (twice
  as long) make the next window longer, later ones start again.\<close>

locale cascade =
  fixes last_at :: "'r \<Rightarrow> nat" and times :: "'r \<Rightarrow> u32" and mk :: "nat \<Rightarrow> u32 \<Rightarrow> 'r"
    and window :: "nat \<Rightarrow> 'r \<Rightarrow> nat" and gated :: "nat \<Rightarrow> nat \<Rightarrow> 'r \<Rightarrow> bool"
    and cascading :: "nat \<Rightarrow> nat \<Rightarrow> 'r \<Rightarrow> bool" and happens :: "nat \<Rightarrow> nat \<Rightarrow> 'r option \<Rightarrow> 'r"
  assumes window_eq: "window base r = duration_saturating_mul base (multiplier (times r))"
    and gated_iff: "gated now base r \<longleftrightarrow> elapsed now (last_at r) < window base r"
    and cascading_iff: "cascading now base r \<longleftrightarrow> elapsed now (last_at r) < duration_saturating_mul (window base r) 2"
    and happens_None: "happens now base None = mk now 1"
    and happens_Some: "happens now base (Some r) =
      mk now (if cascading now base r then u32_saturating_add (times r) 1 else 1)"
    and last_mk: "last_at (mk t n) = t" and times_mk: "times (mk t n) = n"
begin

lemma window_bounds: "base \<le> max_duration \<Longrightarrow> base \<le> window base r \<and> window base r \<le> 16 * base"
proof -
  assume b: "base \<le> max_duration"
  obtain w where w: "w = base * multiplier (times r)" "base * 1 \<le> w" "w \<le> base * 16"
    using multiplier_range [of "times r"] mult_le_mono2 by blast
  from b w(2,3) have "base \<le> min w max_duration \<and> min w max_duration \<le> 16 * base" by linarith
  then show ?thesis by (simp add: window_eq duration_saturating_mul_def w(1))
qed

lemma gated_cascading: "gated now base r \<Longrightarrow> cascading now base r"
  using multiplier_range [of "times r"]
  by (auto simp: gated_iff cascading_iff window_eq duration_saturating_mul_def)

text \<open>Right after an event the gate is closed for the base window at least, and it opens again after
  sixteen base windows at the latest.\<close>

lemma gate_closes: "base \<le> max_duration \<Longrightarrow> now < last_at r + base \<Longrightarrow> last_at r \<le> now \<Longrightarrow> gated now base r"
  using window_bounds [of base r] by (auto simp: gated_iff elapsed_def)

lemma gate_opens: "base \<le> max_duration \<Longrightarrow> last_at r + 16 * base \<le> now \<Longrightarrow> \<not> gated now base r"
  using window_bounds [of base r] by (auto simp: gated_iff elapsed_def)

lemma happens_last [simp]: "last_at (happens now base r) = now"
  by (cases r) (simp_all add: happens_None happens_Some last_mk)

lemma cascade_doubles:
  assumes "cascading now base r" and "times r \<noteq> 0" and "16 * base \<le> max_duration"
  shows "window base (happens now base (Some r)) = min (16 * base) (2 * window base r)"
proof -
  let ?m = "multiplier (times r)"
  have "base * ?m \<le> base * 16" using multiplier_range [of "times r"] by (intro mult_le_mono2) simp
  with assms(3) have w: "window base r = base * ?m"
    unfolding window_eq duration_saturating_mul_def by linarith
  have "base * min 16 (2 * ?m) \<le> base * 16" by (intro mult_le_mono2) simp
  with assms(3) have "min (base * min 16 (2 * ?m)) max_duration = base * min 16 (2 * ?m)" by linarith
  with assms(1,2) have "window base (happens now base (Some r)) = base * min 16 (2 * ?m)"
    by (simp add: window_eq happens_Some times_mk multiplier_step duration_saturating_mul_def)
  also have "\<dots> = min (base * 16) (base * (2 * ?m))" by (simp add: min_def)
  finally show ?thesis by (simp add: w mult.commute mult.left_commute)
qed

text \<open>A history of events keeps a positive counter and the time of the last event.\<close>

definition history :: "nat \<Rightarrow> nat list \<Rightarrow> 'r option" where
  "history base ts = fold (\<lambda>now r. Some (happens now base r)) ts None"

lemma happens_positive: "times (happens now base r) \<noteq> 0"
proof (cases r)
  case (Some r')
  then show ?thesis using saturating_add_positive by (simp add: happens_Some times_mk)
qed (simp add: happens_None times_mk)

lemma history_snoc: "history base (ts @ [t]) = Some (happens t base (history base ts))"
  by (simp add: history_def)

lemma history_last: "ts \<noteq> [] \<Longrightarrow> \<exists>r. history base ts = Some r \<and> last_at r = last ts"
  by (cases ts rule: rev_cases) (simp_all add: history_snoc)

end

section \<open>Rescued tasks\<close>

record rescue_record =
  last_rescued_at :: nat
  rescue_count :: u32

definition rescue_cooldown :: "nat \<Rightarrow> rescue_record \<Rightarrow> nat" where
  "rescue_cooldown base r = duration_saturating_mul base (multiplier (rescue_count r))"

definition rescue_cascade_window :: "nat \<Rightarrow> rescue_record \<Rightarrow> nat" where
  "rescue_cascade_window base r = duration_saturating_mul (rescue_cooldown base r) 2"

definition rescue_blocked :: "nat \<Rightarrow> nat \<Rightarrow> rescue_record \<Rightarrow> bool" where
  "rescue_blocked now base r = (elapsed now (last_rescued_at r) < rescue_cooldown base r)"

definition rescue_in_cascade :: "nat \<Rightarrow> nat \<Rightarrow> rescue_record \<Rightarrow> bool" where
  "rescue_in_cascade now base r = (elapsed now (last_rescued_at r) < rescue_cascade_window base r)"

definition rescued_again :: "nat \<Rightarrow> nat \<Rightarrow> rescue_record option \<Rightarrow> rescue_record" where
  "rescued_again now base r =
     (case r of
        Some old \<Rightarrow> \<lparr> last_rescued_at = now,
          rescue_count = (if rescue_in_cascade now base old then u32_saturating_add (rescue_count old) 1 else 1) \<rparr>
      | None \<Rightarrow> \<lparr> last_rescued_at = now, rescue_count = 1 \<rparr>)"

type_synonym rescues = "nat \<rightharpoonup> rescue_record"

definition record_task_rescue :: "nat \<Rightarrow> nat \<Rightarrow> nat \<Rightarrow> rescues \<Rightarrow> rescues" where
  "record_task_rescue now base task_id m = m(task_id \<mapsto> rescued_again now base (m task_id))"

definition retain_rescues :: "nat \<Rightarrow> nat \<Rightarrow> rescues \<Rightarrow> rescues" where
  "retain_rescues now base m = (\<lambda>i. opt_filter (rescue_in_cascade now base) (m i))"

definition task_rescue_blocked :: "nat \<Rightarrow> nat \<Rightarrow> rescues \<Rightarrow> nat \<Rightarrow> bool" where
  "task_rescue_blocked now base m i = (case m i of Some r \<Rightarrow> rescue_blocked now base r | None \<Rightarrow> False)"

interpretation rescue: cascade last_rescued_at rescue_count
  "\<lambda>t n. \<lparr> last_rescued_at = t, rescue_count = n \<rparr>" rescue_cooldown rescue_blocked rescue_in_cascade rescued_again
  by unfold_locales (simp_all add: rescue_cooldown_def rescue_blocked_def rescue_in_cascade_def
      rescue_cascade_window_def rescued_again_def)

section \<open>Released tasks\<close>

record release_record =
  last_released_at :: nat
  release_count :: u32

definition release_window :: "nat \<Rightarrow> release_record \<Rightarrow> nat" where
  "release_window base r = duration_saturating_mul base (multiplier (release_count r))"

definition release_cascade_window :: "nat \<Rightarrow> release_record \<Rightarrow> nat" where
  "release_cascade_window base r = duration_saturating_mul (release_window base r) 2"

definition release_excluded :: "nat \<Rightarrow> nat \<Rightarrow> release_record \<Rightarrow> bool" where
  "release_excluded now base r = (elapsed now (last_released_at r) < release_window base r)"

definition release_in_cascade :: "nat \<Rightarrow> nat \<Rightarrow> release_record \<Rightarrow> bool" where
  "release_in_cascade now base r = (elapsed now (last_released_at r) < release_cascade_window base r)"

definition released_again :: "nat \<Rightarrow> nat \<Rightarrow> release_record option \<Rightarrow> release_record" where
  "released_again now base r =
     (case r of
        Some old \<Rightarrow> \<lparr> last_released_at = now,
          release_count = (if release_in_cascade now base old then u32_saturating_add (release_count old) 1 else 1) \<rparr>
      | None \<Rightarrow> \<lparr> last_released_at = now, release_count = 1 \<rparr>)"

type_synonym releases = "nat \<times> string \<rightharpoonup> release_record"

definition record_task_release_by :: "nat \<Rightarrow> nat \<Rightarrow> nat \<Rightarrow> string \<Rightarrow> releases \<Rightarrow> releases" where
  "record_task_release_by now base task_id engineer m =
     m((task_id, engineer) \<mapsto> released_again now base (m (task_id, engineer)))"

definition retain_releases :: "nat \<Rightarrow> nat \<Rightarrow> releases \<Rightarrow> releases" where
  "retain_releases now base m = (\<lambda>k. opt_filter (release_in_cascade now base) (m k))"

definition is_release_excluded :: "nat \<Rightarrow> nat \<Rightarrow> releases \<Rightarrow> nat \<Rightarrow> string \<Rightarrow> bool" where
  "is_release_excluded now base m task_id engineer =
     (case m (task_id, engineer) of Some r \<Rightarrow> release_excluded now base r | None \<Rightarrow> False)"

interpretation release: cascade last_released_at release_count
  "\<lambda>t n. \<lparr> last_released_at = t, release_count = n \<rparr>" release_window release_excluded release_in_cascade released_again
  by unfold_locales (simp_all add: release_window_def release_excluded_def release_in_cascade_def
      release_cascade_window_def released_again_def)

section \<open>Histories of rescues\<close>

definition rescue_history :: "nat \<Rightarrow> (nat \<times> nat) list \<Rightarrow> rescues" where
  "rescue_history base events = fold (\<lambda>(now, i). record_task_rescue now base i) events (\<lambda>_. None)"

lemma history_of_task: "rescue_history base events i = rescue.history base (map fst (filter (\<lambda>e. snd e = i) events))"
proof (induction events rule: rev_induct)
  case (snoc e events)
  have "rescue_history base (events @ [e])
      = record_task_rescue (fst e) base (snd e) (rescue_history base events)"
    by (simp add: rescue_history_def case_prod_beta)
  with snoc show ?case by (cases "snd e = i") (auto simp: record_task_rescue_def rescue.history_snoc)
qed (simp add: rescue_history_def rescue.history_def)

lemma retain_invisible: "now' \<le> now \<Longrightarrow>
    task_rescue_blocked now base (retain_rescues now' base m) i = task_rescue_blocked now base m i"
proof (cases "m i")
  case (Some r)
  assume "now' \<le> now"
  then have "rescue_blocked now base r \<Longrightarrow> rescue_blocked now' base r"
    by (simp add: rescue_blocked_def elapsed_def)
  then show ?thesis using Some rescue.gated_cascading [of now' base r]
    by (auto simp: task_rescue_blocked_def retain_rescues_def opt_filter_def)
qed (simp add: task_rescue_blocked_def retain_rescues_def)

section \<open>Properties\<close>

text \<open>
  C36. The gate of a rescued task in any history of rescues: it is closed for the base cooldown
  after the last rescue of the task and open after sixteen base cooldowns at the latest,
  whatever else was rescued, and dropping the records outside their cascade window changes
  nothing for the dispatcher.
\<close>

theorem rescue_gate_bounds:
  assumes "base \<le> max_duration" and "filter (\<lambda>e. snd e = i) events = es @ [(t, i)]" and "t \<le> now" and "now' \<le> now"
  shows "let gate = task_rescue_blocked now base (retain_rescues now' base (rescue_history base events)) i in
    (now < t + base \<longrightarrow> gate) \<and> (t + 16 * base \<le> now \<longrightarrow> \<not> gate)"
proof -
  have "map fst (filter (\<lambda>e. snd e = i) events) = map fst es @ [t]" using assms(2) by simp
  with rescue.history_last [of "map fst es @ [t]" base] obtain r where
    r: "rescue_history base events i = Some r" "last_rescued_at r = t" by (auto simp: history_of_task)
  show ?thesis
    using rescue.gate_closes [OF assms(1), of now r] rescue.gate_opens [OF assms(1), of r now] r assms(3)
    unfolding Let_def retain_invisible [OF assms(4)] by (simp add: task_rescue_blocked_def)
qed

theorem rescue_gate_bounds_witness:
  "task_rescue_blocked 130 60 (retain_rescues 110 60 (rescue_history 60 [(0, 7), (50, 8), (100, 7)])) 7
   \<and> \<not> task_rescue_blocked 1060 60 (retain_rescues 110 60 (rescue_history 60 [(0, 7), (50, 8), (100, 7)])) 7"
proof -
  have b: "60 \<le> max_duration" by (simp add: max_duration_def nanos_def)
  have e: "filter (\<lambda>e. snd e = 7) [(0, 7), (50, 8), (100, 7)] = [(0 :: nat, 7 :: nat)] @ [(100, 7)]" by simp
  from rescue_gate_bounds [OF b e, of 130 110] rescue_gate_bounds [OF b e, of 1060 110] show ?thesis
    by simp
qed

text \<open>
  C12. Backing off, in any history of rescues: a rescue of a task within twice its current cooldown after its last
  rescue doubles the cooldown until it is sixteen times the base, and a later one starts again with
  the base cooldown (for base cooldowns of which thirty-two fit into a duration).
\<close>

theorem rescue_backoff:
  assumes "32 * base \<le> max_duration" and "rescue_history base events i = Some r"
  shows "rescue_history base (events @ [(now, i)]) i = Some r'
    \<Longrightarrow> rescue_cooldown base r' =
      (if elapsed now (last_rescued_at r) < 2 * rescue_cooldown base r
       then min (16 * base) (2 * rescue_cooldown base r) else base)"
proof -
  assume "rescue_history base (events @ [(now, i)]) i = Some r'"
  then have r': "r' = rescued_again now base (Some r)"
    using assms(2) by (simp add: rescue_history_def record_task_rescue_def)
  have pos: "rescue_count r \<noteq> 0"
    using assms(2) rescue.happens_positive unfolding history_of_task
    by (cases "map fst (filter (\<lambda>e. snd e = i) events)" rule: rev_cases)
      (auto simp: rescue.history_def)
  have base: "base \<le> max_duration" "16 * base \<le> max_duration" using assms(1) by linarith+
  with rescue.window_bounds [of base r] assms(1) have "2 * rescue_cooldown base r \<le> max_duration" by linarith
  then have c: "rescue_in_cascade now base r \<longleftrightarrow> elapsed now (last_rescued_at r) < 2 * rescue_cooldown base r"
    by (simp add: rescue_in_cascade_def rescue_cascade_window_def duration_saturating_mul_def mult.commute)
  show ?thesis
  proof (cases "rescue_in_cascade now base r")
    case True
    with rescue.cascade_doubles [OF True pos base(2)] c show ?thesis by (simp add: r')
  next
    case False
    then have "rescue_count r' = 1" by (simp add: r' rescued_again_def)
    with base(1) have "rescue_cooldown base r' = base"
      by (simp add: rescue_cooldown_def multiplier_nat duration_saturating_mul_def)
    with False c show ?thesis by simp
  qed
qed

theorem rescue_backoff_witness:
  "\<exists>r. rescue_history 60 [(0, 7), (100, 7), (200, 7)] 7 = Some r \<and> rescue_cooldown 60 r = 240"
proof -
  let ?r = "\<lparr> last_rescued_at = 100, rescue_count = 2 \<rparr>" and ?r' = "\<lparr> last_rescued_at = 200, rescue_count = 3 \<rparr>"
  have b: "32 * 60 \<le> max_duration" by (simp add: max_duration_def nanos_def)
  have m: "multiplier 1 = 1" "multiplier 2 = 2" by (simp_all add: multiplier_nat)
  have u: "u32_saturating_add 1 1 = 2" "u32_saturating_add 2 1 = 3" by (simp_all add: u32_saturating_add_def)
  have big: "(240::nat) \<le> max_duration" by (simp add: max_duration_def nanos_def)
  note d = rescue_history_def record_task_rescue_def rescued_again_def rescue_in_cascade_def rescue_cascade_window_def
    rescue_cooldown_def duration_saturating_mul_def elapsed_def
  have h: "rescue_history 60 [(0, 7), (100, 7)] 7 = Some ?r" using big by (simp add: d m u)
  have h': "rescue_history 60 ([(0, 7), (100, 7)] @ [(200, 7)]) 7 = Some ?r'" using big by (simp add: d m u)
  from rescue_backoff [OF b h h'] big h' show ?thesis by (simp add: d m)
qed

end
