(* ===== verification/Dispatch_Select.thy ===== *)
theory Dispatch_Select
  imports Resolver Deps
begin

text \<open>
  Which tasks the dispatcher may hand to an engineer (\<open>src/team/dispatch/queue.rs\<close>): the filters
  on the board, the verification retries, and the guard that keeps overlap dependencies from
  closing a cycle.
\<close>

section \<open>Filters\<close>

definition dep_status_satisfied :: "string \<Rightarrow> bool" where
  "dep_status_satisfied s = closed_status s"

definition body_dependencies_satisfied :: "task \<Rightarrow> (nat \<rightharpoonup> string) \<Rightarrow> bool" where
  "body_dependencies_satisfied task status_of =
     (case parse_body_dependency_ids (t_description task) of
        None \<Rightarrow> True
      | Some ids \<Rightarrow> ids \<noteq> [] \<and> list_all (\<lambda>d. case status_of d of Some s \<Rightarrow> dep_status_satisfied s | None \<Rightarrow> False) ids)"

definition known_deps_satisfied :: "task \<Rightarrow> (nat \<rightharpoonup> string) \<Rightarrow> bool" where
  "known_deps_satisfied task status_of =
     list_all (\<lambda>d. case status_of d of Some s \<Rightarrow> dep_status_satisfied s | None \<Rightarrow> True) (t_depends_on task)"

definition task_has_excluded_tag :: "task \<Rightarrow> string list \<Rightarrow> bool" where
  "task_has_excluded_tag task excluded =
     (if excluded = [] then False
      else list_ex (\<lambda>tag. list_ex (\<lambda>e. eq_ignore_case e tag) excluded) (t_tags task))"

definition verification_retry_required_metadata :: "libs \<Rightarrow> (string \<rightharpoonup> string) \<Rightarrow> task \<Rightarrow> workflow_metadata option" where
  "verification_retry_required_metadata L files task =
     Option.bind (files (t_source_path task)) (\<lambda>content.
       case read_workflow_metadata L content of
         Inl _ \<Rightarrow> None
       | Inr md \<Rightarrow> if md_tests_passed md = Some False \<and> md_outcome md = Some ''verification_retry_required''
                      \<and> md_artifacts md \<noteq> [] then Some md else None)"

definition verification_retry_assignment_context :: "libs \<Rightarrow> (string \<rightharpoonup> string) \<Rightarrow> task \<Rightarrow> string option" where
  "verification_retry_assignment_context L files task =
     map_option (\<lambda>md. join [newline]
         ([''Verification retry required.'', ''Outcome: verification_retry_required.'']
          @ (case t_claimed_by task of Some owner \<Rightarrow> [''Previous owner: '' @ owner @ ''.''] | None \<Rightarrow> [])
          @ (if md_artifacts md = [] then []
             else [''Latest verification artifact: '' @ last (md_artifacts md) @ ''.''])))
       (verification_retry_required_metadata L files task)"

text \<open>What one selection depends on beside the board.\<close>

record selection =
  s_queued :: "nat set"
  s_excluded_tags :: "string list"
  s_non_engineers :: "string set"
  s_rescued :: "nat \<Rightarrow> bool"
  s_retry :: "nat set"

definition available_task :: "libs \<Rightarrow> int \<Rightarrow> selection \<Rightarrow> (nat \<rightharpoonup> string) \<Rightarrow> task \<Rightarrow> bool" where
  "available_task L now sel status_of task =
     (let retry = t_id task \<in> s_retry sel in
      (t_status task = ''backlog'' \<or> t_status task = ''todo'' \<or> retry)
      \<and> (t_claimed_by task = None \<or> retry)
      \<and> t_blocked task = None
      \<and> t_blocked_on task = None
      \<and> \<not> is_schedule_blocked L now task
      \<and> t_id task \<notin> s_queued sel
      \<and> \<not> task_has_excluded_tag task (s_excluded_tags sel)
      \<and> \<not> s_rescued sel (t_id task)
      \<and> (case t_assignee task of Some name \<Rightarrow> name \<notin> s_non_engineers sel | None \<Rightarrow> True)
      \<and> (if t_assignee task \<noteq> None then True
         else (case parse_body_owner_role (t_description task) of
                 Some owner \<Rightarrow> owner \<notin> s_non_engineers sel
               | None \<Rightarrow> True))
      \<and> known_deps_satisfied task status_of
      \<and> body_dependencies_satisfied task status_of)"

definition dispatch_key :: "task \<Rightarrow> nat \<times> nat" where
  "dispatch_key t = (dispatch_priority_rank (t_priority t), t_id t)"

definition available_dispatch_tasks :: "libs \<Rightarrow> int \<Rightarrow> selection \<Rightarrow> task list \<Rightarrow> task list" where
  "available_dispatch_tasks L now sel tasks =
     sort_key dispatch_key (filter (available_task L now sel (status_by_id tasks)) tasks)"

section \<open>Overlap dependencies without cycles\<close>

definition deps_by_id :: "task list \<Rightarrow> (nat \<times> nat list) list" where
  "deps_by_id tasks = rev (map (\<lambda>t. (t_id t, t_depends_on t)) tasks)"

text \<open>The neighbours of a node: \<open>None\<close> when the candidate is one of them, otherwise the stack with
  the unvisited ones on top.\<close>

fun push_neighbors :: "nat \<Rightarrow> nat set \<Rightarrow> nat list \<Rightarrow> nat list \<Rightarrow> nat list option" where
  "push_neighbors candidate seen [] stack = Some stack"
| "push_neighbors candidate seen (next # ns) stack =
     (if next = candidate then None
      else push_neighbors candidate seen ns (if next \<notin> seen then next # stack else stack))"

function search_candidate :: "(nat \<times> nat list) list \<Rightarrow> nat \<Rightarrow> nat set \<Rightarrow> nat list \<Rightarrow> bool" where
  "search_candidate deps candidate seen [] = False"
| "search_candidate deps candidate seen (node # stack) =
     (if node \<in> seen then search_candidate deps candidate seen stack
      else
        (case map_of deps node of
           None \<Rightarrow> search_candidate deps candidate (insert node seen) stack
         | Some neighbors \<Rightarrow>
             (case push_neighbors candidate (insert node seen) neighbors stack of
                None \<Rightarrow> True
              | Some stack' \<Rightarrow> search_candidate deps candidate (insert node seen) stack')))"
  by pat_completeness auto
termination
proof (relation "(\<lambda>(deps, c, seen, stack). card (fst ` set deps - seen)) <*mlex*> measure (\<lambda>(deps, c, seen, stack). length stack)")
  show "wf ((\<lambda>(deps, c, seen, stack). card (fst ` set deps - seen)) <*mlex*> measure (\<lambda>(deps, c, seen, stack). length stack))"
    by (simp add: wf_mlex)
next
  fix deps :: "(nat \<times> nat list) list" and candidate seen node stack
  assume "node \<notin> seen" "map_of deps node = None"
  then have "fst ` set deps - insert node seen = fst ` set deps - seen"
    by (auto simp: map_of_eq_None_iff)
  then show "((deps, candidate, insert node seen, stack), deps, candidate, seen, node # stack)
      \<in> (\<lambda>(deps, c, seen, stack). card (fst ` set deps - seen)) <*mlex*> measure (\<lambda>(deps, c, seen, stack). length stack)"
    by (intro mlex_leq) simp_all
next
  fix deps :: "(nat \<times> nat list) list" and candidate seen node stack ns stack'
  assume n: "node \<notin> seen" "map_of deps node = Some ns"
  then have "node \<in> fst ` set deps - seen" by (force dest: map_of_SomeD)
  then have "card (fst ` set deps - insert node seen) < card (fst ` set deps - seen)"
    by (intro psubset_card_mono) auto
  then show "((deps, candidate, insert node seen, stack'), deps, candidate, seen, node # stack)
      \<in> (\<lambda>(deps, c, seen, stack). card (fst ` set deps - seen)) <*mlex*> measure (\<lambda>(deps, c, seen, stack). length stack)"
    by (intro mlex_less) simp
qed (simp add: mlex_iff)

definition reaches_candidate :: "task list \<Rightarrow> nat \<Rightarrow> nat \<Rightarrow> bool" where
  "reaches_candidate tasks candidate start =
     (if start = candidate then True else search_candidate (deps_by_id tasks) candidate {} [start])"

definition split_acyclic_blocking_ids :: "task list \<Rightarrow> nat \<Rightarrow> nat list \<Rightarrow> nat list \<times> nat list" where
  "split_acyclic_blocking_ids tasks candidate ids =
     (filter (\<lambda>i. \<not> reaches_candidate tasks candidate i) ids, filter (reaches_candidate tasks candidate) ids)"

section \<open>The search is exact\<close>

definition dep_edges :: "(nat \<times> nat list) list \<Rightarrow> (nat \<times> nat) set" where
  "dep_edges deps = {(x, y). \<exists>ns. map_of deps x = Some ns \<and> y \<in> set ns}"

lemma push_None: "push_neighbors c seen ns stack = None \<longleftrightarrow> c \<in> set ns"
  by (induction c seen ns stack rule: push_neighbors.induct) auto

lemma push_Some: "push_neighbors c seen ns stack = Some stack' \<Longrightarrow> set stack' = set stack \<union> (set ns - seen)"
  by (induction c seen ns stack rule: push_neighbors.induct) (auto split: if_splits)

definition frontier_ok :: "(nat \<times> nat list) list \<Rightarrow> nat \<Rightarrow> nat set \<Rightarrow> nat list \<Rightarrow> bool" where
  "frontier_ok deps c seen stack \<longleftrightarrow>
     (\<forall>x \<in> seen. \<forall>y. (x, y) \<in> dep_edges deps \<longrightarrow> y \<noteq> c \<and> (y \<in> seen \<or> y \<in> set stack))"

lemma visited_reaches:
  assumes "frontier_ok deps c seen stack" and "(x, c) \<in> (dep_edges deps)\<^sup>+" and "x \<in> seen"
  shows "\<exists>s \<in> set stack. (s, c) \<in> (dep_edges deps)\<^sup>+"
  using assms(2,3)
proof (induction rule: converse_trancl_induct)
  case (base y)
  with assms(1) show ?case unfolding frontier_ok_def by blast
next
  case (step y z)
  with assms(1) have "z \<in> seen \<or> z \<in> set stack" unfolding frontier_ok_def by blast
  with step show ?case by blast
qed

lemma search_exact:
  "frontier_ok deps c seen stack \<Longrightarrow>
   search_candidate deps c seen stack \<longleftrightarrow> (\<exists>s \<in> set stack. (s, c) \<in> (dep_edges deps)\<^sup>+)"
proof (induction deps c seen stack rule: search_candidate.induct)
  case (2 deps c seen node stack)
  show ?case
  proof (cases "node \<in> seen")
    case True
    with 2(4) have f: "frontier_ok deps c seen stack" unfolding frontier_ok_def by auto
    have "search_candidate deps c seen (node # stack) = search_candidate deps c seen stack" using True by simp
    also have "\<dots> \<longleftrightarrow> (\<exists>s \<in> set stack. (s, c) \<in> (dep_edges deps)\<^sup>+)" by (rule 2(1) [OF True f])
    also have "\<dots> \<longleftrightarrow> (\<exists>s \<in> set (node # stack). (s, c) \<in> (dep_edges deps)\<^sup>+)"
      unfolding list.set using visited_reaches [OF f _ True] by blast
    finally show ?thesis .
  next
    case False
    show ?thesis
    proof (cases "map_of deps node")
      case None
      have no: "(node, y) \<notin> dep_edges deps" for y using None by (simp add: dep_edges_def)
      then have out: "(node, c) \<notin> (dep_edges deps)\<^sup>+" by (blast dest: tranclD)
      have f: "frontier_ok deps c (insert node seen) stack"
        using 2(4) no False unfolding frontier_ok_def by auto
      have "search_candidate deps c seen (node # stack) = search_candidate deps c (insert node seen) stack"
        using False None by simp
      also have "\<dots> \<longleftrightarrow> (\<exists>s \<in> set stack. (s, c) \<in> (dep_edges deps)\<^sup>+)" by (rule 2(2) [OF False None f])
      finally show ?thesis using out by simp
    next
      case (Some ns)
      have edge: "(node, y) \<in> dep_edges deps \<longleftrightarrow> y \<in> set ns" for y using Some by (simp add: dep_edges_def)
      show ?thesis
      proof (cases "push_neighbors c (insert node seen) ns stack")
        case None
        then have "(node, c) \<in> (dep_edges deps)\<^sup>+" by (simp add: push_None edge r_into_trancl)
        moreover have "search_candidate deps c seen (node # stack)" using False Some None by simp
        ultimately show ?thesis by simp
      next
        case (Some stack')
        note st = push_Some [OF Some]
        have notc: "c \<notin> set ns" using Some push_None [of c "insert node seen" ns stack] by auto
        have f: "frontier_ok deps c (insert node seen) stack'"
          using 2(4) edge notc st unfolding frontier_ok_def by auto
        have "search_candidate deps c seen (node # stack) = search_candidate deps c (insert node seen) stack'"
          using False \<open>map_of deps node = Some ns\<close> Some by simp
        also have "\<dots> \<longleftrightarrow> (\<exists>s \<in> set stack'. (s, c) \<in> (dep_edges deps)\<^sup>+)"
          by (rule 2(3) [OF False \<open>map_of deps node = Some ns\<close> Some f])
        also have "\<dots> \<longleftrightarrow> (\<exists>s \<in> set (node # stack). (s, c) \<in> (dep_edges deps)\<^sup>+)"
        proof
          assume "\<exists>s \<in> set stack'. (s, c) \<in> (dep_edges deps)\<^sup>+"
          then obtain s where s: "s \<in> set stack'" "(s, c) \<in> (dep_edges deps)\<^sup>+" by blast
          show "\<exists>s \<in> set (node # stack). (s, c) \<in> (dep_edges deps)\<^sup>+"
          proof (cases "s \<in> set stack")
            case False
            with s(1) st edge have "(node, s) \<in> dep_edges deps" by blast
            from this s(2) have "(node, c) \<in> (dep_edges deps)\<^sup>+" by (rule trancl_into_trancl2)
            then show ?thesis by simp
          qed (use s in auto)
        next
          assume "\<exists>s \<in> set (node # stack). (s, c) \<in> (dep_edges deps)\<^sup>+"
          then show "\<exists>s \<in> set stack'. (s, c) \<in> (dep_edges deps)\<^sup>+"
            using st visited_reaches [OF f, of node] by auto
        qed
        finally show ?thesis .
      qed
    qed
  qed
qed simp

lemma reaches_candidate_iff: "reaches_candidate tasks c i \<longleftrightarrow> (i, c) \<in> (dep_edges (deps_by_id tasks))\<^sup>*"
  using search_exact [of "deps_by_id tasks" c "{}" "[i]"]
  by (auto simp: reaches_candidate_def frontier_ok_def rtrancl_eq_or_trancl)

lemma new_edges_no_detour:
  "(x, c) \<in> (E \<union> {c} \<times> S)\<^sup>* \<Longrightarrow> (x, c) \<in> E\<^sup>*"
proof (induction rule: converse_rtrancl_induct)
  case (step y z)
  then show ?case by (metis Un_iff converse_rtrancl_into_rtrancl mem_Sigma_iff rtrancl.rtrancl_refl singletonD)
qed simp

lemma acyclic_fan:
  assumes "finite S" and "acyclic E" and "\<forall>s \<in> S. (s, c) \<notin> E\<^sup>*"
  shows "acyclic (E \<union> {c} \<times> S)"
  using assms(1,3)
proof (induction S)
  case empty
  with assms(2) show ?case by simp
next
  case (insert s S)
  have eq: "E \<union> {c} \<times> insert s S = insert (c, s) (E \<union> {c} \<times> S)" by auto
  have "(s, c) \<notin> (E \<union> {c} \<times> S)\<^sup>*"
  proof
    assume "(s, c) \<in> (E \<union> {c} \<times> S)\<^sup>*"
    from new_edges_no_detour [OF this] insert.prems show False by simp
  qed
  moreover have "acyclic (E \<union> {c} \<times> S)" using insert.IH insert.prems by simp
  ultimately show ?case unfolding eq by (simp only: acyclic_insert simp_thms)
qed

lemma eq_ignore_case_sym: "eq_ignore_case a b = eq_ignore_case b a"
  by (auto simp: eq_ignore_case_def)



section \<open>Properties\<close>

text \<open>
  C15. The guard against overlap cycles is exact: the search ends on every graph, the blocking ids
  are split without loss, all safe ids together can be added to the dependencies of the
  candidate without closing a cycle, and each rejected id would close one.
\<close>

theorem overlap_guard_exact:
  assumes "acyclic (dep_edges (deps_by_id tasks))" and "split_acyclic_blocking_ids tasks c ids = (safe, rejected)"
  shows "acyclic (dep_edges (deps_by_id tasks) \<union> {c} \<times> set safe)
    \<and> (\<forall>i \<in> set rejected. \<not> acyclic (insert (c, i) (dep_edges (deps_by_id tasks))))
    \<and> mset safe + mset rejected = mset ids"
proof -
  from assms(2) have parts: "safe = filter (\<lambda>i. \<not> reaches_candidate tasks c i) ids"
    "rejected = filter (reaches_candidate tasks c) ids" by (simp_all add: split_acyclic_blocking_ids_def)
  have "acyclic (dep_edges (deps_by_id tasks) \<union> {c} \<times> set safe)"
    by (intro acyclic_fan assms(1)) (auto simp: parts reaches_candidate_iff)
  moreover have "\<forall>i \<in> set rejected. \<not> acyclic (insert (c, i) (dep_edges (deps_by_id tasks)))"
    by (auto simp: parts reaches_candidate_iff acyclic_insert)
  moreover have "mset safe + mset rejected = mset ids"
    unfolding parts mset_filter by (metis add.commute multiset_partition)
  ultimately show ?thesis by blast
qed

definition overlap_board :: "task list" where
  "overlap_board =
     [sample_task\<lparr>t_id := 553, t_depends_on := [554]\<rparr>, sample_task\<lparr>t_id := 554\<rparr>,
      sample_task\<lparr>t_id := 560\<rparr>]"

theorem overlap_guard_exact_witness:
  "acyclic (dep_edges (deps_by_id overlap_board) \<union> {554} \<times> {560})
   \<and> \<not> acyclic (insert (554, 553) (dep_edges (deps_by_id overlap_board)))"
proof -
  have e: "dep_edges (deps_by_id overlap_board) = {(553, 554)}"
    by (auto simp: dep_edges_def deps_by_id_def overlap_board_def sample_task_def split: if_splits)
  have a: "acyclic (dep_edges (deps_by_id overlap_board))"
    unfolding e by (simp add: acyclic_insert) (simp add: acyclic_def)
  have s: "split_acyclic_blocking_ids overlap_board 554 [553, 560] = ([560], [553])" by code_simp
  from overlap_guard_exact [OF a s] show ?thesis by simp
qed


definition open_selection :: "member_instance list \<Rightarrow> selection" where
  "open_selection members = \<lparr> s_queued = {}, s_excluded_tags = [], s_non_engineers = non_engineer_names members,
     s_rescued = (\<lambda>_. False), s_retry = {} \<rparr>"


text \<open>A dependency that is not on the board holds a task back for the resolver and not for the
  dispatcher.\<close>

lemma missing_dependency_dispatched:
  "let t = sample_task\<lparr>t_status := ''todo'', t_blocked := None, t_depends_on := [99]\<rparr> in
   available_dispatch_tasks plain_libs 0 (open_selection sample_members) [t] = [t]
   \<and> dispatch_blocking_reason plain_libs 0 (\<lambda>_. None) t [t] = Some ''unmet dependency #99 (missing)''"
  unfolding Let_def
proof
  let ?t = "sample_task\<lparr>t_status := ''todo'', t_blocked := None, t_depends_on := [99]\<rparr>"
  have "available_task plain_libs 0 (open_selection sample_members) (status_by_id [?t]) ?t" by code_simp
  then show "available_dispatch_tasks plain_libs 0 (open_selection sample_members) [?t] = [?t]"
    by (simp add: available_dispatch_tasks_def)
  show "dispatch_blocking_reason plain_libs 0 (\<lambda>_. None) ?t [?t] = Some ''unmet dependency #99 (missing)''" by code_simp
qed

end
