(* ===== verification/Allocation.thy ===== *)
theory Allocation
  imports Complex_Main "HOL-Library.Option_ord" "HOL-Library.Multiset" Body_Refs Resolver
begin

text \<open>
  The choice of an engineer by past work (\<open>src/team/allocation.rs\<close>): the profiles built from
  persisted completions, the tasks of the board and telemetry, the score of an engineer for a
  task, and the ranking with its telemetry fallback.

  A finite \<open>f64\<close> is a rational number and its comparisons are exact, so rates and durations are
  rationals; the one operation that rounds, \<open>(rate * 100.0).round() as i32\<close>, is the parameter
  \<open>percent\<close>. Scores are \<open>i32\<close> values that wrap as in a release build. The persisted completions
  and the telemetry database are inputs; the files behind the tasks are read through a map.
\<close>

section \<open>Comparators\<close>

datatype ordering = Less | Equal | Greater

definition cmp_of :: "'a::linorder \<Rightarrow> 'a \<Rightarrow> ordering" where
  "cmp_of a b = (if a < b then Less else if a = b then Equal else Greater)"

definition then_with :: "ordering \<Rightarrow> ordering \<Rightarrow> ordering" where
  "then_with a b = (case a of Equal \<Rightarrow> b | _ \<Rightarrow> a)"

text \<open>\<open>slice::sort_by\<close>, which is stable.\<close>

fun insert_by :: "('a \<Rightarrow> 'a \<Rightarrow> ordering) \<Rightarrow> 'a \<Rightarrow> 'a list \<Rightarrow> 'a list" where
  "insert_by cmp x [] = [x]"
| "insert_by cmp x (y # ys) = (if cmp x y = Greater then y # insert_by cmp x ys else x # y # ys)"

definition sort_by :: "('a \<Rightarrow> 'a \<Rightarrow> ordering) \<Rightarrow> 'a list \<Rightarrow> 'a list" where
  "sort_by cmp xs = foldr (insert_by cmp) xs []"

section \<open>Profiles\<close>

record engineer_performance =
  pf_task_secs :: "rat option"
  pf_lines_per_hour :: "rat option"
  pf_first_pass :: "rat option"
  pf_context_exhaustion :: "rat option"

record engineer_profile =
  ep_name :: string
  ep_completed_ids :: "nat list"
  ep_files :: "string set"
  ep_tags :: "string set"
  ep_active :: u32
  ep_completions :: u32
  ep_conflicts :: u32
  ep_performance :: "engineer_performance option"
  ep_samples :: u32
  ep_rate :: rat
  ep_task_secs :: "rat option"
  ep_first_pass :: "rat option"

definition default_profile :: "string \<Rightarrow> engineer_profile" where
  "default_profile name = \<lparr> ep_name = name, ep_completed_ids = [], ep_files = {}, ep_tags = {}, ep_active = 0,
     ep_completions = 0, ep_conflicts = 0, ep_performance = None, ep_samples = 0, ep_rate = 0,
     ep_task_secs = None, ep_first_pass = None \<rparr>"

record persisted_completion =
  pc_engineer :: string
  pc_task_id :: nat
  pc_completed_at :: string
  pc_paths :: "string list"
  pc_tags :: "string list"
  pc_conflict :: bool

record telemetry_stats =
  ts_samples :: u32
  ts_rate :: rat
  ts_task_secs :: "rat option"
  ts_first_pass :: "rat option"

datatype allocation_strategy = RoundRobin | Scored

record allocation_policy =
  ap_strategy :: allocation_strategy
  ap_tag_weight :: "32 word"
  ap_file_overlap_weight :: "32 word"
  ap_load_penalty :: "32 word"
  ap_conflict_penalty :: "32 word"
  ap_experience_bonus :: "32 word"

definition default_allocation :: allocation_policy where
  "default_allocation = \<lparr> ap_strategy = Scored, ap_tag_weight = 15, ap_file_overlap_weight = 10,
     ap_load_penalty = 8, ap_conflict_penalty = 12, ap_experience_bonus = 3 \<rparr>"

section \<open>Paths\<close>

text \<open>\<open>Path::parent\<close> of a path that is not empty. The last component is dropped with the empty parts and
  dots around it; a leading dot of a relative path is a component of its own.\<close>

fun drop_trailing :: "bool \<Rightarrow> string list \<Rightarrow> string list" where
  "drop_trailing absolute [] = []"
| "drop_trailing absolute (p # ps) =
     (if p = [] \<or> p = ''.'' \<and> (absolute \<or> ps \<noteq> []) then drop_trailing absolute ps else p # ps)"

definition parent_dir :: "string \<Rightarrow> string option" where
  "parent_dir s =
     (let absolute = starts_with ''/'' s;
          parts = (if absolute then tl else id) (split_by (\<lambda>ch. ch = CHR ''/'') s)
      in
      case drop_trailing absolute (rev parts) of
        [] \<Rightarrow> None
      | _ # before \<Rightarrow>
          (let dir = (if absolute then ''/'' else []) @ join ''/'' (rev (drop_trailing absolute before))
           in if dir = [] then None else Some dir))"

definition extract_frontmatter :: "string \<Rightarrow> string option" where
  "extract_frontmatter content =
     Option.bind (strip_prefix fence (trim_start content)) (\<lambda>rest.
       map_option fst (split_once closing_fence (strip_newline rest)))"

text \<open>The contents behind a source path are absent for an empty or missing path.\<close>

definition load_changed_paths :: "libs \<Rightarrow> string option \<Rightarrow> string list" where
  "load_changed_paths L file =
     (case Option.bind file extract_frontmatter of
        None \<Rightarrow> []
      | Some frontmatter \<Rightarrow>
          (case Option.bind (yaml_parse L frontmatter)
                  (\<lambda>m. field_default [] (de_seq (de_string L)) m ''changed_paths'') of
             None \<Rightarrow> []
           | Some ps \<Rightarrow> ps))"

definition task_hints_at :: "libs \<Rightarrow> (string \<rightharpoonup> string) \<Rightarrow> task \<Rightarrow> task_error + string list" where
  "task_hints_at L files t =
     task_file_hints L (if t_source_path t = [] then None else files (t_source_path t)) t"

definition task_profile_paths :: "libs \<Rightarrow> (string \<rightharpoonup> string) \<Rightarrow> task \<Rightarrow> task_error + string set" where
  "task_profile_paths L files t =
     res_bind (task_hints_at L files t) (\<lambda>hints.
       Inr (set hints \<union> set (load_changed_paths L
              (if t_source_path t = [] then None else files (t_source_path t)))))"

definition task_hint_directories :: "libs \<Rightarrow> (string \<rightharpoonup> string) \<Rightarrow> task \<Rightarrow> string set" where
  "task_hint_directories L files t =
     set (List.map_filter parent_dir (case task_hints_at L files t of Inl _ \<Rightarrow> [] | Inr hints \<Rightarrow> hints))"

section \<open>Building the profiles\<close>

definition task_is_active_for_load :: "task \<Rightarrow> bool" where
  "task_is_active_for_load t =
     (t_status t \<in> set [''todo'', ''backlog'', ''in-progress'', ''review'', ''blocked''])"

definition task_has_conflict_signal :: "task \<Rightarrow> bool" where
  "task_has_conflict_signal t =
     (let blocked = (case t_blocked t of Some r \<Rightarrow> r | None \<Rightarrow> []);
          blocked_on = (case t_blocked_on t of Some r \<Rightarrow> r | None \<Rightarrow> []);
          description = lowercase (t_description t)
      in contains ''conflict'' (lowercase blocked) \<or> contains ''conflict'' (lowercase blocked_on)
         \<or> contains ''merge conflict'' description \<or> contains ''rebase conflict'' description)"

definition apply_completed_profile ::
  "nat \<Rightarrow> string set \<Rightarrow> string set \<Rightarrow> bool \<Rightarrow> engineer_profile \<Rightarrow> engineer_profile" where
  "apply_completed_profile i tags changed conflict p = p\<lparr>
     ep_completed_ids := ep_completed_ids p @ [i],
     ep_completions := ep_completions p + 1,
     ep_tags := ep_tags p \<union> tags,
     ep_files := ep_files p \<union> changed,
     ep_conflicts := (if conflict then ep_conflicts p + 1 else ep_conflicts p)\<rparr>"

type_synonym profiles = "string \<rightharpoonup> engineer_profile"

fun apply_persisted ::
  "persisted_completion list \<Rightarrow> profiles \<times> (string \<times> nat) set \<Rightarrow> profiles \<times> (string \<times> nat) set" where
  "apply_persisted [] st = st"
| "apply_persisted (r # rs) (ps, keys) =
     apply_persisted rs
       (case ps (pc_engineer r) of
          None \<Rightarrow> (ps, keys)
        | Some p \<Rightarrow>
            (ps(pc_engineer r \<mapsto> apply_completed_profile (pc_task_id r) (set (pc_tags r)) (set (pc_paths r)) (pc_conflict r) p),
             insert (pc_engineer r, pc_task_id r) keys))"

definition apply_board_task ::
  "libs \<Rightarrow> (string \<rightharpoonup> string) \<Rightarrow> task \<Rightarrow> profiles \<times> (string \<times> nat) set
     \<Rightarrow> task_error + profiles \<times> (string \<times> nat) set" where
  "apply_board_task L files t = (\<lambda>(ps, keys).
     case t_claimed_by t of
       None \<Rightarrow> Inr (ps, keys)
     | Some owner \<Rightarrow>
         (case ps owner of
            None \<Rightarrow> Inr (ps, keys)
          | Some p \<Rightarrow>
              if t_status t = ''done'' then
                (if (owner, t_id t) \<in> keys then Inr (ps, keys)
                 else res_bind (task_profile_paths L files t) (\<lambda>changed.
                   Inr (ps(owner \<mapsto> apply_completed_profile (t_id t) (set (t_tags t)) changed
                                 (task_has_conflict_signal t) p),
                        insert (owner, t_id t) keys)))
              else if task_is_active_for_load t then
                res_bind (task_profile_paths L files t) (\<lambda>active.
                  Inr (ps(owner \<mapsto> p\<lparr>ep_active := ep_active p + 1, ep_files := ep_files p \<union> active,
                         ep_conflicts := (if task_has_conflict_signal t then ep_conflicts p + 1 else ep_conflicts p)\<rparr>),
                       keys))
              else Inr (ps, keys)))"

fun apply_board_tasks ::
  "libs \<Rightarrow> (string \<rightharpoonup> string) \<Rightarrow> task list \<Rightarrow> profiles \<times> (string \<times> nat) set
     \<Rightarrow> task_error + profiles \<times> (string \<times> nat) set" where
  "apply_board_tasks L files [] st = Inr st"
| "apply_board_tasks L files (t # ts) st =
     res_bind (apply_board_task L files t st) (apply_board_tasks L files ts)"

definition apply_telemetry :: "telemetry_stats \<Rightarrow> engineer_profile \<Rightarrow> engineer_profile" where
  "apply_telemetry s p = p\<lparr>ep_samples := ts_samples s, ep_rate := ts_rate s,
     ep_task_secs := ts_task_secs s, ep_first_pass := ts_first_pass s\<rparr>"

definition build_engineer_profiles_with_history ::
  "libs \<Rightarrow> (string \<rightharpoonup> string) \<Rightarrow> string list \<Rightarrow> task list \<Rightarrow> persisted_completion list
     \<Rightarrow> (string \<rightharpoonup> telemetry_stats) \<Rightarrow> task_error + profiles" where
  "build_engineer_profiles_with_history L files engineers tasks persisted telemetry =
     (let fresh = map_of (map (\<lambda>name. (name, default_profile name)) engineers) in
      res_bind (apply_board_tasks L files tasks (apply_persisted persisted (fresh, {}))) (\<lambda>(ps, _).
        Inr (\<lambda>name. map_option (\<lambda>p. case telemetry name of Some s \<Rightarrow> apply_telemetry s p | None \<Rightarrow> p) (ps name))))"

definition load_engineer_profiles ::
  "libs \<Rightarrow> (string \<rightharpoonup> string) \<Rightarrow> persisted_completion list \<Rightarrow> (string \<rightharpoonup> telemetry_stats)
     \<Rightarrow> (string \<rightharpoonup> engineer_performance) \<Rightarrow> string list \<Rightarrow> task list \<Rightarrow> task_error + profiles" where
  "load_engineer_profiles L files persisted telemetry performance engineers tasks =
     res_bind (build_engineer_profiles_with_history L files engineers tasks persisted telemetry) (\<lambda>ps.
       Inr (\<lambda>name. map_option (\<lambda>p. case performance name of
                Some pf \<Rightarrow> p\<lparr>ep_performance := Some pf\<rparr> | None \<Rightarrow> p) (ps name)))"

text \<open>The role names of the engineers join their tags.\<close>

definition seed_role_tags :: "(string \<times> string) list \<Rightarrow> profiles \<Rightarrow> profiles" where
  "seed_role_tags named_roles ps =
     foldl (\<lambda>ps (name, role_name).
       case ps name of
         None \<Rightarrow> ps
       | Some p \<Rightarrow> ps(name \<mapsto> p\<lparr>ep_tags := ep_tags p \<union> set (role_name_seed_tags role_name)\<rparr>)) ps named_roles"

section \<open>The score\<close>

definition performance_score :: "engineer_performance option \<Rightarrow> 32 word" where
  "performance_score performance =
     (case performance of
        None \<Rightarrow> 0
      | Some pf \<Rightarrow>
          (case pf_first_pass pf of
             None \<Rightarrow> 0 | Some r \<Rightarrow> if r \<ge> 3/4 then 1 else if r < 1/2 then -1 else 0)
        + (case pf_context_exhaustion pf of
             None \<Rightarrow> 0 | Some r \<Rightarrow> if r \<ge> 1/2 then -2 else if r > 0 then -1 else 0)
        + (case pf_task_secs pf of
             None \<Rightarrow> 0 | Some s \<Rightarrow> if s > 0 \<and> s \<le> 3600 then 1 else if s \<ge> 14400 then -1 else 0)
        + (case pf_lines_per_hour pf of
             None \<Rightarrow> 0 | Some l \<Rightarrow> if l \<ge> 200 then 1 else 0))"

definition tag_matches :: "engineer_profile \<Rightarrow> task \<Rightarrow> nat" where
  "tag_matches p t = length (filter (\<lambda>tag. tag \<in> ep_tags p) (t_tags t))"

definition file_matches :: "engineer_profile \<Rightarrow> string set \<Rightarrow> nat" where
  "file_matches p task_dirs = card ((\<Union>f \<in> ep_files p. set_option (parent_dir f)) \<inter> task_dirs)"

definition score_engineer_for_task ::
  "(rat \<Rightarrow> 32 word) \<Rightarrow> engineer_profile \<Rightarrow> task \<Rightarrow> string set \<Rightarrow> allocation_policy \<Rightarrow> 32 word" where
  "score_engineer_for_task percent p t task_dirs policy =
     of_nat (tag_matches p t) * ap_tag_weight policy
     + of_nat (file_matches p task_dirs) * ap_file_overlap_weight policy
     + percent (ep_rate p)
     - ep_active p * ap_load_penalty policy
     - ep_conflicts p * ap_conflict_penalty policy
     + (if ep_completions p > 3 then ap_experience_bonus policy else 0)
     + performance_score (ep_performance p)"

section \<open>The ranking\<close>

record breakdown =
  bd_engineer :: string
  bd_score :: "32 word"
  bd_tags :: nat
  bd_files :: nat
  bd_rate :: rat
  bd_task_secs :: "rat option"
  bd_first_pass :: "rat option"
  bd_samples :: u32

record routing =
  rt_chosen :: "string option"
  rt_fallback :: bool
  rt_reason :: "string option"
  rt_breakdowns :: "breakdown list"

definition engineer_breakdown ::
  "(rat \<Rightarrow> 32 word) \<Rightarrow> string \<Rightarrow> engineer_profile option \<Rightarrow> task \<Rightarrow> string set \<Rightarrow> allocation_policy \<Rightarrow> breakdown" where
  "engineer_breakdown percent name profile t task_dirs policy =
     (let p = (case profile of Some p \<Rightarrow> p | None \<Rightarrow> default_profile name) in
      \<lparr> bd_engineer = name, bd_score = score_engineer_for_task percent p t task_dirs policy,
        bd_tags = tag_matches p t, bd_files = file_matches p task_dirs, bd_rate = ep_rate p,
        bd_task_secs = ep_task_secs p, bd_first_pass = ep_first_pass p, bd_samples = ep_samples p \<rparr>)"

definition compare_breakdowns :: "breakdown \<Rightarrow> breakdown \<Rightarrow> ordering" where
  "compare_breakdowns l r =
     then_with (cmp_of (sint (bd_score r)) (sint (bd_score l)))
    (then_with (cmp_of (bd_first_pass r) (bd_first_pass l))
    (then_with (cmp_of (bd_task_secs l) (bd_task_secs r))
               (cmp_of (bd_engineer l) (bd_engineer r))))"

definition chosen_first :: "breakdown list \<Rightarrow> string option" where
  "chosen_first bs = (case bs of [] \<Rightarrow> None | b # _ \<Rightarrow> Some (bd_engineer b))"

definition explain_routing_for_task ::
  "(rat \<Rightarrow> 32 word) \<Rightarrow> libs \<Rightarrow> (string \<rightharpoonup> string) \<Rightarrow> string list \<Rightarrow> profiles \<Rightarrow> task \<Rightarrow> allocation_policy \<Rightarrow> routing" where
  "explain_routing_for_task percent L files engineers ps t policy =
     (let task_dirs = task_hint_directories L files t;
          breakdowns = map (\<lambda>e. engineer_breakdown percent e (ps e) t task_dirs policy) engineers;
          has_any_telemetry = list_ex (\<lambda>b. bd_samples b > 0) breakdowns;
          telemetry_ready = has_any_telemetry \<and> list_all (\<lambda>b. bd_samples b \<ge> 5) breakdowns;
          has_explicit_tag_match = list_ex (\<lambda>b. bd_tags b > 0) breakdowns
      in
      if telemetry_ready \<or> \<not> has_any_telemetry \<or> has_explicit_tag_match then
        (let ranked = sort_by compare_breakdowns breakdowns in
         \<lparr> rt_chosen = chosen_first ranked, rt_fallback = False, rt_reason = None, rt_breakdowns = ranked \<rparr>)
      else
        (let ranked = sort_by (\<lambda>l r. cmp_of (bd_engineer l) (bd_engineer r)) breakdowns in
         \<lparr> rt_chosen = chosen_first ranked, rt_fallback = True,
           rt_reason = Some ''telemetry fallback: each eligible engineer needs at least 5 completed tasks'',
           rt_breakdowns = ranked \<rparr>))"

definition rank_engineers_for_task ::
  "(rat \<Rightarrow> 32 word) \<Rightarrow> libs \<Rightarrow> (string \<rightharpoonup> string) \<Rightarrow> string list \<Rightarrow> profiles \<Rightarrow> task \<Rightarrow> allocation_policy \<Rightarrow> string list" where
  "rank_engineers_for_task percent L files engineers ps t policy =
     map bd_engineer (rt_breakdowns (explain_routing_for_task percent L files engineers ps t policy))"

section \<open>Sorting by a comparator\<close>

text \<open>What \<open>sort_by\<close> needs of a comparator: a total preorder.\<close>

locale comparator =
  fixes cmp :: "'a \<Rightarrow> 'a \<Rightarrow> ordering"
  assumes flipped: "cmp x y = Greater \<longleftrightarrow> cmp y x = Less"
    and transitive: "cmp x y \<noteq> Greater \<Longrightarrow> cmp y z \<noteq> Greater \<Longrightarrow> cmp x z \<noteq> Greater"
begin

lemma total: "cmp x y \<noteq> Greater \<or> cmp y x \<noteq> Greater"
  using flipped [of x y] by (cases "cmp y x") auto

lemma equal_sym: "cmp x y = Equal \<Longrightarrow> cmp y x = Equal"
  using flipped [of x y] flipped [of y x] by (cases "cmp y x") auto

lemma equal_iff: "cmp x y = Equal \<longleftrightarrow> cmp x y \<noteq> Greater \<and> cmp y x \<noteq> Greater"
  using flipped [of x y] flipped [of y x] by (cases "cmp x y"; cases "cmp y x") auto

lemma mset_insert_by [simp]: "mset (insert_by cmp x xs) = add_mset x (mset xs)"
  by (induction xs) auto

lemma mset_sort_by [simp]: "mset (sort_by cmp xs) = mset xs"
  by (induction xs) (auto simp: sort_by_def)

lemma sorted_insert_by:
  "sorted_wrt (\<lambda>a b. cmp a b \<noteq> Greater) xs \<Longrightarrow> sorted_wrt (\<lambda>a b. cmp a b \<noteq> Greater) (insert_by cmp x xs)"
proof (induction xs)
  case (Cons y ys)
  have elems: "set (insert_by cmp x ys) = insert x (set ys)" for x ys
    by (metis mset_insert_by set_mset_add_mset_insert set_mset_mset)
  show ?case
  proof (cases "cmp x y = Greater")
    case True
    then have "cmp y x \<noteq> Greater" using total [of x y] by blast
    with True Cons show ?thesis by (auto simp: elems)
  next
    case False
    then have "\<forall>z \<in> set ys. cmp x z \<noteq> Greater" using Cons.prems transitive by auto
    with False Cons.prems show ?thesis by simp
  qed
qed simp

lemma sorted_sort_by: "sorted_wrt (\<lambda>a b. cmp a b \<noteq> Greater) (sort_by cmp xs)"
  by (induction xs) (auto simp: sort_by_def sorted_insert_by)

text \<open>Sorted lists of the same elements are equal when only equal elements compare as equal.\<close>

lemma sorted_unique:
  "\<lbrakk>sorted_wrt (\<lambda>a b. cmp a b \<noteq> Greater) xs; sorted_wrt (\<lambda>a b. cmp a b \<noteq> Greater) ys; mset xs = mset ys;
    \<And>a b. a \<in> set xs \<Longrightarrow> b \<in> set xs \<Longrightarrow> cmp a b = Equal \<Longrightarrow> a = b\<rbrakk> \<Longrightarrow> xs = ys"
proof (induction xs arbitrary: ys)
  case (Cons x xs)
  then obtain y ys' where ys: "ys = y # ys'" by (cases ys) auto
  have same: "set (x # xs) = set (y # ys')" using mset_eq_setD [OF Cons.prems(3)] ys by simp
  have "x \<in> set (y # ys')" unfolding same [symmetric] by simp
  with Cons.prems(2) total [of y y] have "cmp y x \<noteq> Greater" unfolding ys by auto
  moreover have y: "y \<in> set (x # xs)" unfolding same by simp
  with Cons.prems(1) total [of x x] have "cmp x y \<noteq> Greater" by auto
  ultimately have "cmp x y = Equal" using equal_iff [of x y] by simp
  with Cons.prems(4) [OF _ y] have eq: "x = y" by simp
  have "xs = ys'"
  proof (rule Cons.IH)
    show "sorted_wrt (\<lambda>a b. cmp a b \<noteq> Greater) xs" using Cons.prems(1) by simp
    show "sorted_wrt (\<lambda>a b. cmp a b \<noteq> Greater) ys'" using Cons.prems(2) ys by simp
    show "mset xs = mset ys'" using Cons.prems(3) ys eq by simp
    show "a = b" if "a \<in> set xs" "b \<in> set xs" "cmp a b = Equal" for a b using Cons.prems(4) that by simp
  qed
  then show ?case using ys eq by simp
qed simp

lemma sort_by_canonical:
  assumes "mset xs = mset ys" and "\<And>a b. a \<in> set xs \<Longrightarrow> b \<in> set xs \<Longrightarrow> cmp a b = Equal \<Longrightarrow> a = b"
  shows "sort_by cmp xs = sort_by cmp ys"
proof (rule sorted_unique [OF sorted_sort_by sorted_sort_by])
  show "mset (sort_by cmp xs) = mset (sort_by cmp ys)" using assms(1) by simp
  have "set (sort_by cmp xs) = set xs" by (metis mset_sort_by set_mset_mset)
  then show "a = b" if "a \<in> set (sort_by cmp xs)" "b \<in> set (sort_by cmp xs)" "cmp a b = Equal" for a b
    using assms(2) that by simp
qed

end

lemma comparator_key: "comparator (\<lambda>x y. cmp_of (f x) (f y))"
  by unfold_locales (auto simp: cmp_of_def split: if_splits)

lemma comparator_reverse_key: "comparator (\<lambda>x y. cmp_of (f y) (f x))"
  by unfold_locales (auto simp: cmp_of_def split: if_splits)

lemma comparator_then:
  assumes "comparator c" and "comparator d"
  shows "comparator (\<lambda>x y. then_with (c x y) (d x y))"
proof
  note C = comparator.flipped [OF assms(1)] comparator.equal_iff [OF assms(1)] comparator.transitive [OF assms(1)]
  note D = comparator.flipped [OF assms(2)]
  fix x y z
  show "then_with (c x y) (d x y) = Greater \<longleftrightarrow> then_with (c y x) (d y x) = Less"
    using C(1) [of x y] C(1) [of y x] D [of x y] by (auto simp: then_with_def split: ordering.splits)
  have le: "then_with (c a b) (d a b) \<noteq> Greater \<longleftrightarrow> c a b \<noteq> Greater \<and> (c b a \<noteq> Greater \<longrightarrow> d a b \<noteq> Greater)" for a b
    using C(2) [of a b] by (auto simp: then_with_def split: ordering.splits)
  show "then_with (c x y) (d x y) \<noteq> Greater \<Longrightarrow> then_with (c y z) (d y z) \<noteq> Greater
      \<Longrightarrow> then_with (c x z) (d x z) \<noteq> Greater"
    unfolding le using C(3) [of x y z] C(3) [of y z x] C(3) [of z x y] comparator.transitive [OF assms(2), of x y z]
    by blast
qed

interpretation ranking: comparator compare_breakdowns
  unfolding compare_breakdowns_def
  by (intro comparator_then comparator_key comparator_reverse_key)

interpretation by_name: comparator "\<lambda>l r. cmp_of (bd_engineer l) (bd_engineer r)"
  by (rule comparator_key)

lemma cmp_of_Equal: "cmp_of a b = Equal \<longleftrightarrow> a = b"
  by (auto simp: cmp_of_def)

lemma cmp_of_le: "cmp_of a b \<noteq> Greater \<longleftrightarrow> a \<le> b"
  by (auto simp: cmp_of_def)

lemma compare_breakdowns_name: "compare_breakdowns l r = Equal \<Longrightarrow> bd_engineer l = bd_engineer r"
  by (auto simp: compare_breakdowns_def then_with_def cmp_of_Equal split: ordering.splits)

section \<open>The ranking is canonical\<close>

definition samples_of :: "profiles \<Rightarrow> string \<Rightarrow> u32" where
  "samples_of ps e = (case ps e of Some p \<Rightarrow> ep_samples p | None \<Rightarrow> 0)"

definition tag_matches_of :: "profiles \<Rightarrow> task \<Rightarrow> string \<Rightarrow> nat" where
  "tag_matches_of ps t e = (case ps e of Some p \<Rightarrow> tag_matches p t | None \<Rightarrow> 0)"

lemma engineer_breakdown_simps [simp]:
  "bd_engineer (engineer_breakdown pc e (ps e) t dirs pol) = e"
  "bd_samples (engineer_breakdown pc e (ps e) t dirs pol) = samples_of ps e"
  "bd_tags (engineer_breakdown pc e (ps e) t dirs pol) = tag_matches_of ps t e"
  by (auto simp: engineer_breakdown_def samples_of_def tag_matches_of_def default_profile_def tag_matches_def
      Let_def split: option.split)

lemma fallback_iff:
  "rt_fallback (explain_routing_for_task pc L files es ps t pol) \<longleftrightarrow>
   (\<exists>e \<in> set es. samples_of ps e > 0) \<and> (\<exists>e \<in> set es. samples_of ps e < 5) \<and> (\<forall>e \<in> set es. tag_matches_of ps t e = 0)"
  by (auto simp: explain_routing_for_task_def Let_def list_ex_iff list_all_iff not_le)

lemma ranking_canonical_lemma:
  assumes "mset es = mset es'"
  shows "explain_routing_for_task pc L files es ps t pol = explain_routing_for_task pc L files es' ps t pol"
proof -
  let ?bd = "\<lambda>e. engineer_breakdown pc e (ps e) t (task_hint_directories L files t) pol"
  have m: "mset (map ?bd es) = mset (map ?bd es')" using assms by simp
  have names: "bd_engineer a = bd_engineer b \<Longrightarrow> a = b" if "a \<in> set (map ?bd es)" "b \<in> set (map ?bd es)" for a b
    using that by auto
  have "sort_by compare_breakdowns (map ?bd es) = sort_by compare_breakdowns (map ?bd es')"
    by (rule ranking.sort_by_canonical [OF m]) (use names compare_breakdowns_name in blast)
  moreover have "sort_by (\<lambda>l r. cmp_of (bd_engineer l) (bd_engineer r)) (map ?bd es)
      = sort_by (\<lambda>l r. cmp_of (bd_engineer l) (bd_engineer r)) (map ?bd es')"
    by (rule by_name.sort_by_canonical [OF m]) (use names in \<open>simp add: cmp_of_Equal\<close>)
  moreover have "list_ex P (map ?bd es) = list_ex P (map ?bd es')" "list_all P (map ?bd es) = list_all P (map ?bd es')" for P
    using mset_eq_setD [OF m] by (auto simp: list_ex_iff list_all_iff)
  ultimately show ?thesis by (simp add: explain_routing_for_task_def Let_def)
qed

lemma mset_rank: "mset (rank_engineers_for_task pc L files es ps t pol) = mset es"
proof -
  have "mset (map bd_engineer (sort_by cmp (map (\<lambda>e. engineer_breakdown pc e (ps e) t dirs pol) es))) = mset es"
    if "comparator cmp" for cmp dirs
    using comparator.mset_sort_by [OF that] by (simp add: multiset.map_comp comp_def)
  from this [OF ranking.comparator_axioms] this [OF by_name.comparator_axioms] show ?thesis
    by (simp add: rank_engineers_for_task_def explain_routing_for_task_def Let_def)
qed

lemma set_rank [simp]: "set (rank_engineers_for_task pc L files es ps t pol) = set es"
  by (metis mset_rank set_mset_mset)

section \<open>Completions are counted once\<close>

definition completed_by :: "persisted_completion list \<Rightarrow> string \<Rightarrow> nat list" where
  "completed_by rs name = map pc_task_id (filter (\<lambda>r. pc_engineer r = name) rs)"

definition done_by :: "task list \<Rightarrow> string \<Rightarrow> nat set \<Rightarrow> nat list" where
  "done_by ts name counted = map t_id (filter (\<lambda>t. t_claimed_by t = Some name \<and> t_status t = ''done'' \<and> t_id t \<notin> counted) ts)"

definition active_of :: "task list \<Rightarrow> string \<Rightarrow> task list" where
  "active_of ts name = filter (\<lambda>t. t_claimed_by t = Some name \<and> task_is_active_for_load t) ts"

lemma apply_completed_simps [simp]:
  "ep_completed_ids (apply_completed_profile i tags changed conflict p) = ep_completed_ids p @ [i]"
  "ep_completions (apply_completed_profile i tags changed conflict p) = ep_completions p + 1"
  "ep_active (apply_completed_profile i tags changed conflict p) = ep_active p"
  by (simp_all add: apply_completed_profile_def)

text \<open>What an engineer's profile gained between two states of the fold.\<close>

definition gained :: "engineer_profile option \<Rightarrow> engineer_profile option \<Rightarrow> nat list \<Rightarrow> nat \<Rightarrow> bool" where
  "gained before after ids active \<longleftrightarrow>
     (\<forall>p. before = Some p \<longrightarrow> (\<exists>p'. after = Some p' \<and> ep_completed_ids p' = ep_completed_ids p @ ids
        \<and> ep_completions p' = ep_completions p + of_nat (length ids) \<and> ep_active p' = ep_active p + of_nat active))"

lemma gained_refl: "gained o' o' [] 0"
  by (auto simp: gained_def)

lemma gained_trans: "gained a b xs m \<Longrightarrow> gained b d ys n \<Longrightarrow> gained a d (xs @ ys) (m + n)"
  by (force simp: gained_def)

lemma persisted_gain:
  "apply_persisted rs (ps, keys) = (ps', keys') \<Longrightarrow>
   gained (ps name) (ps' name) (completed_by rs name) 0
   \<and> (ps name \<noteq> None \<longrightarrow> (\<forall>i. (name, i) \<in> keys' \<longleftrightarrow> (name, i) \<in> keys \<or> i \<in> set (completed_by rs name)))"
proof (induction rs arbitrary: ps keys)
  case Nil
  then show ?case by (simp add: completed_by_def gained_refl)
next
  case (Cons r rs)
  show ?case
  proof (cases "ps (pc_engineer r)")
    case None
    with Cons.prems have "apply_persisted rs (ps, keys) = (ps', keys')" by simp
    from Cons.IH [OF this] None show ?thesis
      by (cases "pc_engineer r = name") (auto simp: completed_by_def gained_def)
  next
    case (Some p)
    let ?ps = "ps(pc_engineer r \<mapsto> apply_completed_profile (pc_task_id r) (set (pc_tags r)) (set (pc_paths r)) (pc_conflict r) p)"
    from Cons.prems Some have "apply_persisted rs (?ps, insert (pc_engineer r, pc_task_id r) keys) = (ps', keys')" by simp
    from Cons.IH [OF this] have
      g: "gained (?ps name) (ps' name) (completed_by rs name) 0" and
      k: "?ps name \<noteq> None \<longrightarrow> (\<forall>i. (name, i) \<in> keys' \<longleftrightarrow> (name, i) \<in> insert (pc_engineer r, pc_task_id r) keys
            \<or> i \<in> set (completed_by rs name))" by auto
    have step: "gained (ps name) (?ps name) (completed_by [r] name) 0"
      using Some by (auto simp: gained_def completed_by_def)
    have split: "completed_by (r # rs) name = completed_by [r] name @ completed_by rs name"
      by (simp add: completed_by_def)
    from gained_trans [OF step g] k Some show ?thesis
      unfolding split by (auto simp: completed_by_def)
  qed
qed

lemma board_task_gain:
  assumes "apply_board_task L files t (ps, keys) = Inr (ps', keys')"
  shows "gained (ps name) (ps' name) (done_by [t] name {i. (name, i) \<in> keys}) (length (active_of [t] name))
    \<and> (ps name \<noteq> None \<longrightarrow> ps' name \<noteq> None)
    \<and> (\<forall>i. i \<noteq> t_id t \<longrightarrow> ((name, i) \<in> keys' \<longleftrightarrow> (name, i) \<in> keys))"
proof (cases "t_claimed_by t")
  case None
  with assms show ?thesis by (simp add: apply_board_task_def done_by_def active_of_def gained_refl)
next
  case (Some owner)
  have nd: "task_is_active_for_load t \<Longrightarrow> t_status t \<noteq> ''done''" by (auto simp: task_is_active_for_load_def)
  show ?thesis
  proof (cases "ps owner")
    case None
    with assms Some show ?thesis
      by (cases "owner = name") (simp_all add: apply_board_task_def done_by_def active_of_def gained_def)
  next
    case (Some p)
    show ?thesis
    proof (cases "t_status t = ''done''")
      case True
      with nd have na: "\<not> task_is_active_for_load t" by blast
      from assms True Some \<open>t_claimed_by t = Some owner\<close> na show ?thesis
        by (auto simp: apply_board_task_def done_by_def active_of_def gained_def split: if_splits)
    next
      case False
      with assms Some \<open>t_claimed_by t = Some owner\<close> show ?thesis
        by (auto simp: apply_board_task_def done_by_def active_of_def gained_def split: if_splits)
    qed
  qed
qed

lemma board_tasks_gain:
  "\<lbrakk>apply_board_tasks L files ts (ps, keys) = Inr (ps', keys'); distinct (map t_id ts); ps name \<noteq> None\<rbrakk> \<Longrightarrow>
   gained (ps name) (ps' name) (done_by ts name {i. (name, i) \<in> keys}) (length (active_of ts name)) \<and> ps' name \<noteq> None"
proof (induction ts arbitrary: ps keys)
  case Nil
  then show ?case by (simp add: done_by_def active_of_def gained_refl)
next
  case (Cons t ts)
  from Cons.prems(1) obtain ps1 keys1 where
    one: "apply_board_task L files t (ps, keys) = Inr (ps1, keys1)" and
    rest: "apply_board_tasks L files ts (ps1, keys1) = Inr (ps', keys')" by auto
  note gain = board_task_gain [OF one, of name]
  have "gained (ps1 name) (ps' name) (done_by ts name {i. (name, i) \<in> keys1}) (length (active_of ts name)) \<and> ps' name \<noteq> None"
    by (rule Cons.IH [OF rest]) (use Cons.prems gain in auto)
  moreover have "done_by ts name {i. (name, i) \<in> keys1} = done_by ts name {i. (name, i) \<in> keys}"
    unfolding done_by_def using gain Cons.prems(2)
    by (intro arg_cong [where f = "map t_id"] filter_cong) (auto simp: image_iff)
  moreover have "done_by (t # ts) name K = done_by [t] name K @ done_by ts name K"
    "active_of (t # ts) name = active_of [t] name @ active_of ts name" for K
    by (simp_all add: done_by_def active_of_def)
  ultimately show ?case using gained_trans gain by fastforce
qed

lemma fresh_profile: "name \<in> set engineers \<Longrightarrow>
  map_of (map (\<lambda>n. (n, default_profile n)) engineers) name = Some (default_profile name)"
  by (induction engineers) auto

section \<open>Properties\<close>

text \<open>
  The ranking of engineers is canonical: it depends on which engineers are eligible and not on their order, ranks
  each of them exactly once and chooses the first. Without enough telemetry (some engineer has a
  completed task, some has fewer than five) and without a matching tag it is the order of names,
  otherwise it is sorted by score, first-pass rate, duration and name.
\<close>

theorem ranking_canonical:
  assumes "mset es = mset es'"
  shows "let r = explain_routing_for_task pc L files es ps t pol;
      ranked = rank_engineers_for_task pc L files es ps t pol
    in r = explain_routing_for_task pc L files es' ps t pol
    \<and> mset ranked = mset es
    \<and> rt_chosen r = (if ranked = [] then None else Some (hd ranked))
    \<and> (rt_fallback r \<longleftrightarrow> (\<exists>e \<in> set es. samples_of ps e > 0) \<and> (\<exists>e \<in> set es. samples_of ps e < 5)
         \<and> (\<forall>e \<in> set es. tag_matches_of ps t e = 0))
    \<and> (if rt_fallback r then sorted ranked
       else sorted_wrt (\<lambda>a b. compare_breakdowns a b \<noteq> Greater) (rt_breakdowns r))"
proof -
  have chosen: "rt_chosen (explain_routing_for_task pc L files es ps t pol) =
      (if rank_engineers_for_task pc L files es ps t pol = [] then None
       else Some (hd (rank_engineers_for_task pc L files es ps t pol)))"
    by (auto simp: rank_engineers_for_task_def explain_routing_for_task_def Let_def chosen_first_def split: list.split)
  have order: "if rt_fallback (explain_routing_for_task pc L files es ps t pol)
      then sorted (rank_engineers_for_task pc L files es ps t pol)
      else sorted_wrt (\<lambda>a b. compare_breakdowns a b \<noteq> Greater) (rt_breakdowns (explain_routing_for_task pc L files es ps t pol))"
    by (simp add: rank_engineers_for_task_def explain_routing_for_task_def Let_def
        ranking.sorted_sort_by sorted_map by_name.sorted_sort_by [unfolded cmp_of_le])
  show ?thesis
    unfolding Let_def by (intro conjI ranking_canonical_lemma [OF assms] mset_rank fallback_iff chosen order)
qed

definition sample_profiles :: profiles where
  "sample_profiles = map_of [(''eng-1'', (default_profile ''eng-1'')\<lparr>ep_samples := 2\<rparr>),
     (''eng-2'', (default_profile ''eng-2'')\<lparr>ep_tags := {''docs''}\<rparr>)]"

definition documented_task :: task where
  "documented_task = sample_task\<lparr>t_tags := [''docs''], t_source_path := [], t_description := []\<rparr>"

theorem ranking_canonical_witness:
  "rank_engineers_for_task (\<lambda>_. 0) plain_libs (\<lambda>_. None) [''eng-1'', ''eng-2''] sample_profiles documented_task
     default_allocation = [''eng-2'', ''eng-1'']
   \<and> rt_chosen (explain_routing_for_task (\<lambda>_. 0) plain_libs (\<lambda>_. None) [''eng-2'', ''eng-1''] sample_profiles
       documented_task default_allocation) = Some ''eng-2''"
proof -
  have "mset [''eng-1'', ''eng-2''] = mset [''eng-2'', ''eng-1'']" by simp
  note canonical = ranking_canonical [OF this, of "\<lambda>_. 0" plain_libs "\<lambda>_. None" sample_profiles documented_task
      default_allocation, unfolded Let_def]
  have "rank_engineers_for_task (\<lambda>_. 0) plain_libs (\<lambda>_. None) [''eng-1'', ''eng-2''] sample_profiles documented_task
     default_allocation = [''eng-2'', ''eng-1'']" by code_simp
  moreover from canonical have "explain_routing_for_task (\<lambda>_. 0) plain_libs (\<lambda>_. None) [''eng-1'', ''eng-2''] sample_profiles
      documented_task default_allocation
    = explain_routing_for_task (\<lambda>_. 0) plain_libs (\<lambda>_. None) [''eng-2'', ''eng-1''] sample_profiles
      documented_task default_allocation" by (rule conjunct1)
  ultimately show ?thesis using conjunct1 [OF conjunct2 [OF conjunct2 [OF canonical]]] by simp
qed

text \<open>
  C23. What the profiles count, on a board with distinct ids: when they build, every engineer has a profile whose completed tasks
  are the persisted completions of the engineer in their order, followed by the done tasks of the board claimed by the engineer that are not
  among them; the number of completions is the number of these, and the load the number of the engineer's tasks that are open
  work, both as 32-bit counters.
\<close>

theorem completions_counted_once:
  assumes "build_engineer_profiles_with_history L files engineers tasks persisted telemetry = Inr ps"
    and "distinct (map t_id tasks)" and "name \<in> set engineers"
  shows "let ids = completed_by persisted name @ done_by tasks name (set (completed_by persisted name)) in
    \<exists>p. ps name = Some p \<and> ep_completed_ids p = ids \<and> ep_completions p = of_nat (length ids)
    \<and> ep_active p = of_nat (length (active_of tasks name))"
proof -
  define ids where "ids = completed_by persisted name @ done_by tasks name (set (completed_by persisted name))"
  let ?fresh = "map_of (map (\<lambda>n. (n, default_profile n)) engineers)"
  obtain ps1 keys1 where p1: "apply_persisted persisted (?fresh, {}) = (ps1, keys1)" by fastforce
  with assms(1) obtain ps2 keys2 where p2: "apply_board_tasks L files tasks (ps1, keys1) = Inr (ps2, keys2)"
    and ps: "ps = (\<lambda>n. map_option (\<lambda>p. case telemetry n of Some s \<Rightarrow> apply_telemetry s p | None \<Rightarrow> p) (ps2 n))"
    by (auto simp: build_engineer_profiles_with_history_def Let_def)
  note fresh = fresh_profile [OF assms(3)]
  note g1 = persisted_gain [OF p1, of name]
  have "ps1 name \<noteq> None" using g1 fresh by (auto simp: gained_def)
  note g2 = board_tasks_gain [OF p2 assms(2) this]
  have keys: "{i. (name, i) \<in> keys1} = set (completed_by persisted name)" using g1 fresh by simp
  from gained_trans [OF conjunct1 [OF g1] conjunct1 [OF g2]] fresh obtain p' where
    p': "ps2 name = Some p'" "ep_completed_ids p' = ids" "ep_completions p' = of_nat (length ids)"
      "ep_active p' = of_nat (length (active_of tasks name))"
    unfolding keys gained_def ids_def by (auto simp: default_profile_def)
  have tele: "ep_completed_ids (apply_telemetry s q) = ep_completed_ids q" "ep_completions (apply_telemetry s q) = ep_completions q"
    "ep_active (apply_telemetry s q) = ep_active q" for s q by (simp_all add: apply_telemetry_def)
  show ?thesis using p' tele by (cases "telemetry name") (simp_all add: ps ids_def)
qed

theorem completions_counted_once_witness:
  "\<exists>ps p. build_engineer_profiles_with_history plain_libs (\<lambda>_. None) [''eng-1'']
       [documented_task\<lparr>t_id := 7, t_status := ''done'', t_claimed_by := Some ''eng-1''\<rparr>,
        documented_task\<lparr>t_id := 8, t_status := ''done'', t_claimed_by := Some ''eng-1''\<rparr>]
       [\<lparr> pc_engineer = ''eng-1'', pc_task_id = 7, pc_completed_at = [], pc_paths = [], pc_tags = [], pc_conflict = False \<rparr>]
       (\<lambda>_. None) = Inr ps
     \<and> ps ''eng-1'' = Some p \<and> ep_completed_ids p = [7, 8] \<and> ep_completions p = 2"
proof -
  let ?ts = "[documented_task\<lparr>t_id := 7, t_status := ''done'', t_claimed_by := Some ''eng-1''\<rparr>,
        documented_task\<lparr>t_id := 8, t_status := ''done'', t_claimed_by := Some ''eng-1''\<rparr>]"
  let ?rs = "[\<lparr> pc_engineer = ''eng-1'', pc_task_id = 7, pc_completed_at = [], pc_paths = [], pc_tags = [], pc_conflict = False \<rparr>]"
  obtain ps where ps: "build_engineer_profiles_with_history plain_libs (\<lambda>_. None) [''eng-1''] ?ts ?rs (\<lambda>_. None) = Inr ps"
    by (simp add: build_engineer_profiles_with_history_def apply_board_task_def task_profile_paths_def task_hints_at_def
        task_file_hints_def extract_declared_files_frontmatter_def documented_task_def sample_task_def Let_def)
  have d: "distinct (map t_id ?ts)" by simp
  have "completed_by ?rs ''eng-1'' = [7]" "done_by ?ts ''eng-1'' {7} = [8]"
    by (simp_all add: completed_by_def done_by_def)
  with completions_counted_once [OF ps d, of "''eng-1''"] ps show ?thesis by (auto simp: Let_def)
qed

end
