(* ===== verification/Overlap.thy ===== *)
theory Overlap
  imports Allocation
begin

text \<open>
  The files a task is expected to touch and the conflicts with the tasks in progress
  (\<open>src/team/dispatch/queue.rs\<close> and the prediction in \<open>src/team/allocation.rs\<close>).

  A glob becomes the text of a regular expression. The \<open>regex\<close> library is the parameter \<open>rx\<close>:
  \<open>rx text s\<close> is \<open>None\<close> when the text does not compile, and whether it matches \<open>s\<close> otherwise.
\<close>

section \<open>Prediction\<close>

definition persisted_profile_matches_task ::
  "libs \<Rightarrow> (string \<rightharpoonup> string) \<Rightarrow> task \<Rightarrow> persisted_completion \<Rightarrow> bool" where
  "persisted_profile_matches_task L files t r =
     (if list_ex (\<lambda>tag. list_ex (\<lambda>candidate. candidate = tag) (pc_tags r)) (t_tags t) then True
      else
        (let hinted = task_hint_directories L files t;
             recorded = set (List.map_filter parent_dir (pc_paths r))
         in hinted \<noteq> {} \<and> hinted \<inter> recorded \<noteq> {}))"

definition predict_task_file_paths ::
  "libs \<Rightarrow> (string \<rightharpoonup> string) \<Rightarrow> persisted_completion list \<Rightarrow> task \<Rightarrow> task_error + string list" where
  "predict_task_file_paths L files persisted t =
     res_bind (task_hints_at L files t) (\<lambda>hints.
       Inr (hints @ load_changed_paths L (if t_source_path t = [] then None else files (t_source_path t))
            @ concat (map pc_paths (filter (persisted_profile_matches_task L files t) persisted))))"

definition changed_paths_of :: "libs \<Rightarrow> (string \<rightharpoonup> string) \<Rightarrow> task \<Rightarrow> string list" where
  "changed_paths_of L files t = load_changed_paths L (files (t_source_path t))"

definition normalize_predicted_path :: "string \<Rightarrow> string" where
  "normalize_predicted_path = trim_by (\<lambda>ch. ch \<in> set ''.,;:)]'')"

definition predicted_files ::
  "libs \<Rightarrow> (string \<rightharpoonup> string) \<Rightarrow> persisted_completion list \<Rightarrow> task list \<Rightarrow> task \<Rightarrow> string list" where
  "predicted_files L files persisted board t =
     (let predicted = (case predict_task_file_paths L files persisted t of Inl _ \<Rightarrow> [] | Inr ps \<Rightarrow> ps);
          related = filter (\<lambda>h. t_id h \<noteq> t_id t \<and> t_tags h \<noteq> []
                       \<and> list_ex (\<lambda>tag. list_ex (\<lambda>candidate. candidate = tag) (t_tags h)) (t_tags t)) board;
          paths = map normalize_predicted_path predicted
                  @ concat (map (\<lambda>h. map normalize_predicted_path (changed_paths_of L files h)) related)
      in dedup (sort (filter (\<lambda>p. p \<noteq> []) paths)))"

section \<open>Globs\<close>

definition has_glob_magic :: "string \<Rightarrow> bool" where
  "has_glob_magic p = (CHR ''*'' \<in> set p \<or> CHR ''?'' \<in> set p)"

datatype glob_token = Lit char | NonSlash | NonSlashes | Anything | Directories

fun glob_tokens :: "string \<Rightarrow> glob_token list" where
  "glob_tokens [] = []"
| "glob_tokens (ch # rest) =
     (if ch = CHR ''*'' then
        (case rest of
           [] \<Rightarrow> [NonSlashes]
         | ch' # rest' \<Rightarrow>
             if ch' = CHR ''*'' then
               (case rest' of
                  [] \<Rightarrow> [Anything]
                | ch'' # rest'' \<Rightarrow>
                    if ch'' = CHR ''/'' then Directories # glob_tokens rest''
                    else Anything # glob_tokens rest')
             else NonSlashes # glob_tokens rest)
      else if ch = CHR ''?'' then NonSlash # glob_tokens rest
      else Lit ch # glob_tokens rest)"

definition regex_special :: string where
  "regex_special = ''.+()[]{}^$|'' @ [CHR 0x5C]"

fun token_regex :: "glob_token \<Rightarrow> string" where
  "token_regex Directories = ''(?:.*/)?''"
| "token_regex Anything = ''.*''"
| "token_regex NonSlashes = ''[^/]*''"
| "token_regex NonSlash = ''[^/]''"
| "token_regex (Lit ch) = (if ch \<in> set regex_special then [CHR 0x5C, ch] else [ch])"

definition glob_to_regex :: "string \<Rightarrow> string" where
  "glob_to_regex pattern = ''^'' @ concat (map token_regex (glob_tokens pattern)) @ ''$''"

type_synonym regexes = "string \<Rightarrow> string \<Rightarrow> bool option"

definition glob_matches_path :: "regexes \<Rightarrow> string \<Rightarrow> string \<Rightarrow> bool" where
  "glob_matches_path rx pattern path' =
     (if \<not> has_glob_magic pattern then pattern = path'
      else (case rx (glob_to_regex pattern) path' of Some b \<Rightarrow> b | None \<Rightarrow> False))"

definition glob_literal_prefix :: "string \<Rightarrow> string option" where
  "glob_literal_prefix pattern =
     (let prefix = trim_end_by (\<lambda>ch. ch = CHR ''/'')
                     (takeWhile (\<lambda>ch. \<not> (ch = CHR ''*'' \<or> ch = CHR ''?'')) pattern)
      in if prefix = [] then None else Some prefix)"

section \<open>Overlap\<close>

definition paths_overlap :: "regexes \<Rightarrow> string \<Rightarrow> string \<Rightarrow> bool" where
  "paths_overlap rx l r =
     (case (has_glob_magic l, has_glob_magic r) of
        (False, False) \<Rightarrow> l = r
      | (True, False) \<Rightarrow> glob_matches_path rx l r
      | (False, True) \<Rightarrow> glob_matches_path rx r l
      | (True, True) \<Rightarrow>
          if l = r then True
          else
            (case (glob_literal_prefix l, glob_literal_prefix r) of
               (Some left_prefix, Some right_prefix) \<Rightarrow>
                 starts_with right_prefix left_prefix \<or> starts_with left_prefix right_prefix
             | _ \<Rightarrow> True))"

definition describe_overlap :: "string \<Rightarrow> string \<Rightarrow> string" where
  "describe_overlap l r =
     (case (has_glob_magic l, has_glob_magic r) of
        (False, False) \<Rightarrow> l
      | (True, False) \<Rightarrow> r
      | (False, True) \<Rightarrow> l
      | (True, True) \<Rightarrow> if l = r then l else l @ '' <> '' @ r)"

definition overlapping_files :: "regexes \<Rightarrow> string list \<Rightarrow> string list \<Rightarrow> string list" where
  "overlapping_files rx candidate_paths active_paths =
     btree_set (concat (map (\<lambda>candidate.
       List.map_filter (\<lambda>active. if paths_overlap rx candidate active then Some (describe_overlap candidate active) else None)
         active_paths) candidate_paths))"

record overlap_conflict =
  oc_task_id :: string
  oc_files :: "string list"
  oc_engineer :: string

definition find_overlapping_tasks ::
  "regexes \<Rightarrow> libs \<Rightarrow> (string \<rightharpoonup> string) \<Rightarrow> persisted_completion list \<Rightarrow> task list \<Rightarrow> task \<Rightarrow> task list
     \<Rightarrow> overlap_conflict list" where
  "find_overlapping_tasks rx L files persisted board candidate in_progress =
     (let candidate_paths = predicted_files L files persisted board candidate in
      sort_key oc_task_id
        (List.map_filter (\<lambda>active.
           if t_id active = t_id candidate then None
           else
             (let conflicting = overlapping_files rx candidate_paths (predicted_files L files persisted board active) in
              if conflicting = [] then None
              else Some \<lparr> oc_task_id = show_nat (t_id active), oc_files = conflicting,
                          oc_engineer = (case t_claimed_by active of Some e \<Rightarrow> e | None \<Rightarrow> ''unknown'') \<rparr>))
           in_progress))"

section \<open>What a glob matches\<close>

text \<open>The documented meaning of the regular expressions built from globs.\<close>

fun tokens_match :: "glob_token list \<Rightarrow> string \<Rightarrow> bool" where
  "tokens_match [] s = (s = [])"
| "tokens_match (Lit ch # ts) s = (case s of [] \<Rightarrow> False | d # s' \<Rightarrow> d = ch \<and> tokens_match ts s')"
| "tokens_match (NonSlash # ts) s = (case s of [] \<Rightarrow> False | d # s' \<Rightarrow> d \<noteq> CHR ''/'' \<and> tokens_match ts s')"
| "tokens_match (NonSlashes # ts) s =
     list_ex (\<lambda>i. CHR ''/'' \<notin> set (take i s) \<and> tokens_match ts (drop i s)) [0..<Suc (length s)]"
| "tokens_match (Anything # ts) s =
     list_ex (\<lambda>i. newline \<notin> set (take i s) \<and> tokens_match ts (drop i s)) [0..<Suc (length s)]"
| "tokens_match (Directories # ts) s =
     (tokens_match ts s
      \<or> list_ex (\<lambda>i. newline \<notin> set (take i s) \<and> s ! i = CHR ''/'' \<and> tokens_match ts (drop (Suc i) s)) [0..<length s])"

definition follows_tokens :: "regexes \<Rightarrow> string \<Rightarrow> bool" where
  "follows_tokens rx pattern \<longleftrightarrow>
     (has_glob_magic pattern \<longrightarrow> (\<forall>s. rx (glob_to_regex pattern) s = Some (tokens_match (glob_tokens pattern) s)))"

lemma literal_part:
  "tokens_match (glob_tokens p) s \<Longrightarrow> \<exists>r. s = takeWhile (\<lambda>ch. \<not> (ch = CHR ''*'' \<or> ch = CHR ''?'')) p @ r"
proof (induction p arbitrary: s)
  case (Cons ch p)
  show ?case
  proof (cases "ch = CHR ''*'' \<or> ch = CHR ''?''")
    case False
    with Cons.prems obtain s' where "s = ch # s'" "tokens_match (glob_tokens p) s'" by (auto split: list.splits)
    with Cons.IH [of s'] False show ?thesis by auto
  qed auto
qed simp

lemma literal_prefix:
  assumes "tokens_match (glob_tokens p) s" and "glob_literal_prefix p = Some q"
  shows "\<exists>r. s = q @ r"
proof -
  let ?lit = "takeWhile (\<lambda>ch. \<not> (ch = CHR ''*'' \<or> ch = CHR ''?'')) p"
  from assms(2) have q: "q = trim_end_by (\<lambda>ch. ch = CHR ''/'') ?lit"
    by (auto simp: glob_literal_prefix_def Let_def split: if_splits)
  have "\<exists>r. ?lit = q @ r"
    unfolding q using trim_end_prefix by blast
  with literal_part [OF assms(1)] show ?thesis by (metis append_assoc)
qed

lemma overlap_sound:
  assumes "follows_tokens rx l" and "follows_tokens rx r"
    and "glob_matches_path rx l s" and "glob_matches_path rx r s"
  shows "paths_overlap rx l r"
proof (cases "has_glob_magic l \<and> has_glob_magic r")
  case True
  with assms have m: "tokens_match (glob_tokens l) s" "tokens_match (glob_tokens r) s"
    by (auto simp: follows_tokens_def glob_matches_path_def)
  have "starts_with q p \<or> starts_with p q" if "glob_literal_prefix l = Some p" "glob_literal_prefix r = Some q" for p q
    using literal_prefix [OF m(1) that(1)] literal_prefix [OF m(2) that(2)]
    by (auto simp: starts_with_iff append_eq_append_conv2)
  with True show ?thesis by (auto simp: paths_overlap_def split: option.split)
next
  case False
  with assms(3,4) show ?thesis by (auto simp: paths_overlap_def glob_matches_path_def split: bool.splits if_splits)
qed

lemma paths_overlap_sym: "paths_overlap rx l r = paths_overlap rx r l"
  by (auto simp: paths_overlap_def split: bool.split option.split)

lemma paths_overlap_refl: "paths_overlap rx p p"
  by (auto simp: paths_overlap_def split: bool.split)

lemma overlapping_files_empty:
  "overlapping_files rx ps qs = [] \<longleftrightarrow> (\<forall>p \<in> set ps. \<forall>q \<in> set qs. \<not> paths_overlap rx p q)"
  by (auto simp: overlapping_files_def map_filter_def filter_empty_conv)

lemma conflict_ids:
  "oc_task_id ` set (find_overlapping_tasks rx L files persisted board c in_progress) =
   {show_nat (t_id a) | a. a \<in> set in_progress \<and> t_id a \<noteq> t_id c
      \<and> (\<exists>p \<in> set (predicted_files L files persisted board c). \<exists>q \<in> set (predicted_files L files persisted board a).
           paths_overlap rx p q)}"
proof -
  have "oc_task_id ` set (find_overlapping_tasks rx L files persisted board c in_progress) =
   {show_nat (t_id a) | a. a \<in> set in_progress \<and> t_id a \<noteq> t_id c
      \<and> overlapping_files rx (predicted_files L files persisted board c) (predicted_files L files persisted board a) \<noteq> []}"
    by (force simp: find_overlapping_tasks_def Let_def map_filter_def image_iff)
  then show ?thesis by (simp add: overlapping_files_empty)
qed

text \<open>
  C37. No overlap is missed: when a path is covered by a predicted file or glob of the candidate and
  by one of a task in progress, that task is reported as a conflict with the files at issue,
  and the candidate would be reported for the task; reports are ordered by their text.
\<close>

theorem overlaps_detected:
  assumes "p \<in> set (predicted_files L files persisted board c)" and "q \<in> set (predicted_files L files persisted board a)"
    and "a \<in> set in_progress" and "t_id a \<noteq> t_id c" and "follows_tokens rx p" and "follows_tokens rx q"
    and "glob_matches_path rx p s" and "glob_matches_path rx q s"
  shows "show_nat (t_id a) \<in> oc_task_id ` set (find_overlapping_tasks rx L files persisted board c in_progress)
    \<and> show_nat (t_id c) \<in> oc_task_id ` set (find_overlapping_tasks rx L files persisted board a [c])
    \<and> (\<forall>cf \<in> set (find_overlapping_tasks rx L files persisted board c in_progress). oc_files cf \<noteq> [])
    \<and> sorted (map oc_task_id (find_overlapping_tasks rx L files persisted board c in_progress))"
proof -
  have o: "paths_overlap rx p q" by (rule overlap_sound [OF assms(5-8)])
  then have o': "paths_overlap rx q p" by (simp add: paths_overlap_sym)
  have "show_nat (t_id a) \<in> oc_task_id ` set (find_overlapping_tasks rx L files persisted board c in_progress)"
    unfolding conflict_ids using assms(1-4) o by blast
  moreover have "show_nat (t_id c) \<in> oc_task_id ` set (find_overlapping_tasks rx L files persisted board a [c])"
    unfolding conflict_ids using assms(1-2,4) o' by auto
  moreover have "\<forall>cf \<in> set (find_overlapping_tasks rx L files persisted board c in_progress). oc_files cf \<noteq> []"
    by (auto simp: find_overlapping_tasks_def Let_def map_filter_def split: if_splits)
  moreover have "sorted (map oc_task_id (find_overlapping_tasks rx L files persisted board c in_progress))"
    by (simp add: find_overlapping_tasks_def Let_def)
  ultimately show ?thesis by blast
qed

definition sample_regexes :: regexes where
  "sample_regexes text' s =
     (if text' = glob_to_regex ''src/*.rs'' then Some (tokens_match (glob_tokens ''src/*.rs'') s) else None)"

definition glob_task :: task where
  "glob_task = documented_task\<lparr>t_id := 4, t_tags := [], t_description := ''Touch src/*.rs.''\<rparr>"

definition file_task :: task where
  "file_task = documented_task\<lparr>t_id := 12, t_tags := [], t_description := ''Fix src/lib.rs now''\<rparr>"

theorem overlaps_detected_witness:
  "''12'' \<in> oc_task_id ` set (find_overlapping_tasks sample_regexes plain_libs (\<lambda>_. None) [] [] glob_task [file_task])"
proof -
  let ?pred = "predicted_files plain_libs (\<lambda>_. None) [] []"
  have "list_ex (\<lambda>p. p = ''src/*.rs'') (?pred glob_task)" by code_simp
  then have p: "''src/*.rs'' \<in> set (?pred glob_task)" by (auto simp: list_ex_iff)
  have "list_ex (\<lambda>p. p = ''src/lib.rs'') (?pred file_task)" by code_simp
  then have q: "''src/lib.rs'' \<in> set (?pred file_task)" by (auto simp: list_ex_iff)
  have f: "follows_tokens sample_regexes ''src/*.rs''" "follows_tokens sample_regexes ''src/lib.rs''"
    by (simp_all add: follows_tokens_def sample_regexes_def has_glob_magic_def)
  have mp: "glob_matches_path sample_regexes ''src/*.rs'' ''src/lib.rs''" by code_simp
  have mq: "glob_matches_path sample_regexes ''src/lib.rs'' ''src/lib.rs''"
    by (simp add: glob_matches_path_def has_glob_magic_def)
  have ids: "file_task \<in> set [file_task]" "t_id file_task \<noteq> t_id glob_task" by (simp_all add: file_task_def glob_task_def)
  have "show_nat (t_id file_task) = ''12''" by code_simp
  with overlaps_detected [OF p q ids f mp mq] show ?thesis by simp
qed

end
