(* ===== verification/Dispatcher.thy ===== *)
theory Dispatcher
  imports Dispatch_Select Cooldown Nudge Overlap
begin

text \<open>
  The state of the daemon that dispatching reads and writes (\<open>src/team/daemon.rs\<close>) and the
  filling of the dispatch queue (\<open>src/team/dispatch/queue.rs\<close>): idle engineers, verification
  retries, the choice of a task and of an engineer for it, and the loop over both.

  The loop is modelled on the loaded tasks: reading the board again returns what was read before
  and appending dependencies changes exactly that field, as the theories of task files and
  commands show. The benched engineers, the health of the backends, the telemetry and the
  persisted completions are read from a record of the world. Events and logs are left out.

  Of the errors of the call the model keeps the one that comes first, when the profiles are built. The errors of
  later rounds are left out: the board that cannot be read again (queue.rs:989) and the dependencies
  that cannot be appended (queue.rs:696) end the call with the entries queued so far. The count of failures of
  an entry is unbounded here, \<open>u32\<close> in the code.
\<close>

section \<open>State\<close>

record dispatch_entry =
  de_engineer :: string
  de_task_id :: nat
  de_task_title :: string
  de_queued_at :: nat
  de_failures :: nat
  de_last_failure :: "string option"

record dispatch_config =
  dc_members :: "member_instance list"
  dc_roles :: "role_def list"
  dc_excluded_tags :: "string list"
  dc_rescue_base :: nat
  dc_release_base :: nat
  dc_dedup_window :: nat
  dc_manual_cooldown :: nat
  dc_stabilization_delay :: nat
  dc_policy :: workflow_policy
  dc_file_locks :: bool
  dc_allocation :: allocation_policy
  dc_automation_sender :: "string option"

record daemon =
  dm_states :: "string \<rightharpoonup> member_state"
  dm_active :: "string \<rightharpoonup> nat"
  dm_queue :: "dispatch_entry list"
  dm_recent :: "nat \<times> string \<rightharpoonup> nat"
  dm_rescues :: rescues
  dm_releases :: releases
  dm_manual :: "string \<rightharpoonup> nat"
  dm_idle_since :: "string \<rightharpoonup> nat"
  dm_escalations :: "string \<rightharpoonup> nat"
  dm_messages :: "(string \<times> string) list"
  dm_retry_counts :: "string \<rightharpoonup> nat"

text \<open>What the handlers see of the world: the clocks, the readable files and the rest.\<close>

record world =
  wl_libs :: libs
  wl_now :: nat
  wl_wall :: int
  wl_unix :: nat
  wl_files :: "string \<rightharpoonup> string"
  wl_benched :: "string set"
  wl_parked :: "string \<Rightarrow> bool"
  wl_regexes :: regexes
  wl_percent :: "rat \<Rightarrow> 32 word"
  wl_persisted :: "persisted_completion list"
  wl_telemetry :: "string \<rightharpoonup> telemetry_stats"
  wl_performance :: "string \<rightharpoonup> engineer_performance"

section \<open>Engineers and tasks\<close>

definition engineer_names :: "dispatch_config \<Rightarrow> string list" where
  "engineer_names c = map m_name (filter (\<lambda>m. m_role_type m = Engineer) (dc_members c))"

definition effectively_idle :: "daemon \<Rightarrow> string \<Rightarrow> bool" where
  "effectively_idle d name =
     (case dm_states d name of
        Some Idle \<Rightarrow> True
      | Some Working \<Rightarrow> dm_active d name = None
      | None \<Rightarrow> False)"

definition idle_engineer_names :: "dispatch_config \<Rightarrow> daemon \<Rightarrow> string list" where
  "idle_engineer_names c d = filter (effectively_idle d) (engineer_names c)"

definition verification_retry_dispatchable_task ::
  "dispatch_config \<Rightarrow> world \<Rightarrow> daemon \<Rightarrow> task \<Rightarrow> bool \<Rightarrow> bool" where
  "verification_retry_dispatchable_task c w d task allow_peer =
     (if closed_status (t_status task) then False
      else if verification_retry_required_metadata (wl_libs w) (wl_files w) task = None then False
      else
        (case t_claimed_by task of
           None \<Rightarrow> True
         | Some owner \<Rightarrow>
             if dm_active d owner = Some (t_id task) \<and> dm_states d owner = Some Working then False
             else list_ex (\<lambda>e. e = owner) (idle_engineer_names c d) \<or> allow_peer))"

definition verification_retry_ids :: "dispatch_config \<Rightarrow> world \<Rightarrow> daemon \<Rightarrow> task list \<Rightarrow> bool \<Rightarrow> nat set" where
  "verification_retry_ids c w d tasks allow_peer =
     set (map t_id (filter (\<lambda>t. verification_retry_dispatchable_task c w d t allow_peer) tasks))"

definition rescued_task_ids :: "dispatch_config \<Rightarrow> world \<Rightarrow> daemon \<Rightarrow> nat \<Rightarrow> bool" where
  "rescued_task_ids c w d = task_rescue_blocked (wl_now w) (dc_rescue_base c) (dm_rescues d)"

definition release_held :: "dispatch_config \<Rightarrow> world \<Rightarrow> daemon \<Rightarrow> nat \<Rightarrow> string \<Rightarrow> bool" where
  "release_held c w d = is_release_excluded (wl_now w) (dc_release_base c) (dm_releases d)"

definition selection_of :: "dispatch_config \<Rightarrow> world \<Rightarrow> daemon \<Rightarrow> nat set \<Rightarrow> nat set \<Rightarrow> selection" where
  "selection_of c w d unavailable retry = \<lparr> s_queued = unavailable, s_excluded_tags = dc_excluded_tags c,
     s_non_engineers = non_engineer_names (dc_members c), s_rescued = rescued_task_ids c w d, s_retry = retry \<rparr>"

definition available_now :: "dispatch_config \<Rightarrow> world \<Rightarrow> daemon \<Rightarrow> task list \<Rightarrow> nat set \<Rightarrow> nat set \<Rightarrow> task list" where
  "available_now c w d tasks unavailable retry =
     available_dispatch_tasks (wl_libs w) (wl_wall w) (selection_of c w d unavailable retry) tasks"

definition next_dispatch_task :: "dispatch_config \<Rightarrow> world \<Rightarrow> daemon \<Rightarrow> task list \<Rightarrow> nat set \<Rightarrow> task option" where
  "next_dispatch_task c w d tasks queued =
     (let allow_peer = (available_now c w d tasks queued {} = [] \<and> idle_engineer_names c d \<noteq> []) in
      case available_now c w d tasks queued (verification_retry_ids c w d tasks allow_peer) of
        [] \<Rightarrow> None
      | t # _ \<Rightarrow> Some t)"

section \<open>Choosing an engineer\<close>

definition passes_manual_cooldown :: "dispatch_config \<Rightarrow> world \<Rightarrow> daemon \<Rightarrow> string \<Rightarrow> bool" where
  "passes_manual_cooldown c w d name =
     (case dm_manual d name of
        None \<Rightarrow> True
      | Some assigned_at \<Rightarrow> \<not> elapsed (wl_now w) assigned_at < dc_manual_cooldown c)"

definition engineers_with_role :: "dispatch_config \<Rightarrow> string \<Rightarrow> string set" where
  "engineers_with_role c role =
     set (map m_name (filter (\<lambda>m. m_role_type m = Engineer \<and> m_role_name m = role) (dc_members c)))"

definition eligible_engineers :: "dispatch_config \<Rightarrow> world \<Rightarrow> daemon \<Rightarrow> task \<Rightarrow> string set \<Rightarrow> string list" where
  "eligible_engineers c w d task queued_engineers =
     (let eligible = sort (filter (\<lambda>e. e \<notin> queued_engineers \<and> e \<notin> wl_benched w
            \<and> (case t_assignee task of None \<Rightarrow> True | Some preferred \<Rightarrow> preferred = e)
            \<and> \<not> wl_parked w e \<and> passes_manual_cooldown c w d e) (idle_engineer_names c d))
      in case parse_body_owner_role (t_description task) of
           None \<Rightarrow> eligible
         | Some owner \<Rightarrow>
             if engineers_with_role c owner = {} then eligible
             else filter (\<lambda>e. e \<in> engineers_with_role c owner) eligible)"

definition task_for_ranking :: "task \<Rightarrow> task" where
  "task_for_ranking task =
     (case parse_body_owner_role (t_description task) of
        Some owner \<Rightarrow> if owner \<in> set (t_tags task) then task else task\<lparr>t_tags := t_tags task @ [owner]\<rparr>
      | None \<Rightarrow> task)"

definition rank_dispatch_engineers ::
  "dispatch_config \<Rightarrow> world \<Rightarrow> daemon \<Rightarrow> profiles \<Rightarrow> task \<Rightarrow> string set \<Rightarrow> string list" where
  "rank_dispatch_engineers c w d ps task queued_engineers =
     (let eligible = eligible_engineers c w d task queued_engineers in
      if ap_strategy (dc_allocation c) = RoundRobin then eligible
      else rank_engineers_for_task (wl_percent w) (wl_libs w) (wl_files w) eligible ps (task_for_ranking task)
             (dc_allocation c))"

definition prefer_previous_owner :: "string option \<Rightarrow> bool \<Rightarrow> string list \<Rightarrow> string list" where
  "prefer_previous_owner owner allow_peer ranked =
     (case owner of
        None \<Rightarrow> ranked
      | Some o' \<Rightarrow>
          (let kept = filter (\<lambda>e. e = o' \<or> allow_peer) ranked in
           if o' \<in> set kept then o' # remove1 o' kept else kept))"

definition choose_engineer :: "dispatch_config \<Rightarrow> world \<Rightarrow> daemon \<Rightarrow> profiles \<Rightarrow> bool \<Rightarrow> task \<Rightarrow> string set \<Rightarrow> string option" where
  "choose_engineer c w d ps allow_peer task queued_engineers =
     (let owner = (if verification_retry_dispatchable_task c w d task allow_peer then t_claimed_by task else None);
          ranked = prefer_previous_owner owner allow_peer (rank_dispatch_engineers c w d ps task queued_engineers)
      in find (\<lambda>e. dm_recent d (t_id task, e) = None \<and> \<not> release_held c w d (t_id task) e) ranked)"

section \<open>Choosing a task\<close>

definition skip_overlap_checks :: "dispatch_config \<Rightarrow> bool" where
  "skip_overlap_checks c =
     (list_all r_use_worktrees (filter (\<lambda>r. r_role_type r = Engineer) (dc_roles c)) \<and> \<not> dc_file_locks c)"

record task_choice =
  ch_selected :: "task option"
  ch_least :: "(task \<times> overlap_conflict list) option"
  ch_locked :: "nat list"

fun choose_task ::
  "bool \<Rightarrow> bool \<Rightarrow> (task \<Rightarrow> overlap_conflict list) \<Rightarrow> task list \<Rightarrow> task_choice \<Rightarrow> task_choice" where
  "choose_task skip locks conflicts [] ch = ch"
| "choose_task skip locks conflicts (t # ts) ch =
     (if skip then ch\<lparr>ch_selected := Some t\<rparr>
      else
        (let cs = conflicts t in
         if cs = [] then ch\<lparr>ch_selected := Some t\<rparr>
         else if locks then choose_task skip locks conflicts ts (ch\<lparr>ch_locked := ch_locked ch @ [t_id t]\<rparr>)
         else
           choose_task skip locks conflicts ts
             (if (case ch_least ch of None \<Rightarrow> True | Some (_, existing) \<Rightarrow> length cs < length existing)
              then ch\<lparr>ch_least := Some (t, cs)\<rparr> else ch)))"

definition blocking_task_ids :: "overlap_conflict list \<Rightarrow> nat list" where
  "blocking_task_ids conflicts = dedup (sort (List.map_filter (\<lambda>cf. parse_u32 (oc_task_id cf)) conflicts))"

definition with_dependencies :: "nat \<Rightarrow> nat list \<Rightarrow> task list \<Rightarrow> task list" where
  "with_dependencies i deps tasks =
     map (\<lambda>t. if t_id t = i then t\<lparr>t_depends_on := btree_set (t_depends_on t @ deps)\<rparr> else t) tasks"

text \<open>Persisting the overlap as dependencies: only those that close no cycle.  That the file of the candidate
  is found and can be rewritten (\<open>append_task_dependencies\<close> succeeds) is taken for granted here.\<close>

definition serialize_overlapping_candidate :: "task list \<Rightarrow> task \<Rightarrow> overlap_conflict list \<Rightarrow> task list" where
  "serialize_overlapping_candidate tasks candidate conflicts =
     (if conflicts = [] then tasks
      else
        (let safe = fst (split_acyclic_blocking_ids tasks (t_id candidate) (blocking_task_ids conflicts)) in
         if safe = [] then tasks else with_dependencies (t_id candidate) safe tasks))"

section \<open>Filling the queue\<close>

record fill =
  fl_tasks :: "task list"
  fl_queued :: "nat set"
  fl_engineers :: "string set"
  fl_locked :: "nat set"
  fl_excluded :: "nat set"
  fl_queue :: "dispatch_entry list"

definition new_entry :: "world \<Rightarrow> string \<Rightarrow> task \<Rightarrow> dispatch_entry" where
  "new_entry w engineer task = \<lparr> de_engineer = engineer, de_task_id = t_id task, de_task_title = t_title task,
     de_queued_at = wl_unix w, de_failures = 0, de_last_failure = None \<rparr>"

text \<open>One round of the loop: \<open>None\<close> is the \<open>break\<close>.\<close>

definition conflicts_on :: "world \<Rightarrow> task list \<Rightarrow> task \<Rightarrow> overlap_conflict list" where
  "conflicts_on w board t =
     find_overlapping_tasks (wl_regexes w) (wl_libs w) (wl_files w) (wl_persisted w) board t
       (filter (\<lambda>u. t_status u = ''in-progress'') board)"

definition fill_step :: "dispatch_config \<Rightarrow> world \<Rightarrow> daemon \<Rightarrow> profiles \<Rightarrow> bool \<Rightarrow> fill \<Rightarrow> fill option" where
  "fill_step c w d ps allow_peer f =
     (let unavailable = fl_queued f \<union> fl_locked f \<union> fl_excluded f;
          available = available_now c w d (fl_tasks f) unavailable (verification_retry_ids c w d (fl_tasks f) allow_peer)
      in
      if available = [] then None
      else
        (let ch = choose_task (skip_overlap_checks c) (dc_file_locks c) (conflicts_on w (fl_tasks f)) available
                    \<lparr> ch_selected = None, ch_least = None, ch_locked = [] \<rparr>;
             f = f\<lparr>fl_locked := fl_locked f \<union> set (ch_locked ch)\<rparr>
         in
         case ch_selected ch of
           Some task \<Rightarrow>
             (case choose_engineer c w d ps allow_peer task (fl_engineers f) of
                None \<Rightarrow> Some (f\<lparr>fl_excluded := insert (t_id task) (fl_excluded f)\<rparr>)
              | Some engineer \<Rightarrow>
                  Some (f\<lparr>fl_queued := insert (t_id task) (fl_queued f),
                          fl_engineers := insert engineer (fl_engineers f),
                          fl_queue := fl_queue f @ [new_entry w engineer task]\<rparr>))
         | None \<Rightarrow>
             (case ch_least ch of
                Some (task, conflicts) \<Rightarrow>
                  Some (f\<lparr>fl_tasks := serialize_overlapping_candidate (fl_tasks f) task conflicts\<rparr>)
              | None \<Rightarrow> None)))"

fun fill_loop :: "nat \<Rightarrow> dispatch_config \<Rightarrow> world \<Rightarrow> daemon \<Rightarrow> profiles \<Rightarrow> bool \<Rightarrow> fill \<Rightarrow> fill option" where
  "fill_loop 0 c w d ps allow_peer f = None"
| "fill_loop (Suc fuel) c w d ps allow_peer f =
     (case fill_step c w d ps allow_peer f of
        None \<Rightarrow> Some f
      | Some f' \<Rightarrow> fill_loop fuel c w d ps allow_peer f')"

definition expire_records :: "dispatch_config \<Rightarrow> world \<Rightarrow> daemon \<Rightarrow> daemon" where
  "expire_records c w d = d\<lparr>
     dm_recent := (\<lambda>k. opt_filter (\<lambda>since. elapsed (wl_now w) since < dc_dedup_window c) (dm_recent d k)),
     dm_releases := retain_releases (wl_now w) (dc_release_base c) (dm_releases d),
     dm_rescues := retain_rescues (wl_now w) (dc_rescue_base c) (dm_rescues d)\<rparr>"

definition start_fill :: "daemon \<Rightarrow> task list \<Rightarrow> fill" where
  "start_fill d tasks = \<lparr> fl_tasks = tasks, fl_queued = set (map de_task_id (dm_queue d)),
     fl_engineers = set (map de_engineer (dm_queue d)), fl_locked = {}, fl_excluded = {}, fl_queue = dm_queue d \<rparr>"

definition peer_pickup_allowed :: "dispatch_config \<Rightarrow> world \<Rightarrow> daemon \<Rightarrow> task list \<Rightarrow> bool" where
  "peer_pickup_allowed c w d tasks =
     (available_now c w d tasks (set (map de_task_id (dm_queue d))) {} = [] \<and> idle_engineer_names c d \<noteq> [])"

definition dispatch_profiles :: "dispatch_config \<Rightarrow> world \<Rightarrow> task list \<Rightarrow> task_error + profiles" where
  "dispatch_profiles c w tasks =
     res_bind (load_engineer_profiles (wl_libs w) (wl_files w) (wl_persisted w) (wl_telemetry w) (wl_performance w)
                 (engineer_names c) tasks)
       (\<lambda>ps. Inr (seed_role_tags (map (\<lambda>m. (m_name m, m_role_name m))
                    (filter (\<lambda>m. m_role_type m = Engineer) (dc_members c))) ps))"

text \<open>The board and the daemon after the call, with its error; \<open>None\<close> when the fuel is used up.\<close>

definition enqueue_dispatch_candidates ::
  "nat \<Rightarrow> dispatch_config \<Rightarrow> world \<Rightarrow> task list \<Rightarrow> daemon \<Rightarrow> (task_error option \<times> task list \<times> daemon) option" where
  "enqueue_dispatch_candidates fuel c w tasks d0 =
     (let d = expire_records c w d0 in
      case dispatch_profiles c w tasks of
        Inl e \<Rightarrow> Some (Some e, tasks, d)
      | Inr ps \<Rightarrow>
          map_option (\<lambda>f. (None, fl_tasks f, d\<lparr>dm_queue := fl_queue f\<rparr>))
            (fill_loop fuel c w d ps (peer_pickup_allowed c w d tasks) (start_fill d tasks)))"

section \<open>Who may take a task\<close>

definition may_take :: "dispatch_config \<Rightarrow> world \<Rightarrow> daemon \<Rightarrow> bool \<Rightarrow> task \<Rightarrow> string \<Rightarrow> bool" where
  "may_take c w d allow_peer t e \<longleftrightarrow>
     e \<in> set (idle_engineer_names c d) \<and> e \<notin> wl_benched w \<and> \<not> wl_parked w e \<and> passes_manual_cooldown c w d e
     \<and> (case t_assignee t of None \<Rightarrow> True | Some preferred \<Rightarrow> preferred = e)
     \<and> (case parse_body_owner_role (t_description t) of
          None \<Rightarrow> True | Some role \<Rightarrow> engineers_with_role c role = {} \<or> e \<in> engineers_with_role c role)
     \<and> (verification_retry_dispatchable_task c w d t allow_peer \<longrightarrow>
          (case t_claimed_by t of None \<Rightarrow> True | Some owner \<Rightarrow> e = owner \<or> allow_peer))
     \<and> dm_recent d (t_id t, e) = None \<and> \<not> release_held c w d (t_id t) e"

lemma set_eligible:
  "set (eligible_engineers c w d t Q) =
   {e \<in> set (idle_engineer_names c d). e \<notin> Q \<and> e \<notin> wl_benched w \<and> \<not> wl_parked w e \<and> passes_manual_cooldown c w d e
     \<and> (case t_assignee t of None \<Rightarrow> True | Some preferred \<Rightarrow> preferred = e)
     \<and> (case parse_body_owner_role (t_description t) of
          None \<Rightarrow> True | Some role \<Rightarrow> engineers_with_role c role = {} \<or> e \<in> engineers_with_role c role)}"
  by (auto simp: eligible_engineers_def Let_def split: option.splits if_splits)

lemma set_ranked: "set (rank_dispatch_engineers c w d ps t Q) = set (eligible_engineers c w d t Q)"
  by (simp add: rank_dispatch_engineers_def Let_def)

lemma set_prefer: "set (prefer_previous_owner owner allow_peer es) =
    {e \<in> set es. case owner of None \<Rightarrow> True | Some o' \<Rightarrow> e = o' \<or> allow_peer}"
proof (cases owner)
  case (Some o')
  let ?kept = "filter (\<lambda>e. e = o' \<or> allow_peer) es"
  have "set (o' # remove1 o' ?kept) = set ?kept" if "o' \<in> set ?kept"
    using that by (metis mset_remove1 mset.simps(2) insert_DiffM set_mset_mset)
  then show ?thesis using Some by (auto simp: prefer_previous_owner_def Let_def)
qed (simp add: prefer_previous_owner_def)

lemma set_candidates:
  "set (prefer_previous_owner (if verification_retry_dispatchable_task c w d t allow_peer then t_claimed_by t else None)
     allow_peer (rank_dispatch_engineers c w d ps t Q))
   = {e \<in> set (eligible_engineers c w d t Q). verification_retry_dispatchable_task c w d t allow_peer \<longrightarrow>
        (case t_claimed_by t of None \<Rightarrow> True | Some owner \<Rightarrow> e = owner \<or> allow_peer)}"
  unfolding set_prefer set_ranked by (cases "verification_retry_dispatchable_task c w d t allow_peer") simp_all

lemma may_take_iff:
  "may_take c w d allow_peer t e \<and> e \<notin> Q \<longleftrightarrow>
   e \<in> set (eligible_engineers c w d t Q)
   \<and> (verification_retry_dispatchable_task c w d t allow_peer \<longrightarrow>
        (case t_claimed_by t of None \<Rightarrow> True | Some owner \<Rightarrow> e = owner \<or> allow_peer))
   \<and> dm_recent d (t_id t, e) = None \<and> \<not> release_held c w d (t_id t) e"
  unfolding may_take_def set_eligible mem_Collect_eq by (intro iffI conjI) (elim conjE; assumption)+

lemma choose_engineer_None:
  "choose_engineer c w d ps allow_peer t Q = None \<longleftrightarrow> (\<forall>e. may_take c w d allow_peer t e \<longrightarrow> e \<in> Q)"
proof -
  have "choose_engineer c w d ps allow_peer t Q = None \<longleftrightarrow> (\<forall>e. \<not> (may_take c w d allow_peer t e \<and> e \<notin> Q))"
    unfolding choose_engineer_def Let_def find_None_all set_candidates may_take_iff by blast
  then show ?thesis by blast
qed

lemma choose_engineer_Some:
  assumes "choose_engineer c w d ps allow_peer t Q = Some e"
  shows "may_take c w d allow_peer t e \<and> e \<notin> Q"
  using find_Some_in [OF assms [unfolded choose_engineer_def Let_def]]
  unfolding set_candidates may_take_iff by blast

section \<open>One round\<close>

lemma choose_task_selected:
  "choose_task skip locks cf ts ch = ch' \<Longrightarrow> ch_selected ch = None \<Longrightarrow> ch_selected ch' = Some t \<Longrightarrow>
   t \<in> set ts \<and> (skip \<or> cf t = [])"
  by (induction skip locks cf ts ch rule: choose_task.induct) (auto simp: Let_def split: if_splits)

lemma choose_task_least:
  "choose_task skip locks cf ts ch = ch' \<Longrightarrow> ch_least ch' = Some (t, cs) \<Longrightarrow>
   ch_least ch = Some (t, cs) \<or> \<not> skip \<and> \<not> locks \<and> t \<in> set ts \<and> cs = cf t \<and> cs \<noteq> []"
  by (induction skip locks cf ts ch rule: choose_task.induct) (auto simp: Let_def split: if_splits)

lemma choose_task_nothing:
  "choose_task skip locks cf ts ch = ch' \<Longrightarrow> ch_selected ch' = None \<Longrightarrow> ch_least ch' = None \<Longrightarrow>
   ts = [] \<or> locks"
  by (induction skip locks cf ts ch rule: choose_task.induct) (auto simp: Let_def split: if_splits)

lemma choose_task_skip: "choose_task True locks cf ts ch = (case ts of [] \<Rightarrow> ch | t # _ \<Rightarrow> ch\<lparr>ch_selected := Some t\<rparr>)"
  by (cases ts) auto

definition unavailable :: "fill \<Rightarrow> nat set" where
  "unavailable f = fl_queued f \<union> fl_locked f \<union> fl_excluded f"

abbreviation available_in :: "dispatch_config \<Rightarrow> world \<Rightarrow> daemon \<Rightarrow> bool \<Rightarrow> fill \<Rightarrow> task list" where
  "available_in c w d allow_peer f \<equiv>
     available_now c w d (fl_tasks f) (unavailable f) (verification_retry_ids c w d (fl_tasks f) allow_peer)"

text \<open>The three ways in which a round goes on.\<close>

lemma fill_step_cases [consumes 1, case_names queue exclude serialize]:
  assumes "fill_step c w d ps allow_peer f = Some f'"
  obtains (queue) t e L where "t \<in> set (available_in c w d allow_peer f)"
      "choose_engineer c w d ps allow_peer t (fl_engineers f) = Some e"
      "f' = f\<lparr>fl_locked := fl_locked f \<union> L, fl_queued := insert (t_id t) (fl_queued f),
             fl_engineers := insert e (fl_engineers f), fl_queue := fl_queue f @ [new_entry w e t]\<rparr>"
      "skip_overlap_checks c \<longrightarrow> L = {}"
  | (exclude) t L where "t \<in> set (available_in c w d allow_peer f)"
      "choose_engineer c w d ps allow_peer t (fl_engineers f) = None"
      "f' = f\<lparr>fl_locked := fl_locked f \<union> L, fl_excluded := insert (t_id t) (fl_excluded f)\<rparr>"
      "skip_overlap_checks c \<longrightarrow> L = {}"
  | (serialize) t L where "t \<in> set (available_in c w d allow_peer f)"
      "\<not> skip_overlap_checks c" "\<not> dc_file_locks c" "conflicts_on w (fl_tasks f) t \<noteq> []"
      "f' = f\<lparr>fl_locked := fl_locked f \<union> L,
             fl_tasks := serialize_overlapping_candidate (fl_tasks f) t (conflicts_on w (fl_tasks f) t)\<rparr>"
proof -
  let ?av = "available_in c w d allow_peer f"
  obtain ch where ch: "choose_task (skip_overlap_checks c) (dc_file_locks c) (conflicts_on w (fl_tasks f)) ?av
      \<lparr> ch_selected = None, ch_least = None, ch_locked = [] \<rparr> = ch" by blast
  have L: "skip_overlap_checks c \<longrightarrow> set (ch_locked ch) = {}"
    using ch by (auto simp: choose_task_skip split: list.splits)
  note step = assms [unfolded fill_step_def Let_def, folded unavailable_def, unfolded ch]
  show thesis
  proof (cases "ch_selected ch")
    case (Some t)
    with choose_task_selected [OF ch] have t: "t \<in> set ?av" by simp
    show thesis
    proof (cases "choose_engineer c w d ps allow_peer t (fl_engineers f)")
      case None
      with step Some show thesis by (intro exclude [OF t _ _ L]) (auto split: if_splits)
    next
      case (Some e)
      with step \<open>ch_selected ch = Some t\<close> show thesis by (intro queue [OF t _ _ L]) (auto split: if_splits)
    qed
  next
    case None
    with step obtain t cs where l: "ch_least ch = Some (t, cs)" by (auto split: if_splits option.splits)
    with choose_task_least [OF ch l] have "t \<in> set ?av" "\<not> skip_overlap_checks c" "\<not> dc_file_locks c"
      "cs = conflicts_on w (fl_tasks f) t" "cs \<noteq> []" by auto
    with step None l show thesis by (intro serialize [of t]) (auto split: if_splits)
  qed
qed

lemma fill_loop_invariant:
  assumes "fill_loop n c w d ps allow_peer f = Some f'" and "P f"
    and "\<And>f f'. P f \<Longrightarrow> fill_step c w d ps allow_peer f = Some f' \<Longrightarrow> P f'"
  shows "P f' \<and> fill_step c w d ps allow_peer f' = None"
  using assms(1,2)
proof (induction n arbitrary: f)
  case (Suc n)
  then show ?case using assms(3) by (cases "fill_step c w d ps allow_peer f") auto
qed simp

section \<open>Dependencies only grow\<close>

definition more_deps :: "task \<Rightarrow> task \<Rightarrow> bool" where
  "more_deps t t' \<longleftrightarrow> (\<exists>ds. t' = t\<lparr>t_depends_on := ds\<rparr> \<and> set (t_depends_on t) \<subseteq> set ds)"

definition grown :: "task list \<Rightarrow> task list \<Rightarrow> bool" where
  "grown ts ts' \<longleftrightarrow> list_all2 more_deps ts ts'"

lemma more_deps_refl: "more_deps t t"
  unfolding more_deps_def by (rule exI [of _ "t_depends_on t"]) simp

lemma more_deps_trans: "more_deps t u \<Longrightarrow> more_deps u v \<Longrightarrow> more_deps t v"
  by (auto simp: more_deps_def intro!: exI [of _ "t_depends_on v"]) blast

lemma grown_refl: "grown ts ts"
  by (simp add: grown_def list_all2_refl more_deps_refl)

lemma grown_trans: "grown a b \<Longrightarrow> grown b d \<Longrightarrow> grown a d"
  unfolding grown_def by (rule list_all2_trans [OF more_deps_trans])

lemma grown_with_dependencies: "grown ts (with_dependencies i ds ts)"
proof -
  have "more_deps t (t\<lparr>t_depends_on := btree_set (t_depends_on t @ ds)\<rparr>)" for t
    unfolding more_deps_def by (intro exI conjI refl) auto
  then show ?thesis
    by (auto simp: with_dependencies_def grown_def list_all2_map2 more_deps_refl intro!: list_all2_refl)
qed

lemma grown_serialize: "grown ts (serialize_overlapping_candidate ts t cs)"
  by (simp add: serialize_overlapping_candidate_def Let_def grown_refl grown_with_dependencies)

lemma grown_map:
  assumes "grown ts ts'" and "\<And>t ds. f (t\<lparr>t_depends_on := ds\<rparr>) = f t"
  shows "map f ts' = map f ts"
  using assms(1) unfolding grown_def
  by (induction rule: list_all2_induct) (auto simp: more_deps_def assms(2))

lemma grown_member: "grown ts ts' \<Longrightarrow> t' \<in> set ts' \<Longrightarrow> \<exists>t \<in> set ts. more_deps t t'"
  unfolding grown_def by (metis in_set_conv_nth list_all2_conv_all_nth)

lemma grown_ids: "grown ts ts' \<Longrightarrow> map t_id ts' = map t_id ts"
  by (rule grown_map) simp_all

lemma grown_status_by_id: "grown ts ts' \<Longrightarrow> status_by_id ts' = status_by_id ts"
  unfolding status_by_id_def by (subst grown_map [where f = "\<lambda>t. (t_id t, t_status t)"]) simp_all

lemma retry_deps [simp]:
  "verification_retry_dispatchable_task c w d (t\<lparr>t_depends_on := ds\<rparr>) p = verification_retry_dispatchable_task c w d t p"
  by (cases "t_claimed_by t")
    (simp_all add: verification_retry_dispatchable_task_def verification_retry_required_metadata_def)

lemma may_take_deps [simp]: "may_take c w d p (t\<lparr>t_depends_on := ds\<rparr>) e = may_take c w d p t e"
  by (simp add: may_take_def)

lemma grown_retry:
  assumes "grown ts ts'" shows "verification_retry_ids c w d ts' p = verification_retry_ids c w d ts p"
proof -
  have "verification_retry_ids c w d xs p = set (map fst (filter snd (map (\<lambda>t. (t_id t, verification_retry_dispatchable_task c w d t p)) xs)))" for xs
    by (simp add: verification_retry_ids_def filter_map comp_def)
  then show ?thesis
    by (simp only: grown_map [OF assms, of "\<lambda>t. (t_id t, verification_retry_dispatchable_task c w d t p)", simplified])
qed

lemma available_task_deps:
  assumes "available_task L now sel st (t\<lparr>t_depends_on := ds\<rparr>)" and "set (t_depends_on t) \<subseteq> set ds"
  shows "available_task L now sel st t"
  using assms unfolding available_task_def known_deps_satisfied_def
  by (auto simp: Let_def is_schedule_blocked_def task_has_excluded_tag_def body_dependencies_satisfied_def list_all_iff)

lemma available_task_queued:
  assumes "available_task L now sel st t" and "t_id t \<notin> U"
  shows "available_task L now (sel\<lparr>s_queued := U\<rparr>) st t"
  using assms unfolding available_task_def Let_def
  by (cases "t_assignee t"; cases "parse_body_owner_role (t_description t)") (auto simp del: not_None_eq)

lemma in_available_now:
  "t \<in> set (available_now c w d ts U R) \<longleftrightarrow>
   t \<in> set ts \<and> available_task (wl_libs w) (wl_wall w) (selection_of c w d U R) (status_by_id ts) t"
  by (simp add: available_now_def available_dispatch_tasks_def)

lemma available_not_queued: "t \<in> set (available_now c w d ts U R) \<Longrightarrow> t_id t \<notin> U"
  by (simp add: in_available_now available_task_def Let_def selection_of_def)

lemma available_earlier:
  assumes "t' \<in> set (available_now c w d ts' U' (verification_retry_ids c w d ts' p))" and "grown ts ts'" and "U \<subseteq> U'"
  shows "\<exists>t \<in> set (available_now c w d ts U (verification_retry_ids c w d ts p)). more_deps t t'"
proof -
  note R = grown_retry [OF assms(2), of c w d p] and S = grown_status_by_id [OF assms(2)]
  from assms(1) have t': "t' \<in> set ts'"
    and a: "available_task (wl_libs w) (wl_wall w) (selection_of c w d U' (verification_retry_ids c w d ts p)) (status_by_id ts) t'"
    by (auto simp: in_available_now R S)
  from grown_member [OF assms(2) t'] obtain t where t: "t \<in> set ts" "more_deps t t'" by blast
  then obtain ds where ds: "t' = t\<lparr>t_depends_on := ds\<rparr>" "set (t_depends_on t) \<subseteq> set ds" by (auto simp: more_deps_def)
  have "available_task (wl_libs w) (wl_wall w) (selection_of c w d U' (verification_retry_ids c w d ts p)) (status_by_id ts) t"
    by (rule available_task_deps [OF a [unfolded ds(1)] ds(2)])
  moreover have "t_id t \<notin> U" using available_not_queued [OF assms(1)] assms(3) ds(1) by auto
  ultimately have "available_task (wl_libs w) (wl_wall w) (selection_of c w d U (verification_retry_ids c w d ts p)) (status_by_id ts) t"
    using available_task_queued [of "wl_libs w" "wl_wall w" "selection_of c w d U' (verification_retry_ids c w d ts p)" _ t U]
    by (simp add: selection_of_def)
  with t show ?thesis by (auto simp: in_available_now)
qed

section \<open>The loop ends\<close>

definition fill_size :: "dispatch_config \<Rightarrow> world \<Rightarrow> daemon \<Rightarrow> bool \<Rightarrow> fill \<Rightarrow> nat" where
  "fill_size c w d p f = card (t_id ` set (available_in c w d p f))"

lemma fill_size_less:
  assumes "grown (fl_tasks f) (fl_tasks f')" and "unavailable f \<subseteq> unavailable f'"
    and "t \<in> set (available_in c w d p f)" and "t_id t \<notin> t_id ` set (available_in c w d p f')"
  shows "fill_size c w d p f' < fill_size c w d p f"
proof -
  have "t_id ` set (available_in c w d p f') \<subseteq> t_id ` set (available_in c w d p f)"
  proof
    fix i assume "i \<in> t_id ` set (available_in c w d p f')"
    then obtain u' where u': "u' \<in> set (available_in c w d p f')" "i = t_id u'" by blast
    from available_earlier [OF u'(1) assms(1,2)] obtain u where "u \<in> set (available_in c w d p f)" "more_deps u u'" by blast
    with u'(2) show "i \<in> t_id ` set (available_in c w d p f)" by (auto simp: more_deps_def)
  qed
  with assms(3,4) show ?thesis unfolding fill_size_def by (intro psubset_card_mono) auto
qed

text \<open>No task in progress leads over dependencies to a task that may be started.\<close>

definition no_detour :: "task list \<Rightarrow> nat set \<Rightarrow> bool" where
  "no_detour ts startable \<longleftrightarrow>
     (\<forall>a \<in> set ts. t_status a = ''in-progress'' \<longrightarrow> (\<forall>i \<in> startable. \<not> reaches_candidate ts i (t_id a)))"

lemma new_edges_unused:
  "(x, y) \<in> (E \<union> {t} \<times> B)\<^sup>* \<Longrightarrow> (x, t) \<notin> E\<^sup>* \<Longrightarrow> (x, y) \<in> E\<^sup>*"
proof (induction rule: rtrancl_induct)
  case (step y z)
  then have "(x, y) \<in> E\<^sup>*" "y \<noteq> t" by auto
  with step.hyps(2) show ?case by (auto intro: rtrancl_into_rtrancl)
qed simp

lemma map_of_with_key: "map_of (map (\<lambda>(k, v). (k, g k v)) xs) k = map_option (g k) (map_of xs k)"
  by (induction xs) auto

lemma edges_with_dependencies:
  "dep_edges (deps_by_id (with_dependencies i ds ts)) \<subseteq> dep_edges (deps_by_id ts) \<union> {i} \<times> set ds"
proof -
  have "deps_by_id (with_dependencies i ds ts) = map (\<lambda>(k, v). (k, if k = i then btree_set (v @ ds) else v)) (deps_by_id ts)"
    by (auto simp: deps_by_id_def with_dependencies_def rev_map)
  then show ?thesis by (auto simp: dep_edges_def map_of_with_key split: if_splits)
qed

lemma blocking_ids:
  assumes "\<forall>t \<in> set ts. t_id t < 2 ^ 32" and "i \<in> set (blocking_task_ids (conflicts_on w ts t))"
  shows "\<exists>a \<in> set ts. t_status a = ''in-progress'' \<and> t_id a = i \<and> i \<noteq> t_id t"
proof -
  from assms(2) obtain cf where cf: "cf \<in> set (conflicts_on w ts t)" "parse_u32 (oc_task_id cf) = Some i"
    by (auto simp: blocking_task_ids_def map_filter_def)
  then have "oc_task_id cf \<in> oc_task_id ` set (conflicts_on w ts t)" by blast
  then obtain a where a: "a \<in> set ts" "t_status a = ''in-progress''" "t_id a \<noteq> t_id t" "oc_task_id cf = show_nat (t_id a)"
    unfolding conflicts_on_def conflict_ids by auto
  with assms(1) cf(2) have "t_id a = i" by (simp add: parse_show_nat)
  with a show ?thesis by blast
qed

lemma blocking_ids_exist:
  assumes "\<forall>t \<in> set ts. t_id t < 2 ^ 32" and "conflicts_on w ts t \<noteq> []"
  shows "blocking_task_ids (conflicts_on w ts t) \<noteq> []"
proof -
  from assms(2) obtain cf where cf: "cf \<in> set (conflicts_on w ts t)" by fastforce
  then have "oc_task_id cf \<in> oc_task_id ` set (conflicts_on w ts t)" by blast
  then obtain a where "a \<in> set ts" "oc_task_id cf = show_nat (t_id a)"
    unfolding conflicts_on_def conflict_ids by auto
  with assms(1) have "parse_u32 (oc_task_id cf) = Some (t_id a)" by (simp add: parse_show_nat)
  with cf have "t_id a \<in> set (blocking_task_ids (conflicts_on w ts t))"
    by (force simp: blocking_task_ids_def map_filter_def)
  then show ?thesis by fastforce
qed

lemma serialize_progress:
  assumes "distinct (map t_id ts)" and "\<forall>t \<in> set ts. t_id t < 2 ^ 32" and "no_detour ts S" and "t_id t \<in> S"
    and "conflicts_on w ts t \<noteq> []"
  defines "ts' \<equiv> serialize_overlapping_candidate ts t (conflicts_on w ts t)"
  shows "no_detour ts' S \<and> (\<forall>U R. t_id t \<notin> t_id ` set (available_now c w d ts' U R))"
proof -
  let ?B = "blocking_task_ids (conflicts_on w ts t)"
  have safe: "fst (split_acyclic_blocking_ids ts (t_id t) ?B) = ?B"
    unfolding split_acyclic_blocking_ids_def fst_conv filter_id_conv
    using blocking_ids [OF assms(2)] assms(3,4) unfolding no_detour_def by blast
  then have ts': "ts' = with_dependencies (t_id t) ?B ts"
    using blocking_ids_exist [OF assms(2,5)] assms(5) by (simp add: ts'_def serialize_overlapping_candidate_def)
  have g: "grown ts ts'" unfolding ts' by (rule grown_with_dependencies)
  have "no_detour ts' S"
    unfolding no_detour_def
  proof (intro ballI impI notI)
    fix a' i assume a': "a' \<in> set ts'" "t_status a' = ''in-progress''" "i \<in> S" "reaches_candidate ts' i (t_id a')"
    from grown_member [OF g a'(1)] obtain a where a: "a \<in> set ts" "more_deps a a'" by blast
    then have same: "t_id a' = t_id a" "t_status a = ''in-progress''" using a'(2) by (auto simp: more_deps_def)
    let ?E = "dep_edges (deps_by_id ts)"
    have "(t_id a, i) \<in> (?E \<union> {t_id t} \<times> set ?B)\<^sup>*"
      using a'(4) rtrancl_mono [OF edges_with_dependencies] unfolding ts' same(1) reaches_candidate_iff by blast
    moreover have "(t_id a, t_id t) \<notin> ?E\<^sup>*"
      using assms(3,4) a(1) same(2) unfolding no_detour_def reaches_candidate_iff by blast
    ultimately have "(t_id a, i) \<in> ?E\<^sup>*" by (rule new_edges_unused)
    with assms(3) a(1) same(2) a'(3) show False unfolding no_detour_def reaches_candidate_iff by blast
  qed
  moreover have "t_id t \<notin> t_id ` set (available_now c w d ts' U R)" for U R
  proof
    assume "t_id t \<in> t_id ` set (available_now c w d ts' U R)"
    then obtain u where u: "u \<in> set ts'" "t_id u = t_id t" "known_deps_satisfied u (status_by_id ts')"
      by (auto simp: in_available_now available_task_def Let_def)
    from blocking_ids_exist [OF assms(2,5)] obtain i where i: "i \<in> set ?B" by fastforce
    with u(1,2) have "i \<in> set (t_depends_on u)" by (auto simp: ts' with_dependencies_def)
    moreover from blocking_ids [OF assms(2) i] obtain a where "a \<in> set ts" "t_status a = ''in-progress''" "t_id a = i" by blast
    with status_by_id_Some [OF assms(1)] have "status_by_id ts' i = Some ''in-progress''"
      unfolding grown_status_by_id [OF g] by blast
    ultimately show False using u(3)
      by (auto simp: known_deps_satisfied_def list_all_iff dep_status_satisfied_def closed_status_def)
  qed
  ultimately show ?thesis by blast
qed

lemma fill_loop_terminates:
  assumes "\<And>f f'. P f \<Longrightarrow> fill_step c w d ps p f = Some f' \<Longrightarrow> P f' \<and> fill_size c w d p f' < fill_size c w d p f"
  shows "P f \<Longrightarrow> fill_size c w d p f < n \<Longrightarrow> fill_loop n c w d ps p f \<noteq> None"
proof (induction n arbitrary: f)
  case (Suc n)
  show ?case
  proof (cases "fill_step c w d ps p f")
    case (Some f')
    from assms [OF Suc.prems(1) Some] Suc.prems(2) have "P f'" "fill_size c w d p f' < n" by auto
    from Suc.IH [OF this] Some show ?thesis by simp
  qed simp
qed simp

definition dispatchable_now :: "dispatch_config \<Rightarrow> world \<Rightarrow> daemon \<Rightarrow> task list \<Rightarrow> nat set \<Rightarrow> task list" where
  "dispatchable_now c w d tasks queued =
     available_now c w d tasks queued (verification_retry_ids c w d tasks (peer_pickup_allowed c w d tasks))"

definition fill_ok :: "dispatch_config \<Rightarrow> task list \<Rightarrow> nat set \<Rightarrow> nat set \<Rightarrow> fill \<Rightarrow> bool" where
  "fill_ok c tasks queued startable f \<longleftrightarrow>
     grown tasks (fl_tasks f) \<and> queued \<subseteq> unavailable f
     \<and> (skip_overlap_checks c \<or> dc_file_locks c \<or> no_detour (fl_tasks f) startable)"

lemma fill_ok_step:
  assumes "fill_ok c tasks Q S f" and "fill_step c w d ps p f = Some f'"
    and "distinct (map t_id tasks)" and "\<forall>t \<in> set tasks. t_id t < 2 ^ 32"
    and "S = t_id ` set (available_now c w d tasks Q (verification_retry_ids c w d tasks p))"
  shows "fill_ok c tasks Q S f' \<and> fill_size c w d p f' < fill_size c w d p f"
proof -
  note ok = assms(1) [unfolded fill_ok_def]
  have gone: "t_id t \<notin> t_id ` set (available_now c w d ts U R)" if "t_id t \<in> U" for t ts U R
    using available_not_queued that by (metis imageE)
  show ?thesis
    using assms(2)
  proof (cases rule: fill_step_cases)
    case (queue t e L)
    have "fill_size c w d p f' < fill_size c w d p f"
      by (rule fill_size_less [OF _ _ queue(1) gone]) (use queue(3) in \<open>auto simp: grown_refl unavailable_def\<close>)
    with ok queue(3) show ?thesis by (auto simp: fill_ok_def unavailable_def)
  next
    case (exclude t L)
    have "fill_size c w d p f' < fill_size c w d p f"
      by (rule fill_size_less [OF _ _ exclude(1) gone]) (use exclude(3) in \<open>auto simp: grown_refl unavailable_def\<close>)
    with ok exclude(3) show ?thesis by (auto simp: fill_ok_def unavailable_def)
  next
    case (serialize t L)
    let ?ts' = "serialize_overlapping_candidate (fl_tasks f) t (conflicts_on w (fl_tasks f) t)"
    from available_earlier [OF serialize(1)] ok obtain t0 where
      "t0 \<in> set (available_now c w d tasks Q (verification_retry_ids c w d tasks p))" "more_deps t0 t" by blast
    then have S: "t_id t \<in> S" unfolding assms(5) by (auto simp: more_deps_def)
    have ids: "map t_id (fl_tasks f) = map t_id tasks" using ok grown_ids by blast
    then have "t_id ` set (fl_tasks f) = t_id ` set tasks" by (metis set_map)
    with assms(4) have small: "\<forall>t \<in> set (fl_tasks f). t_id t < 2 ^ 32" by (metis imageE imageI)
    have progress: "no_detour ?ts' S \<and> (\<forall>U R. t_id t \<notin> t_id ` set (available_now c w d ?ts' U R))"
      by (rule serialize_progress) (use ids assms(3) small ok serialize S in auto)
    have "fill_size c w d p f' < fill_size c w d p f"
      by (rule fill_size_less [OF _ _ serialize(1)])
        (use serialize(5) progress grown_serialize in \<open>auto simp: unavailable_def\<close>)
    with ok serialize(5) progress show ?thesis
      using grown_trans [OF conjunct1 [OF ok] grown_serialize] by (auto simp: fill_ok_def unavailable_def)
  qed
qed

text \<open>What the loop keeps of the queue.\<close>

definition queue_ok :: "dispatch_config \<Rightarrow> world \<Rightarrow> daemon \<Rightarrow> task list \<Rightarrow> bool \<Rightarrow> fill \<Rightarrow> bool" where
  "queue_ok c w d tasks p f \<longleftrightarrow>
     grown tasks (fl_tasks f)
     \<and> fl_queued f = set (map de_task_id (fl_queue f)) \<and> fl_engineers f = set (map de_engineer (fl_queue f))
     \<and> (\<exists>new. fl_queue f = dm_queue d @ new \<and> distinct (map de_task_id new) \<and> distinct (map de_engineer new)
          \<and> set (map de_task_id new) \<inter> set (map de_task_id (dm_queue d)) = {}
          \<and> set (map de_engineer new) \<inter> set (map de_engineer (dm_queue d)) = {}
          \<and> (\<forall>e \<in> set new. \<exists>t \<in> set (available_now c w d tasks (set (map de_task_id (dm_queue d)))
                 (verification_retry_ids c w d tasks p)).
               e = new_entry w (de_engineer e) t \<and> may_take c w d p t (de_engineer e)))"

lemma queue_ok_step:
  assumes "queue_ok c w d tasks p f" and "fill_step c w d ps p f = Some f'"
  shows "queue_ok c w d tasks p f'"
  using assms(2)
proof (cases rule: fill_step_cases)
  case (queue t e L)
  let ?Q = "set (map de_task_id (dm_queue d))"
  let ?av = "available_now c w d tasks ?Q (verification_retry_ids c w d tasks p)"
  note ok = assms(1) [unfolded queue_ok_def]
  from ok obtain new where new: "fl_queue f = dm_queue d @ new" "distinct (map de_task_id new)" "distinct (map de_engineer new)"
    "set (map de_task_id new) \<inter> ?Q = {}" "set (map de_engineer new) \<inter> set (map de_engineer (dm_queue d)) = {}"
    "\<forall>e \<in> set new. \<exists>t \<in> set ?av. e = new_entry w (de_engineer e) t \<and> may_take c w d p t (de_engineer e)" by blast
  have g: "grown tasks (fl_tasks f)" and qd: "fl_queued f = set (map de_task_id (dm_queue d @ new))"
    and en: "fl_engineers f = set (map de_engineer (dm_queue d @ new))" using ok new(1) by simp_all
  have "?Q \<subseteq> unavailable f" unfolding unavailable_def qd by auto
  with available_earlier [OF queue(1) g] obtain t0 where t0: "t0 \<in> set ?av" "more_deps t0 t" by blast
  have e: "may_take c w d p t e" "e \<notin> fl_engineers f" using choose_engineer_Some [OF queue(2)] by blast+
  have entry: "new_entry w e t = new_entry w e t0" "may_take c w d p t0 e"
    using t0(2) e(1) by (auto simp: more_deps_def new_entry_def)
  have fresh: "t_id t \<notin> set (map de_task_id (dm_queue d @ new))"
    using available_not_queued [OF queue(1)] unfolding unavailable_def qd [symmetric] by blast
  have fields: "de_task_id (new_entry w e t) = t_id t" "de_engineer (new_entry w e t) = e" by (simp_all add: new_entry_def)
  have "\<exists>new'. fl_queue f' = dm_queue d @ new' \<and> distinct (map de_task_id new') \<and> distinct (map de_engineer new')
      \<and> set (map de_task_id new') \<inter> ?Q = {} \<and> set (map de_engineer new') \<inter> set (map de_engineer (dm_queue d)) = {}
      \<and> (\<forall>e \<in> set new'. \<exists>t \<in> set ?av. e = new_entry w (de_engineer e) t \<and> may_take c w d p t (de_engineer e))"
  proof (rule exI [of _ "new @ [new_entry w e t]"], intro conjI)
    show "fl_queue f' = dm_queue d @ new @ [new_entry w e t]" unfolding queue(3) using new(1) by simp
    show "distinct (map de_task_id (new @ [new_entry w e t]))" using new(2) fresh fields by auto
    show "distinct (map de_engineer (new @ [new_entry w e t]))" using new(3) e(2) [unfolded en] fields by auto
    show "set (map de_task_id (new @ [new_entry w e t])) \<inter> ?Q = {}" using new(4) fresh fields by auto
    show "set (map de_engineer (new @ [new_entry w e t])) \<inter> set (map de_engineer (dm_queue d)) = {}"
      using new(5) e(2) [unfolded en] fields by auto
    have "\<exists>t' \<in> set ?av. new_entry w e t = new_entry w (de_engineer (new_entry w e t)) t'
        \<and> may_take c w d p t' (de_engineer (new_entry w e t))"
      unfolding fields using t0(1) entry by (intro bexI [of _ t0] conjI)
    with new(6) show "\<forall>e \<in> set (new @ [new_entry w e t]). \<exists>t \<in> set ?av. e = new_entry w (de_engineer e) t
        \<and> may_take c w d p t (de_engineer e)" by auto
  qed
  moreover have "grown tasks (fl_tasks f')" "fl_queued f' = set (map de_task_id (fl_queue f'))"
    "fl_engineers f' = set (map de_engineer (fl_queue f'))"
    unfolding queue(3) using g qd en new(1) fields by auto
  ultimately show ?thesis unfolding queue_ok_def by blast
next
  case (exclude t L)
  with assms(1) show ?thesis by (simp add: queue_ok_def)
next
  case (serialize t L)
  with assms(1) show ?thesis using grown_trans [OF _ grown_serialize] by (simp add: queue_ok_def)
qed

definition idle_ok :: "dispatch_config \<Rightarrow> world \<Rightarrow> daemon \<Rightarrow> bool \<Rightarrow> fill \<Rightarrow> bool" where
  "idle_ok c w d p f \<longleftrightarrow>
     fl_locked f = {} \<and> distinct (map t_id (fl_tasks f))
     \<and> (\<forall>t \<in> set (fl_tasks f). t_id t \<in> fl_excluded f \<longrightarrow> (\<forall>e. may_take c w d p t e \<longrightarrow> e \<in> fl_engineers f))"

lemma idle_ok_step:
  assumes "idle_ok c w d p f" and "fill_step c w d ps p f = Some f'" and "skip_overlap_checks c"
  shows "idle_ok c w d p f' \<and> fl_tasks f' = fl_tasks f"
  using assms(2)
proof (cases rule: fill_step_cases)
  case (queue t e L)
  with assms(1,3) show ?thesis by (auto simp: idle_ok_def)
next
  case (exclude t L)
  have "t \<in> set (fl_tasks f)" using exclude(1) by (simp add: in_available_now)
  with assms(1) have same: "u = t" if "u \<in> set (fl_tasks f)" "t_id u = t_id t" for u
    using that by (auto simp: idle_ok_def distinct_map dest: inj_onD)
  have "\<forall>e. may_take c w d p t e \<longrightarrow> e \<in> fl_engineers f" using exclude(2) choose_engineer_None by blast
  with assms(1,3) exclude(3,4) show ?thesis unfolding idle_ok_def by (auto dest: same)
qed (use assms(3) in simp)

section \<open>Properties\<close>

text \<open>
  C2. Filling the dispatch queue ends: on a board with distinct ids, when engineers work in worktrees or files are
  locked, or when no task in progress depends over any chain on a task that may start, at most
  one round per task and a last one are needed.
\<close>

theorem enqueue_terminates:
  assumes "distinct (map t_id tasks)" and "\<forall>t \<in> set tasks. t_id t < 2 ^ 32"
    and "skip_overlap_checks c \<or> dc_file_locks c
      \<or> no_detour tasks (t_id ` set (dispatchable_now c w (expire_records c w d) tasks (set (map de_task_id (dm_queue d)))))"
  shows "enqueue_dispatch_candidates (Suc (length tasks)) c w tasks d \<noteq> None"
proof (cases "dispatch_profiles c w tasks")
  case (Inr ps)
  let ?d = "expire_records c w d" and ?Q = "set (map de_task_id (dm_queue d))"
  let ?p = "peer_pickup_allowed c w ?d tasks"
  let ?S = "t_id ` set (dispatchable_now c w ?d tasks ?Q)"
  have q: "dm_queue ?d = dm_queue d" by (simp add: expire_records_def)
  have start: "fill_ok c tasks ?Q ?S (start_fill ?d tasks)"
    using assms(3) by (simp add: fill_ok_def start_fill_def grown_refl unavailable_def q)
  have S: "?S = t_id ` set (available_now c w ?d tasks ?Q (verification_retry_ids c w ?d tasks ?p))"
    by (simp add: dispatchable_now_def)
  have "fill_size c w ?d ?p (start_fill ?d tasks) \<le> card (t_id ` set tasks)"
    unfolding fill_size_def by (intro card_mono) (auto simp: in_available_now start_fill_def)
  also have "\<dots> \<le> length tasks" by (metis card_length length_map set_map)
  finally have size: "fill_size c w ?d ?p (start_fill ?d tasks) < Suc (length tasks)" by simp
  have "fill_loop (Suc (length tasks)) c w ?d ps ?p (start_fill ?d tasks) \<noteq> None"
    by (rule fill_loop_terminates [where P = "fill_ok c tasks ?Q ?S", OF _ start size])
      (rule fill_ok_step [OF _ _ assms(1,2) S])
  then show ?thesis using Inr by (simp add: enqueue_dispatch_candidates_def Let_def del: fill_loop.simps)
qed (simp add: enqueue_dispatch_candidates_def)

text \<open>
  C3. The queue only receives sound entries: old entries stay in front, each new entry is for a task that was
  available when the call began and for an engineer who may take it (idle, not benched or
  parked, out of all cooldowns, the assignee, body owner or previous owner if there is one),
  no task or engineer is queued a second time, tasks of the board only gain dependencies, and
  of the daemon only the queue and the expired records change.
\<close>

theorem enqueue_sound:
  assumes "enqueue_dispatch_candidates n c w tasks d = Some (err, tasks', d')"
  shows "\<exists>new. dm_queue d' = dm_queue d @ new \<and> (err \<noteq> None \<longrightarrow> new = [])
    \<and> distinct (map de_task_id new) \<and> distinct (map de_engineer new)
    \<and> set (map de_task_id new) \<inter> set (map de_task_id (dm_queue d)) = {}
    \<and> set (map de_engineer new) \<inter> set (map de_engineer (dm_queue d)) = {}
    \<and> (\<forall>e \<in> set new. \<exists>t \<in> set (dispatchable_now c w (expire_records c w d) tasks (set (map de_task_id (dm_queue d)))).
         e = new_entry w (de_engineer e) t
         \<and> may_take c w (expire_records c w d) (peer_pickup_allowed c w (expire_records c w d) tasks) t (de_engineer e))
    \<and> grown tasks tasks' \<and> d' = (expire_records c w d)\<lparr>dm_queue := dm_queue d'\<rparr>"
proof -
  let ?d = "expire_records c w d"
  let ?p = "peer_pickup_allowed c w ?d tasks"
  have q: "dm_queue ?d = dm_queue d" by (simp add: expire_records_def)
  show ?thesis
  proof (cases "dispatch_profiles c w tasks")
    case (Inl e)
    with assms have "err = Some e" "tasks' = tasks" "d' = ?d" by (simp_all add: enqueue_dispatch_candidates_def)
    then show ?thesis by (intro exI [of _ "[]"]) (simp add: q grown_refl)
  next
    case (Inr ps)
    with assms obtain f where f: "fill_loop n c w ?d ps ?p (start_fill ?d tasks) = Some f"
      and r: "err = None" "tasks' = fl_tasks f" "d' = ?d\<lparr>dm_queue := fl_queue f\<rparr>"
      by (auto simp: enqueue_dispatch_candidates_def Let_def)
    have "queue_ok c w ?d tasks ?p (start_fill ?d tasks)"
      by (simp add: queue_ok_def start_fill_def grown_refl)
    with f have "queue_ok c w ?d tasks ?p f \<and> fill_step c w ?d ps ?p f = None"
      by (rule fill_loop_invariant) (rule queue_ok_step)
    then show ?thesis unfolding queue_ok_def dispatchable_now_def r q by auto
  qed
qed

text \<open>
  C4. Dispatching is work conserving: when every engineer has a worktree and files are not locked, no task that is
  still available after the call could have been taken by an engineer without an entry in the
  queue, and the board is as before.
\<close>

theorem enqueue_work_conserving:
  assumes "skip_overlap_checks c" and "distinct (map t_id tasks)"
    and "enqueue_dispatch_candidates n c w tasks d = Some (None, tasks', d')"
    and "t \<in> set (available_now c w (expire_records c w d) tasks (set (map de_task_id (dm_queue d')))
           (verification_retry_ids c w (expire_records c w d) tasks (peer_pickup_allowed c w (expire_records c w d) tasks)))"
    and "may_take c w (expire_records c w d) (peer_pickup_allowed c w (expire_records c w d) tasks) t e"
  shows "e \<in> set (map de_engineer (dm_queue d')) \<and> tasks' = tasks"
proof -
  let ?d = "expire_records c w d"
  let ?p = "peer_pickup_allowed c w ?d tasks"
  from assms(3) obtain ps f where ps: "dispatch_profiles c w tasks = Inr ps"
    and f: "fill_loop n c w ?d ps ?p (start_fill ?d tasks) = Some f"
    and r: "tasks' = fl_tasks f" "d' = ?d\<lparr>dm_queue := fl_queue f\<rparr>"
    by (auto simp: enqueue_dispatch_candidates_def Let_def split: sum.splits)
  let ?P = "\<lambda>f. idle_ok c w ?d ?p f \<and> fl_tasks f = tasks \<and> queue_ok c w ?d tasks ?p f"
  have "?P (start_fill ?d tasks)"
    using assms(2) by (simp add: idle_ok_def queue_ok_def start_fill_def grown_refl)
  with f have "?P f \<and> fill_step c w ?d ps ?p f = None"
    by (rule fill_loop_invariant) (use idle_ok_step [OF _ _ assms(1)] queue_ok_step in blast)
  then have inv: "?P f" and stop: "fill_step c w ?d ps ?p f = None" by blast+
  have done_av: "available_in c w ?d ?p f = []"
  proof (rule ccontr)
    assume "available_in c w ?d ?p f \<noteq> []"
    then have "fill_step c w ?d ps ?p f \<noteq> None"
      using assms(1) unfolding fill_step_def Let_def unavailable_def [symmetric]
      by (auto simp: choose_task_skip split: list.split option.split)
    with stop show False by blast
  qed
  have en: "fl_engineers f = set (map de_engineer (dm_queue d'))" and qd: "fl_queued f = set (map de_task_id (dm_queue d'))"
    using inv by (simp_all add: queue_ok_def r)
  have t: "t \<in> set tasks" using assms(4) by (simp add: in_available_now)
  have "t_id t \<in> fl_excluded f"
  proof (rule ccontr)
    assume "t_id t \<notin> fl_excluded f"
    with inv available_not_queued [OF assms(4)] have out: "t_id t \<notin> unavailable f"
      by (simp add: unavailable_def idle_ok_def qd)
    from assms(4) have "available_task (wl_libs w) (wl_wall w)
        (selection_of c w ?d (unavailable f) (verification_retry_ids c w ?d tasks ?p)) (status_by_id tasks) t"
      using out available_task_queued [of "wl_libs w" "wl_wall w" "selection_of c w ?d (set (map de_task_id (dm_queue d')))
            (verification_retry_ids c w ?d tasks ?p)" _ t "unavailable f"]
      by (simp add: in_available_now selection_of_def)
    with t have "t \<in> set (available_in c w ?d ?p f)" using inv by (simp add: in_available_now)
    with done_av show False by simp
  qed
  with inv t assms(5) have "e \<in> fl_engineers f" by (auto simp: idle_ok_def)
  then show ?thesis using inv by (simp add: en r)
qed

section \<open>Witnesses\<close>

definition sample_dispatch :: dispatch_config where
  "sample_dispatch = \<lparr>
     dc_members = map (\<lambda>n. default_member\<lparr>m_name := n, m_role_name := ''engineer'', m_role_type := Engineer\<rparr>) [''eng-1'', ''eng-2''],
     dc_roles = [default_role\<lparr>r_role_type := Engineer, r_use_worktrees := True\<rparr>],
     dc_excluded_tags = [], dc_rescue_base = 60, dc_release_base = 60, dc_dedup_window = 60, dc_manual_cooldown = 60,
     dc_stabilization_delay = 0, dc_policy = sample_policy, dc_file_locks = False, dc_allocation = default_allocation,
     dc_automation_sender = None \<rparr>"

definition idle_daemon :: daemon where
  "idle_daemon = \<lparr> dm_states = (\<lambda>_. Some Idle), dm_active = (\<lambda>_. None), dm_queue = [], dm_recent = (\<lambda>_. None),
     dm_rescues = (\<lambda>_. None), dm_releases = (\<lambda>_. None), dm_manual = (\<lambda>_. None), dm_idle_since = (\<lambda>_. None),
     dm_escalations = (\<lambda>_. None), dm_messages = [], dm_retry_counts = (\<lambda>_. None) \<rparr>"

definition quiet_world :: world where
  "quiet_world = \<lparr> wl_libs = plain_libs, wl_now = 1000, wl_wall = 0, wl_unix = 5, wl_files = (\<lambda>_. None),
     wl_benched = {''eng-1''}, wl_parked = (\<lambda>_. False), wl_regexes = sample_regexes, wl_percent = (\<lambda>_. 0),
     wl_persisted = [], wl_telemetry = (\<lambda>_. None), wl_performance = (\<lambda>_. None) \<rparr>"

definition todo_task :: "nat \<Rightarrow> task" where
  "todo_task i = sample_task\<lparr>t_id := i, t_status := ''todo'', t_blocked := None, t_description := []\<rparr>"

text \<open>Two tasks and one engineer who is not benched: the first task goes to that engineer.\<close>

lemma sample_enqueued:
  "map_option (\<lambda>(err, ts, d). (err, map (\<lambda>e. (de_task_id e, de_engineer e)) (dm_queue d), map t_id ts))
     (enqueue_dispatch_candidates 3 sample_dispatch quiet_world [todo_task 4, todo_task 9] idle_daemon)
   = Some (None, [(4, ''eng-2'')], [4, 9])"
  by code_simp

theorem enqueue_terminates_witness:
  "enqueue_dispatch_candidates 3 sample_dispatch quiet_world [todo_task 4, todo_task 9] idle_daemon \<noteq> None"
proof -
  have d: "distinct (map t_id [todo_task 4, todo_task 9])" by (simp add: todo_task_def)
  have s: "\<forall>t \<in> set [todo_task 4, todo_task 9]. t_id t < 2 ^ 32" by (simp add: todo_task_def)
  have "skip_overlap_checks sample_dispatch" by code_simp
  from enqueue_terminates [OF d s disjI1 [OF this]] show ?thesis by (simp add: numeral_3_eq_3)
qed

theorem enqueue_sound_witness:
  "\<exists>t \<in> set (dispatchable_now sample_dispatch quiet_world (expire_records sample_dispatch quiet_world idle_daemon)
       [todo_task 4, todo_task 9] {}). t_id t = 4
     \<and> may_take sample_dispatch quiet_world (expire_records sample_dispatch quiet_world idle_daemon)
         (peer_pickup_allowed sample_dispatch quiet_world (expire_records sample_dispatch quiet_world idle_daemon)
            [todo_task 4, todo_task 9]) t ''eng-2''"
proof -
  from sample_enqueued obtain err ts d' where
    r: "enqueue_dispatch_candidates 3 sample_dispatch quiet_world [todo_task 4, todo_task 9] idle_daemon = Some (err, ts, d')"
    and q: "map (\<lambda>e. (de_task_id e, de_engineer e)) (dm_queue d') = [(4, ''eng-2'')]" by auto
  then obtain e where e: "dm_queue d' = [e]" "de_task_id e = 4" "de_engineer e = ''eng-2''" by (cases "dm_queue d'") auto
  have "dm_queue idle_daemon = []" by (simp add: idle_daemon_def)
  with enqueue_sound [OF r] e show ?thesis by (auto simp: new_entry_def)
qed

theorem enqueue_work_conserving_witness:
  "map_option (\<lambda>(_, ts, d). (ts = [todo_task 4, todo_task 9], list_ex (\<lambda>e. e = ''eng-2'') (map de_engineer (dm_queue d))))
     (enqueue_dispatch_candidates 3 sample_dispatch quiet_world [todo_task 4, todo_task 9] idle_daemon)
   = Some (True, True)"
proof -
  let ?ts = "[todo_task 4, todo_task 9]" and ?d = "expire_records sample_dispatch quiet_world idle_daemon"
  let ?p = "peer_pickup_allowed sample_dispatch quiet_world ?d ?ts"
  from sample_enqueued obtain ts d' where
    r: "enqueue_dispatch_candidates 3 sample_dispatch quiet_world ?ts idle_daemon = Some (None, ts, d')"
    and q: "map (\<lambda>e. (de_task_id e, de_engineer e)) (dm_queue d') = [(4, ''eng-2'')]" by auto
  have ids: "map de_task_id (dm_queue d') = [4]" using arg_cong [OF q, of "map fst"] by (simp add: comp_def)
  have s: "skip_overlap_checks sample_dispatch" by code_simp
  have d: "distinct (map t_id ?ts)" by (simp add: todo_task_def)
  have "list_ex (\<lambda>t. t = todo_task 9)
      (available_now sample_dispatch quiet_world ?d ?ts (set [4]) (verification_retry_ids sample_dispatch quiet_world ?d ?ts ?p))"
    by code_simp
  then have av: "todo_task 9 \<in> set (available_now sample_dispatch quiet_world ?d ?ts (set (map de_task_id (dm_queue d')))
      (verification_retry_ids sample_dispatch quiet_world ?d ?ts ?p))" unfolding ids list_ex_iff by blast
  have "may_take sample_dispatch quiet_world ?d ?p (todo_task 9) ''eng-2''" unfolding may_take_def by code_simp
  from enqueue_work_conserving [OF s d r av this] r show ?thesis by (simp add: list_ex_iff)
qed

section \<open>Where the loop does not end\<close>

text \<open>When the task in progress that overlaps the only candidate waits for that candidate, no
  dependency is safe: the round changes nothing and is repeated for ever.\<close>

lemma fill_stuck: "fill_step c w d ps p f = Some f \<Longrightarrow> fill_loop n c w d ps p f = None"
  by (induction n) simp_all

definition entangled_board :: "task list" where
  "entangled_board =
     [(todo_task 1)\<lparr>t_status := ''in-progress'', t_claimed_by := Some ''eng-1'', t_depends_on := [2],
        t_description := ''src/lib.rs''\<rparr>,
      (todo_task 2)\<lparr>t_description := ''src/lib.rs''\<rparr>]"

definition shared_dispatch :: dispatch_config where
  "shared_dispatch = sample_dispatch\<lparr>dc_roles := [default_role\<lparr>r_role_type := Engineer, r_use_worktrees := False\<rparr>]\<rparr>"

lemma entangled_step:
  "fill_step shared_dispatch quiet_world (expire_records shared_dispatch quiet_world idle_daemon) ps p
     (start_fill (expire_records shared_dispatch quiet_world idle_daemon) entangled_board)
   = Some (start_fill (expire_records shared_dispatch quiet_world idle_daemon) entangled_board)"
  by code_simp

lemma enqueue_never_ends: "enqueue_dispatch_candidates n shared_dispatch quiet_world entangled_board idle_daemon = None"
proof -
  have "case dispatch_profiles shared_dispatch quiet_world entangled_board of Inl _ \<Rightarrow> False | Inr _ \<Rightarrow> True" by code_simp
  then obtain ps where "dispatch_profiles shared_dispatch quiet_world entangled_board = Inr ps" by (auto split: sum.splits)
  then show ?thesis by (simp add: enqueue_dispatch_candidates_def fill_stuck [OF entangled_step])
qed

end
