(* ===== verification/Policy.thy ===== *)
theory Policy
  imports Team_Config
begin

text \<open>
  The limits of the workflow policy (\<open>src/team/policy.rs\<close>): work in progress, review age and
  escalation, with the overrides per priority. Ages are 64-bit and counts 32-bit numbers.
\<close>

definition check_wip_limit :: "workflow_policy \<Rightarrow> role_type \<Rightarrow> u32 \<Rightarrow> bool" where
  "check_wip_limit p role active_count =
     (case (case role of
              Engineer \<Rightarrow> wip_limit_per_engineer p
            | Architect \<Rightarrow> wip_limit_per_reviewer p
            | Manager \<Rightarrow> wip_limit_per_reviewer p
            | User \<Rightarrow> None) of
        Some limit \<Rightarrow> active_count < limit
      | None \<Rightarrow> True)"

definition is_review_nudge_due :: "workflow_policy \<Rightarrow> u64 \<Rightarrow> bool" where
  "is_review_nudge_due p age = (age \<ge> review_nudge_threshold_secs p)"

definition is_review_stale :: "workflow_policy \<Rightarrow> u64 \<Rightarrow> bool" where
  "is_review_stale p age = (age \<ge> review_timeout_secs p)"

definition should_escalate :: "workflow_policy \<Rightarrow> u64 \<Rightarrow> bool" where
  "should_escalate p age = (age \<ge> escalation_threshold_secs p)"

definition override_for :: "workflow_policy \<Rightarrow> string \<Rightarrow> review_timeout_override option" where
  "override_for p priority =
     (if priority = [] then None else map_of (review_timeout_overrides p) priority)"

definition effective_nudge_threshold :: "workflow_policy \<Rightarrow> string \<Rightarrow> u64" where
  "effective_nudge_threshold p priority =
     (case Option.bind (override_for p priority) o_review_nudge_threshold_secs of
        Some secs \<Rightarrow> secs
      | None \<Rightarrow> review_nudge_threshold_secs p)"

definition effective_escalation_threshold :: "workflow_policy \<Rightarrow> string \<Rightarrow> u64" where
  "effective_escalation_threshold p priority =
     (case Option.bind (override_for p priority) o_review_timeout_secs of
        Some secs \<Rightarrow> secs
      | None \<Rightarrow> review_timeout_secs p)"

text \<open>A limit of at least one never stops an engineer who has no active item.\<close>

lemma wip_limit_idle: "wip_limit_per_engineer p \<noteq> Some 0 \<Longrightarrow> check_wip_limit p Engineer 0"
  by (auto simp: check_wip_limit_def word_gt_0 split: option.split)

end
