(* ===== verification/Dispatch_Process.thy ===== *)
theory Dispatch_Process
  imports Dispatcher Task_Cmd Policy "HOL-Library.Sublist"
begin

text \<open>
  Draining the dispatch queue (\<open>process_dispatch_queue\<close> in \<open>src/team/dispatch/queue.rs\<close>, with
  \<open>guard.rs\<close>, \<open>stabilization.rs\<close>, \<open>wip.rs\<close> and the alerts of \<open>src/team/daemon.rs\<close>). The board is
  the directory of task files of the theory of task commands, read again where the code reads
  it again, and changed by the commands.

  What runs outside, in git worktrees, in the agents' sessions and in the delivery of messages, is
  a record of parameters: the outcome of each git step, and for a launch or a message the state
  it leaves and its error. So is \<open>reconcile_active_tasks\<close>, the first step of a drain, and the
  failure to read the bench, the second: both end the call before the queue is touched.  Reading the
  tasks directory is assumed to succeed (\<open>task_for_dispatch_entry\<close> and the count of active items
  end the call otherwise, after the queue was taken), and failure counts are unbounded (\<open>u32\<close>
  in the code). Events and logs are left out.
\<close>

section \<open>Surroundings\<close>

record git_outcome =
  go_ready :: "string option"
  go_has_work :: bool
  go_rebased :: bool
  go_ready_after :: "string option"
  go_reset :: "string + (bool \<times> string)"
  go_dirty_reason :: string

type_synonym office = "board \<times> daemon"

record surroundings =
  sr_git_project :: bool
  sr_git :: "string \<Rightarrow> git_outcome"
  sr_reconcile :: "office \<Rightarrow> office \<times> string option"
  sr_bench_error :: "string option"
  sr_launch :: "string \<Rightarrow> string \<Rightarrow> nat \<Rightarrow> office \<Rightarrow> office \<times> string option"
  sr_deliver :: "string \<Rightarrow> string \<Rightarrow> string \<Rightarrow> office \<Rightarrow> office \<times> string option"
  sr_error_text :: "cmd_error \<Rightarrow> string"
  sr_digest :: "string \<Rightarrow> nat"

definition load_board :: "libs \<Rightarrow> board \<Rightarrow> board \<times> task list" where
  "load_board L b = (case load_tasks_from_dir L (bd_files b) of (files, tasks) \<Rightarrow> (b\<lparr>bd_files := files\<rparr>, tasks))"

definition on_board :: "world \<Rightarrow> board \<Rightarrow> world" where
  "on_board w b = w\<lparr>wl_files := map_of (bd_files b)\<rparr>"

section \<open>Guards\<close>

definition should_hold_dispatch_for_stabilization :: "dispatch_config \<Rightarrow> world \<Rightarrow> daemon \<Rightarrow> string \<Rightarrow> bool" where
  "should_hold_dispatch_for_stabilization c w d engineer =
     (case dm_idle_since d engineer of
        None \<Rightarrow> True
      | Some started \<Rightarrow> elapsed (wl_now w) started < dc_stabilization_delay c)"

definition engineer_active_board_task_ids :: "task list \<Rightarrow> string \<Rightarrow> nat list" where
  "engineer_active_board_task_ids tasks engineer =
     sort (map t_id (filter (\<lambda>t.
        (t_status t = ''todo'' \<or> t_status t = ''in-progress'') \<and> t_claimed_by t = Some engineer
        \<or> t_status t = ''review'' \<and> t_review_owner t = Some engineer) tasks))"

definition engineer_active_board_item_count :: "task list \<Rightarrow> string \<Rightarrow> u32" where
  "engineer_active_board_item_count tasks engineer = of_nat (length (engineer_active_board_task_ids tasks engineer))"

definition still_dispatchable :: "dispatch_config \<Rightarrow> world \<Rightarrow> daemon \<Rightarrow> task list \<Rightarrow> dispatch_entry \<Rightarrow> task \<Rightarrow> bool" where
  "still_dispatchable c w d tasks entry t =
     (let retry = verification_retry_dispatchable_task c w d t True in
      t_id t = de_task_id entry
      \<and> (t_status t = ''backlog'' \<or> t_status t = ''todo'' \<or> retry)
      \<and> (t_claimed_by t = None \<or> retry)
      \<and> t_blocked t = None \<and> t_blocked_on t = None
      \<and> \<not> is_schedule_blocked (wl_libs w) (wl_wall w) t
      \<and> known_deps_satisfied t (status_by_id tasks)
      \<and> body_dependencies_satisfied t (status_by_id tasks))"

definition task_for_dispatch_entry ::
  "dispatch_config \<Rightarrow> world \<Rightarrow> board \<Rightarrow> daemon \<Rightarrow> dispatch_entry \<Rightarrow> board \<times> task option" where
  "task_for_dispatch_entry c w b d entry =
     (let (b', tasks) = load_board (wl_libs w) b in
      (b', find (still_dispatchable c (on_board w b') d tasks entry) tasks))"

definition member_uses_worktrees :: "surroundings \<Rightarrow> dispatch_config \<Rightarrow> string \<Rightarrow> bool" where
  "member_uses_worktrees sr c engineer =
     (if \<not> sr_git_project sr then False
      else (case find (\<lambda>m. m_name m = engineer) (dc_members c) of Some m \<Rightarrow> m_use_worktrees m | None \<Rightarrow> False))"

section \<open>Messages and alerts\<close>

definition manager_name :: "dispatch_config \<Rightarrow> string \<Rightarrow> string option" where
  "manager_name c engineer = Option.bind (find (\<lambda>m. m_name m = engineer) (dc_members c)) m_reports_to"

definition assignment_sender :: "dispatch_config \<Rightarrow> string \<Rightarrow> string" where
  "assignment_sender c engineer = (case manager_name c engineer of Some s \<Rightarrow> s | None \<Rightarrow> ''human'')"

definition dispatch_failure_recipient :: "dispatch_config \<Rightarrow> string \<Rightarrow> string option" where
  "dispatch_failure_recipient c engineer =
     opt_or (manager_name c engineer)
       (map_option m_name (find (\<lambda>m. m_role_type m = Manager) (dc_members c)))"

definition automation_sender_for :: "dispatch_config \<Rightarrow> string \<Rightarrow> string" where
  "automation_sender_for c recipient =
     (case manager_name c recipient of
        Some parent \<Rightarrow> parent
      | None \<Rightarrow> (case dc_automation_sender c of Some s \<Rightarrow> s | None \<Rightarrow> ''daemon''))"

definition queue_daemon_message ::
  "surroundings \<Rightarrow> dispatch_config \<Rightarrow> string \<Rightarrow> string \<Rightarrow> office \<Rightarrow> office \<times> string option" where
  "queue_daemon_message sr c recipient body = sr_deliver sr (automation_sender_for c recipient) recipient body"

definition suppress_recent_escalation :: "nat \<Rightarrow> string \<Rightarrow> nat \<Rightarrow> daemon \<Rightarrow> daemon \<times> bool" where
  "suppress_recent_escalation now key window d =
     (let recent = (\<lambda>k. opt_filter (\<lambda>seen_at. elapsed now seen_at < window) (dm_escalations d k)) in
      if recent key \<noteq> None then (d\<lparr>dm_escalations := recent\<rparr>, True)
      else (d\<lparr>dm_escalations := recent(key \<mapsto> now)\<rparr>, False))"

definition record_recent :: "world \<Rightarrow> dispatch_entry \<Rightarrow> daemon \<Rightarrow> daemon" where
  "record_recent w entry d = d\<lparr>dm_recent := (dm_recent d)((de_task_id entry, de_engineer entry) \<mapsto> wl_now w)\<rparr>"

definition escalation_body :: "dispatch_entry \<Rightarrow> string \<Rightarrow> string" where
  "escalation_body entry detail =
     ''Dispatch queue entry failed validation too many times.'' @ [newline]
     @ ''Engineer: '' @ de_engineer entry @ [newline]
     @ ''Task #'' @ show_nat (de_task_id entry) @ '': '' @ de_task_title entry @ [newline]
     @ ''Failures: '' @ show_nat (de_failures entry) @ [newline]
     @ ''Last failure: '' @ detail"

definition escalate_dispatch_queue_entry ::
  "surroundings \<Rightarrow> dispatch_config \<Rightarrow> world \<Rightarrow> dispatch_entry \<Rightarrow> string \<Rightarrow> office \<Rightarrow> office \<times> string option" where
  "escalate_dispatch_queue_entry sr c w entry detail = (\<lambda>(b, d).
     case dispatch_failure_recipient c (de_engineer entry) of
       None \<Rightarrow> ((b, d), None)
     | Some manager \<Rightarrow>
         (let key = ''dispatch-fail:'' @ show_nat (de_task_id entry) @ '':'' @ de_engineer entry;
              (d1, suppressed) = suppress_recent_escalation (wl_now w) key (from_secs 900) d
          in
          if suppressed then ((b, record_recent w entry d1), None)
          else
            (case queue_daemon_message sr c manager (escalation_body entry detail) (b, d1) of
               (st, Some e) \<Rightarrow> (st, Some e)
             | ((b2, d2), None) \<Rightarrow> ((b2, record_recent w entry d2), None))))"

definition report_preserve_failure ::
  "surroundings \<Rightarrow> dispatch_config \<Rightarrow> world \<Rightarrow> string \<Rightarrow> nat option \<Rightarrow> string \<Rightarrow> string \<Rightarrow> office \<Rightarrow> office" where
  "report_preserve_failure sr c w member task_id context' detail = (\<lambda>(b, d).
     let core = ''Batty could not safely auto-save '' @ member @ [CHR 0x27] @ ''s dirty worktree before ''
                @ context' @ ''. '' @ detail;
         reason = (case task_id of
             Some i \<Rightarrow> ''Task #'' @ show_nat i @ '' is blocked because '' @ core
           | None \<Rightarrow> core);
         key = ''preserve:'' @ member @ '':'' @ (case task_id of Some i \<Rightarrow> show_nat i | None \<Rightarrow> ''-'')
               @ '':'' @ context' @ '':'' @ show_nat (sr_digest sr detail);
         (d1, suppressed) = suppress_recent_escalation (wl_now w) key (from_secs 600) d
     in
     if suppressed then (b, d1)
     else
       (let b1 = (case task_id of
            None \<Rightarrow> b
          | Some i \<Rightarrow> fst (block_task_with_reason_and_attribution (wl_libs w) (wl_wall w) i reason
                            (daemon_attribution ''daemon.preserve_failure'') b));
            st = fst (queue_daemon_message sr c member reason (b1, d1))
        in fst (queue_daemon_message sr c (assignment_sender c member) reason st)))"

section \<open>One entry\<close>

datatype process_error =
    CommandFailed cmd_error
  | DeliveryFailed string
  | ReconcileFailed string
  | BenchUnreadable string

text \<open>What becomes of an entry: it leaves the queue, stays in it, is sent, or an error ends the call.\<close>

datatype verdict = Dropped | Kept dispatch_entry | Sent | Broken process_error

definition failure_limit :: nat where "failure_limit = 3"

definition failed_again :: "dispatch_entry \<Rightarrow> string \<Rightarrow> dispatch_entry" where
  "failed_again entry reason = entry\<lparr>de_failures := de_failures entry + 1, de_last_failure := Some reason\<rparr>"

definition fresh_chance :: "dispatch_entry \<Rightarrow> dispatch_entry" where
  "fresh_chance entry = entry\<lparr>de_failures := 0, de_last_failure := None\<rparr>"

text \<open>An entry that failed: escalated at the limit, kept before it.\<close>

definition strike ::
  "surroundings \<Rightarrow> dispatch_config \<Rightarrow> world \<Rightarrow> dispatch_entry \<Rightarrow> string \<Rightarrow> office \<Rightarrow> office \<times> verdict" where
  "strike sr c w entry reason st =
     (if failure_limit \<le> de_failures entry then
        (case escalate_dispatch_queue_entry sr c w entry reason st of
           (st', Some e) \<Rightarrow> (st', Broken (DeliveryFailed e))
         | (st', None) \<Rightarrow> (st', Dropped))
      else (st, Kept entry))"

definition recover_stuck :: "world \<Rightarrow> string \<Rightarrow> daemon \<Rightarrow> daemon" where
  "recover_stuck w engineer d =
     (if dm_states d engineer = Some Working \<and> dm_active d engineer = None
      then d\<lparr>dm_states := (dm_states d)(engineer \<mapsto> Idle), dm_idle_since := (dm_idle_since d)(engineer \<mapsto> wl_now w)\<rparr>
      else d)"

text \<open>The engineer is busy: another idle engineer without active items takes the entry over.\<close>

definition reassign_or_fail ::
  "dispatch_config \<Rightarrow> world \<Rightarrow> dispatch_entry list \<Rightarrow> dispatch_entry \<Rightarrow> u32 \<Rightarrow> office \<Rightarrow> office \<times> verdict" where
  "reassign_or_fail c w retained entry active = (\<lambda>(b, d).
     let (b1, tasks) = load_board (wl_libs w) b;
         alt = find (\<lambda>name. name \<noteq> de_engineer entry \<and> name \<notin> set (map de_engineer retained)
                       \<and> engineer_active_board_item_count tasks name = 0) (idle_engineer_names c d)
     in
     case alt of
       Some engineer \<Rightarrow> ((b1, d), Kept ((fresh_chance entry)\<lparr>de_engineer := engineer\<rparr>))
     | None \<Rightarrow>
         (let entry' = failed_again entry (''Dispatch guard blocked assignment for '' @ [CHR 0x27] @ de_engineer entry
                @ [CHR 0x27] @ '' with '' @ show_nat (unat active) @ '' active board item(s); no idle alternative'')
          in ((b1, d), if failure_limit \<le> de_failures entry' then Dropped else Kept entry')))"

text \<open>The worktree of the engineer is not ready: rebase work, reset what is clean, and try again in the
  next round.\<close>

definition recovery_label :: string where "recovery_label = ''dispatch/reset recovery''"

definition recover_worktree ::
  "surroundings \<Rightarrow> dispatch_config \<Rightarrow> world \<Rightarrow> dispatch_entry \<Rightarrow> string \<Rightarrow> office \<Rightarrow> office \<times> verdict" where
  "recover_worktree sr c w entry0 error st =
     (let g = sr_git sr (de_engineer entry0);
          entry = failed_again entry0 error
      in
      if go_has_work g \<and> go_rebased g \<and> go_ready_after g = None then (st, Kept (fresh_chance entry))
      else
        (case go_reset g of
           Inl reset_error \<Rightarrow>
             (let entry' = failed_again entry reset_error;
                  st' = report_preserve_failure sr c w (de_engineer entry) None recovery_label reset_error st
              in strike sr c w entry' reset_error st')
         | Inr (True, _) \<Rightarrow> (st, Kept (fresh_chance entry))
         | Inr (False, reason) \<Rightarrow>
             (report_preserve_failure sr c w (de_engineer entry) None recovery_label reason st,
              Kept (failed_again entry (go_dirty_reason g)))))"

definition assignment_message :: "world \<Rightarrow> task \<Rightarrow> string" where
  "assignment_message w t =
     (let message = ''Task #'' @ show_nat (t_id t) @ '': '' @ t_title t @ [newline, newline] @ t_description t in
      case verification_retry_assignment_context (wl_libs w) (wl_files w) t of
        Some context' \<Rightarrow> message @ [newline, newline] @ context'
      | None \<Rightarrow> message)"

definition queue_attribution :: attribution where
  "queue_attribution = daemon_attribution ''daemon.dispatch.queue''"

text \<open>The board first, then the engineer.\<close>

definition start_task ::
  "surroundings \<Rightarrow> dispatch_config \<Rightarrow> world \<Rightarrow> dispatch_entry \<Rightarrow> task \<Rightarrow> office \<Rightarrow> office \<times> verdict" where
  "start_task sr c w entry t = (\<lambda>(b, d).
     let b1 = (if t_status t = ''backlog''
               then fst (transition_task_with_attribution (wl_libs w) (wl_wall w) (t_id t) ''todo'' queue_attribution b)
               else b)
     in
     case transition_task_with_attribution (wl_libs w) (wl_wall w) (t_id t) ''in-progress'' queue_attribution b1 of
       (b2, Inl e) \<Rightarrow>
         (let reason = ''board transition failed: '' @ sr_error_text sr e
          in strike sr c w (failed_again entry reason) reason (b2, d))
     | (b2, Inr _) \<Rightarrow>
         (case assign_task_owners (wl_libs w) (wl_wall w) (t_id t) (Some (de_engineer entry)) None b2 of
            (b3, Inl e) \<Rightarrow> ((b3, d), Broken (CommandFailed e))
          | (b3, Inr _) \<Rightarrow>
              (case sr_launch sr (de_engineer entry) (assignment_message (on_board w b3) t) (t_id t) (b3, d) of
                 ((b4, d4), None) \<Rightarrow>
                   ((b4, record_recent w entry (d4\<lparr>
                       dm_active := (dm_active d4)(de_engineer entry \<mapsto> t_id t),
                       dm_retry_counts := (dm_retry_counts d4)(de_engineer entry := None)\<rparr>)), Sent)
               | (st4, Some error) \<Rightarrow> strike sr c w (failed_again entry error) error st4)))"

definition unmet_body_ids :: "task list \<Rightarrow> nat list \<Rightarrow> nat list" where
  "unmet_body_ids tasks ids =
     filter (\<lambda>i. \<not> list_ex (\<lambda>t. t_id t = i \<and> dep_status_satisfied (t_status t)) tasks) ids"

text \<open>The task is still there and its engineer is idle.\<close>

definition dispatch_task ::
  "surroundings \<Rightarrow> dispatch_config \<Rightarrow> world \<Rightarrow> dispatch_entry list \<Rightarrow> dispatch_entry \<Rightarrow> task \<Rightarrow> office \<Rightarrow> office \<times> verdict" where
  "dispatch_task sr c w retained entry t = (\<lambda>(b, d).
     let retry = verification_retry_dispatchable_task c (on_board w b) d t True in
     if t_status t = ''in-progress'' \<and> \<not> retry then ((b, d), Dropped)
     else
       (let (b1, tasks) = load_board (wl_libs w) b;
            blocked_by_body = (case parse_body_dependency_ids (t_description t) of
                None \<Rightarrow> False
              | Some ids \<Rightarrow> ids = [] \<or> unmet_body_ids tasks ids \<noteq> [])
        in
        if blocked_by_body then
          ((fst (transition_task_with_attribution (wl_libs w) (wl_wall w) (t_id t) ''blocked''
                   (daemon_attribution ''daemon.dispatch.queue.dependencies'') b1), d), Dropped)
        else
          (let active = engineer_active_board_item_count tasks (de_engineer entry);
               effective = (if retry \<and> t_claimed_by t = Some (de_engineer entry)
                            then u32_saturating_sub active 1 else active)
           in
           if effective > 0 then reassign_or_fail c w retained entry effective (b1, d)
           else if \<not> check_wip_limit (dc_policy c) Engineer effective then
             (let reason = ''WIP gate blocked dispatch for '' @ [CHR 0x27] @ de_engineer entry @ [CHR 0x27] @ '' with ''
                    @ show_nat (unat effective) @ '' active board task(s)''
              in strike sr c w (failed_again entry reason) reason (b1, d))
           else if member_uses_worktrees sr c (de_engineer entry) \<and> go_ready (sr_git sr (de_engineer entry)) \<noteq> None then
             recover_worktree sr c w entry (the (go_ready (sr_git sr (de_engineer entry)))) (b1, d)
           else start_task sr c w entry t (b1, d))))"

definition process_entry ::
  "surroundings \<Rightarrow> dispatch_config \<Rightarrow> world \<Rightarrow> (nat \<Rightarrow> bool) \<Rightarrow> dispatch_entry list \<Rightarrow> dispatch_entry \<Rightarrow> office
     \<Rightarrow> office \<times> verdict" where
  "process_entry sr c w rescued retained entry = (\<lambda>(b, d).
     case task_for_dispatch_entry c w b d entry of
       (b1, None) \<Rightarrow> ((b1, d), Dropped)
     | (b1, Some _) \<Rightarrow>
         if rescued (de_task_id entry) then ((b1, d), Dropped)
         else if release_held c w d (de_task_id entry) (de_engineer entry) then ((b1, d), Dropped)
         else if de_engineer entry \<in> wl_benched w then ((b1, d), Dropped)
         else
           (let d1 = recover_stuck w (de_engineer entry) d in
            if dm_states d1 (de_engineer entry) \<noteq> Some Idle then ((b1, d1), Kept entry)
            else if should_hold_dispatch_for_stabilization c w d1 (de_engineer entry) then ((b1, d1), Kept entry)
            else
              (case task_for_dispatch_entry c w b1 d1 entry of
                 (b2, None) \<Rightarrow> ((b2, d1), Dropped)
               | (b2, Some t) \<Rightarrow> dispatch_task sr c w retained entry t (b2, d1))))"

section \<open>The queue\<close>

fun process_entries ::
  "surroundings \<Rightarrow> dispatch_config \<Rightarrow> world \<Rightarrow> (nat \<Rightarrow> bool) \<Rightarrow> dispatch_entry list \<Rightarrow> dispatch_entry list \<Rightarrow> office
     \<Rightarrow> office \<times> (process_error + dispatch_entry list)" where
  "process_entries sr c w rescued retained [] st = (st, Inr retained)"
| "process_entries sr c w rescued retained (entry # later) st =
     (case process_entry sr c w rescued retained entry st of
        (st', Broken e) \<Rightarrow> (st', Inl e)
      | (st', Kept entry') \<Rightarrow> process_entries sr c w rescued (retained @ [entry']) later st'
      | (st', _) \<Rightarrow> process_entries sr c w rescued retained later st')"

text \<open>The active tasks are reconciled and the bench is read; then the queue is taken out of the
  daemon while it is drained and put back at the end: after an error in between it is gone.\<close>

definition process_dispatch_queue ::
  "surroundings \<Rightarrow> dispatch_config \<Rightarrow> world \<Rightarrow> office \<Rightarrow> office \<times> (process_error + unit)" where
  "process_dispatch_queue sr c w st0 =
     (case sr_reconcile sr st0 of
        (st, Some e) \<Rightarrow> (st, Inl (ReconcileFailed e))
      | ((b, d), None) \<Rightarrow>
          (case sr_bench_error sr of
             Some e \<Rightarrow> ((b, d), Inl (BenchUnreadable e))
           | None \<Rightarrow>
               (case process_entries sr c w (rescued_task_ids c w d) [] (dm_queue d) (b, d\<lparr>dm_queue := []\<rparr>) of
                  (st, Inl e) \<Rightarrow> (st, Inl e)
                | ((b', d'), Inr retained) \<Rightarrow> ((b', d'\<lparr>dm_queue := retained\<rparr>), Inr ()))))"

text \<open>The errors that come before the queue is taken.\<close>

fun before_drain :: "process_error \<Rightarrow> bool" where
  "before_drain (ReconcileFailed e) = True"
| "before_drain (BenchUnreadable e) = True"
| "before_drain (CommandFailed e) = False"
| "before_drain (DeliveryFailed e) = False"

section \<open>When an entry is sent\<close>

lemma strike_verdict: "snd (strike sr c w entry reason st) \<in> {Dropped, Kept entry} \<union> range Broken"
  by (auto simp: strike_def split: prod.split option.split)

lemma strike_Kept: "strike sr c w entry reason st = (st', Kept e') \<Longrightarrow> e' = entry \<and> de_failures entry < failure_limit"
  by (auto simp: strike_def split: prod.splits option.splits if_splits)

lemma strike_not_Sent [simp]: "strike sr c w entry reason st \<noteq> (st', Sent)"
  by (auto simp: strike_def split: prod.splits option.splits if_splits)

lemma reassign_not_Sent [simp]: "reassign_or_fail c w retained entry active st \<noteq> (st', Sent)"
  by (cases st) (auto simp: reassign_or_fail_def Let_def split: prod.splits option.splits if_splits)

lemma recover_not_Sent [simp]: "recover_worktree sr c w entry error st \<noteq> (st', Sent)"
  by (auto simp: recover_worktree_def Let_def split: sum.splits prod.splits bool.splits)

text \<open>The steps that start a task: the board says so and names the engineer before the launch.\<close>

definition started ::
  "surroundings \<Rightarrow> world \<Rightarrow> dispatch_entry \<Rightarrow> task \<Rightarrow> office \<Rightarrow> office \<Rightarrow> bool" where
  "started sr w entry t st st' \<longleftrightarrow>
     (\<exists>b1 b2 b3 b4 d4.
        (b1 = fst st \<or> t_status t = ''backlog''
           \<and> b1 = fst (transition_task_with_attribution (wl_libs w) (wl_wall w) (t_id t) ''todo'' queue_attribution (fst st)))
        \<and> transition_task_with_attribution (wl_libs w) (wl_wall w) (t_id t) ''in-progress'' queue_attribution b1 = (b2, Inr ())
        \<and> assign_task_owners (wl_libs w) (wl_wall w) (t_id t) (Some (de_engineer entry)) None b2 = (b3, Inr ())
        \<and> sr_launch sr (de_engineer entry) (assignment_message (on_board w b3) t) (t_id t) (b3, snd st) = ((b4, d4), None)
        \<and> st' = (b4, record_recent w entry (d4\<lparr>dm_active := (dm_active d4)(de_engineer entry \<mapsto> t_id t),
             dm_retry_counts := (dm_retry_counts d4)(de_engineer entry := None)\<rparr>)))"

lemma start_task_Sent:
  assumes "start_task sr c w entry t (b, d) = (st', Sent)"
  shows "started sr w entry t (b, d) st'"
proof -
  let ?tr = "\<lambda>s. transition_task_with_attribution (wl_libs w) (wl_wall w) (t_id t) s queue_attribution"
  define b1 where "b1 = (if t_status t = ''backlog'' then fst (?tr ''todo'' b) else b)"
  obtain b2 r2 where 2: "?tr ''in-progress'' b1 = (b2, r2)" by fastforce
  with assms have r2: "r2 = Inr ()" by (cases r2) (auto simp: start_task_def b1_def Let_def)
  obtain b3 r3 where 3: "assign_task_owners (wl_libs w) (wl_wall w) (t_id t) (Some (de_engineer entry)) None b2 = (b3, r3)" by fastforce
  with assms 2 r2 have r3: "r3 = Inr ()" by (cases r3) (auto simp: start_task_def b1_def Let_def)
  obtain b4 d4 e where 4: "sr_launch sr (de_engineer entry) (assignment_message (on_board w b3) t) (t_id t) (b3, d) = ((b4, d4), e)"
    by (metis prod.exhaust)
  with assms 2 r2 3 r3 have e: "e = None"
    and st: "st' = (b4, record_recent w entry (d4\<lparr>dm_active := (dm_active d4)(de_engineer entry \<mapsto> t_id t),
             dm_retry_counts := (dm_retry_counts d4)(de_engineer entry := None)\<rparr>))"
    by (cases e; simp add: start_task_def b1_def Let_def)+
  show ?thesis unfolding started_def using 2 r2 3 r3 4 e st
    by (intro exI [of _ b1] exI [of _ b2] exI [of _ b3] exI [of _ b4] exI [of _ d4]) (simp add: b1_def)
qed

lemma dispatch_task_Sent:
  assumes "dispatch_task sr c w retained entry t (b, d) = (st', Sent)"
  shows "let retry = verification_retry_dispatchable_task c (on_board w b) d t True;
      (b1, tasks) = load_board (wl_libs w) b;
      active = engineer_active_board_item_count tasks (de_engineer entry) in
    (t_status t = ''in-progress'' \<longrightarrow> retry)
    \<and> active \<le> (if retry \<and> t_claimed_by t = Some (de_engineer entry) then 1 else 0)
    \<and> (member_uses_worktrees sr c (de_engineer entry) \<longrightarrow> go_ready (sr_git sr (de_engineer entry)) = None)
    \<and> started sr w entry t (b1, d) st'"
proof -
  obtain b1 tasks where l: "load_board (wl_libs w) b = (b1, tasks)" by fastforce
  let ?retry = "verification_retry_dispatchable_task c (on_board w b) d t True"
  let ?active = "engineer_active_board_item_count tasks (de_engineer entry)"
  let ?eff = "if ?retry \<and> t_claimed_by t = Some (de_engineer entry) then u32_saturating_sub ?active 1 else ?active"
  note run = assms [unfolded dispatch_task_def Let_def prod.case l]
  have ip: "t_status t = ''in-progress'' \<longrightarrow> ?retry" using run by (auto split: if_splits)
  have eff: "?eff = 0" using run by (auto simp: word_gt_0 split: if_splits)
  have act: "?active \<le> (if ?retry \<and> t_claimed_by t = Some (de_engineer entry) then 1 else 0)"
  proof (cases "?retry \<and> t_claimed_by t = Some (de_engineer entry)")
    case True
    with eff have "unat (u32_saturating_sub ?active 1) = 0" by simp
    then have "unat ?active \<le> 1" by (simp add: unat_saturating_sub)
    with True show ?thesis by (simp add: word_le_nat_alt)
  qed (use eff in auto)
  have wt: "member_uses_worktrees sr c (de_engineer entry) \<longrightarrow> go_ready (sr_git sr (de_engineer entry)) = None"
    using run by (auto split: if_splits)
  have "start_task sr c w entry t (b1, d) = (st', Sent)"
    using run by (auto split: if_splits)
  from start_task_Sent [OF this] ip act wt show ?thesis by (simp add: l Let_def)
qed

section \<open>What becomes of the queue\<close>

text \<open>The same job with the same engineer or with one that is idle.\<close>

definition same_job :: "dispatch_entry \<Rightarrow> dispatch_entry \<Rightarrow> bool" where
  "same_job e e' \<longleftrightarrow> de_task_id e' = de_task_id e \<and> de_task_title e' = de_task_title e \<and> de_queued_at e' = de_queued_at e"

lemma same_job_simps [simp]:
  "same_job e e" "same_job e (failed_again e' r) = same_job e e'" "same_job e (fresh_chance e') = same_job e e'"
  "same_job e (e'\<lparr>de_engineer := n\<rparr>) = same_job e e'" "same_job (failed_again e' r) e = same_job e' e"
  by (simp_all add: same_job_def failed_again_def fresh_chance_def)

lemma reassign_Kept:
  assumes "reassign_or_fail c w retained entry active st = (st', Kept e')"
  shows "same_job entry e' \<and> de_failures e' < failure_limit \<and> de_failures e' \<le> de_failures entry + 2
    \<and> (de_engineer e' = de_engineer entry \<or> de_engineer e' \<notin> set (map de_engineer retained) \<and> de_engineer e' \<in> set (engineer_names c))"
proof -
  obtain b d where st: "st = (b, d)" by fastforce
  obtain b1 tasks where l: "load_board (wl_libs w) b = (b1, tasks)" by fastforce
  note run = assms [unfolded st reassign_or_fail_def Let_def prod.case l]
  show ?thesis
  proof (cases "find (\<lambda>name. name \<noteq> de_engineer entry \<and> name \<notin> set (map de_engineer retained)
                       \<and> engineer_active_board_item_count tasks name = 0) (idle_engineer_names c d)")
    case None
    with run show ?thesis by (auto simp: failed_again_def same_job_def split: if_splits)
  next
    case (Some n)
    from find_Some_in [OF this] run Some show ?thesis
      by (auto simp: fresh_chance_def same_job_def failure_limit_def idle_engineer_names_def)
  qed
qed

lemma recover_Kept:
  assumes "recover_worktree sr c w entry error st = (st', Kept e')"
  shows "same_job entry e' \<and> de_engineer e' = de_engineer entry \<and> de_failures e' \<le> de_failures entry + 2
    \<and> (de_failures e' < failure_limit
       \<or> de_failures e' = de_failures entry + 2 \<and> (\<exists>reason. go_reset (sr_git sr (de_engineer entry)) = Inr (False, reason)))"
  using assms
  by (auto simp: recover_worktree_def Let_def failed_again_def fresh_chance_def same_job_def failure_limit_def
      split: sum.splits prod.splits bool.splits if_splits dest!: strike_Kept)

text \<open>A worktree whose work cannot be saved holds its entry for ever: each round counts two failures,
  and the limit is not looked at.\<close>

lemma dirty_worktree_holds:
  assumes "go_reset (sr_git sr (de_engineer entry)) = Inr (False, reason)" and "\<not> go_has_work (sr_git sr (de_engineer entry))"
  shows "\<exists>e'. snd (recover_worktree sr c w entry error st) = Kept e' \<and> de_failures e' = de_failures entry + 2"
  using assms by (simp add: recover_worktree_def failed_again_def Let_def)

lemma start_Kept:
  "start_task sr c w entry t st = (st', Kept e') \<Longrightarrow>
   same_job entry e' \<and> de_engineer e' = de_engineer entry \<and> de_failures e' < failure_limit
   \<and> de_failures e' \<le> de_failures entry + 2"
  by (cases st) (auto simp: start_task_def Let_def failed_again_def same_job_def split: sum.splits prod.splits option.splits
      dest!: strike_Kept)

text \<open>Its failures: as they were, or at most two more and fewer than three in all; a worktree that
  is dirty and cannot be reset is the one reason to keep it with three or more, and each drain then counts two.\<close>

definition kept_job :: "surroundings \<Rightarrow> dispatch_config \<Rightarrow> dispatch_entry \<Rightarrow> dispatch_entry \<Rightarrow> bool" where
  "kept_job sr c e e' \<longleftrightarrow>
     same_job e e' \<and> (de_engineer e' = de_engineer e \<or> de_engineer e' \<in> set (engineer_names c))
     \<and> (e' = e
        \<or> de_failures e' \<le> de_failures e + 2 \<and> de_failures e' < failure_limit
        \<or> de_failures e' = de_failures e + 2 \<and> de_engineer e' = de_engineer e
          \<and> (\<exists>reason. go_reset (sr_git sr (de_engineer e)) = Inr (False, reason)))"

lemma kept_job_refl: "kept_job sr c e e"
  by (simp add: kept_job_def)

lemma dispatch_Kept:
  assumes "dispatch_task sr c w retained entry t st = (st', Kept e')"
  shows "kept_job sr c entry e'"
proof -
  obtain b d where st: "st = (b, d)" by fastforce
  obtain b1 tasks where l: "load_board (wl_libs w) b = (b1, tasks)" by fastforce
  note run = assms [unfolded st dispatch_task_def Let_def prod.case l]
  from run consider (busy) active where "reassign_or_fail c w retained entry active (b1, d) = (st', Kept e')"
    | (wip) reason where "strike sr c w (failed_again entry reason) reason (b1, d) = (st', Kept e')"
    | (worktree) error where "recover_worktree sr c w entry error (b1, d) = (st', Kept e')"
    | (start) "start_task sr c w entry t (b1, d) = (st', Kept e')"
    by (auto split: if_splits)
  then show ?thesis
  proof cases
    case busy
    from reassign_Kept [OF this] show ?thesis by (auto simp: kept_job_def)
  next
    case wip
    from strike_Kept [OF this] show ?thesis by (auto simp: kept_job_def failed_again_def same_job_def)
  next
    case worktree
    from recover_Kept [OF this] show ?thesis by (auto simp: kept_job_def)
  next
    case start
    from start_Kept [OF this] show ?thesis by (auto simp: kept_job_def)
  qed
qed

lemma process_Kept:
  assumes "process_entry sr c w rescued retained entry st = (st', Kept e')"
  shows "kept_job sr c entry e'"
proof -
  obtain b d where st: "st = (b, d)" by fastforce
  from assms have "e' = entry \<or> (\<exists>t st1. dispatch_task sr c w retained entry t st1 = (st', Kept e'))"
    by (auto simp: st process_entry_def Let_def split: prod.splits option.splits if_splits)
  then show ?thesis using dispatch_Kept kept_job_refl by metis
qed

text \<open>What one entry or the queue fails with is never an error of the two steps before.\<close>

lemma strike_error: "strike sr c w entry reason st = (st', Broken e) \<Longrightarrow> \<not> before_drain e"
  by (auto simp: strike_def split: prod.splits option.splits if_splits)

lemma reassign_error: "reassign_or_fail c w retained entry active st \<noteq> (st', Broken e)"
  by (cases st) (auto simp: reassign_or_fail_def Let_def split: prod.splits option.splits if_splits)

lemma recover_error: "recover_worktree sr c w entry error st = (st', Broken e) \<Longrightarrow> \<not> before_drain e"
  by (auto simp: recover_worktree_def Let_def dest: strike_error split: sum.splits prod.splits bool.splits if_splits)

lemma start_error: "start_task sr c w entry t st = (st', Broken e) \<Longrightarrow> \<not> before_drain e"
  by (cases st) (auto simp: start_task_def Let_def dest: strike_error split: sum.splits prod.splits option.splits)

lemma dispatch_error:
  assumes "dispatch_task sr c w retained entry t st = (st', Broken e)"
  shows "\<not> before_drain e"
proof -
  obtain b d where st: "st = (b, d)" by fastforce
  obtain b1 tasks where l: "load_board (wl_libs w) b = (b1, tasks)" by fastforce
  from assms [unfolded st dispatch_task_def Let_def prod.case l] show ?thesis
    by (auto simp: reassign_error dest: strike_error recover_error start_error split: if_splits)
qed

lemma process_error:
  "process_entry sr c w rescued retained entry st = (st', Broken e) \<Longrightarrow> \<not> before_drain e"
  by (cases st) (auto simp: process_entry_def Let_def dest: dispatch_error split: prod.splits option.splits if_splits)

lemma process_entries_error:
  "process_entries sr c w rescued retained es st = (st', Inl e) \<Longrightarrow> \<not> before_drain e"
  by (induction es arbitrary: retained st) (auto dest: process_error split: prod.splits verdict.splits)

text \<open>A selection of the pending entries, each kept as the same job.\<close>

inductive survives :: "surroundings \<Rightarrow> dispatch_config \<Rightarrow> dispatch_entry list \<Rightarrow> dispatch_entry list \<Rightarrow> bool"
  for sr c where
  survives_Nil: "survives sr c [] []"
| survives_drop: "survives sr c es es' \<Longrightarrow> survives sr c (e # es) es'"
| survives_keep: "kept_job sr c e e' \<Longrightarrow> survives sr c es es' \<Longrightarrow> survives sr c (e # es) (e' # es')"

lemma process_entries_survive:
  "process_entries sr c w rescued retained pending0 st = (st', Inr q) \<Longrightarrow>
   \<exists>kept. q = retained @ kept \<and> survives sr c pending0 kept"
proof (induction pending0 arbitrary: retained st)
  case Nil
  then show ?case by (auto intro: survives_Nil)
next
  case (Cons entry later)
  obtain st1 v where v: "process_entry sr c w rescued retained entry st = (st1, v)" by fastforce
  show ?case
  proof (cases v)
    case (Kept e')
    with Cons.prems v have "process_entries sr c w rescued (retained @ [e']) later st1 = (st', Inr q)" by simp
    from Cons.IH [OF this] obtain kept where "q = (retained @ [e']) @ kept" "survives sr c later kept" by blast
    with process_Kept [OF v [unfolded Kept]] show ?thesis
      by (intro exI [of _ "e' # kept"]) (auto intro: survives_keep)
  next
    case (Broken e)
    with Cons.prems v show ?thesis by simp
  next
    case Dropped
    with Cons.prems v have "process_entries sr c w rescued retained later st1 = (st', Inr q)" by simp
    from Cons.IH [OF this] show ?thesis by (blast intro: survives_drop)
  next
    case Sent
    with Cons.prems v have "process_entries sr c w rescued retained later st1 = (st', Inr q)" by simp
    from Cons.IH [OF this] show ?thesis by (blast intro: survives_drop)
  qed
qed

lemma survives_ids: "survives sr c es es' \<Longrightarrow> subseq (map de_task_id es') (map de_task_id es)"
  by (induction rule: survives.induct) (auto simp: kept_job_def same_job_def)

lemma survives_member: "survives sr c es es' \<Longrightarrow> e' \<in> set es' \<Longrightarrow> \<exists>e \<in> set es. kept_job sr c e e'"
  by (induction rule: survives.induct) auto

text \<open>A launch or a message that leaves the queue of the daemon alone.\<close>

definition queue_untouched :: "surroundings \<Rightarrow> bool" where
  "queue_untouched sr \<longleftrightarrow>
     (\<forall>e m i b d. dm_queue (snd (fst (sr_launch sr e m i (b, d)))) = dm_queue d)
     \<and> (\<forall>f r m b d. dm_queue (snd (fst (sr_deliver sr f r m (b, d)))) = dm_queue d)"

lemma suppress_queue: "dm_queue (fst (suppress_recent_escalation now key window d)) = dm_queue d"
  by (simp add: suppress_recent_escalation_def Let_def)

lemma deliver_queue: "queue_untouched sr \<Longrightarrow> dm_queue (snd (fst (queue_daemon_message sr c r m st))) = dm_queue (snd st)"
  by (cases st) (simp add: queue_untouched_def queue_daemon_message_def)

lemma escalate_queue:
  assumes "queue_untouched sr"
  shows "dm_queue (snd (fst (escalate_dispatch_queue_entry sr c w entry detail (b, d)))) = dm_queue d"
proof (cases "dispatch_failure_recipient c (de_engineer entry)")
  case (Some manager)
  define key where "key = ''dispatch-fail:'' @ show_nat (de_task_id entry) @ '':'' @ de_engineer entry"
  obtain d1 s where s: "suppress_recent_escalation (wl_now w) key (from_secs 900) d = (d1, s)" by fastforce
  then have q: "dm_queue d1 = dm_queue d" using suppress_queue [of "wl_now w" key "from_secs 900" d] by simp
  obtain b2 d2 e where m: "queue_daemon_message sr c manager (escalation_body entry detail) (b, d1) = ((b2, d2), e)"
    by (metis prod.exhaust)
  then have q2: "dm_queue d2 = dm_queue d1" using deliver_queue [OF assms, of c manager _ "(b, d1)"] by (metis fst_conv snd_conv)
  show ?thesis using Some s m q q2
    by (cases e) (auto simp: escalate_dispatch_queue_entry_def Let_def key_def record_recent_def split: if_splits)
qed (simp add: escalate_dispatch_queue_entry_def)

abbreviation queue_of :: "office \<times> 'a \<Rightarrow> dispatch_entry list" where
  "queue_of r \<equiv> dm_queue (snd (fst r))"

lemma strike_queue:
  assumes "queue_untouched sr" shows "queue_of (strike sr c w entry reason st) = dm_queue (snd st)"
proof -
  obtain b d where st: "st = (b, d)" by fastforce
  show ?thesis using escalate_queue [OF assms, of c w entry reason b d]
    by (auto simp: strike_def st split: prod.split option.split)
qed

lemma reassign_queue: "queue_of (reassign_or_fail c w retained entry active st) = dm_queue (snd st)"
  by (cases st) (auto simp: reassign_or_fail_def Let_def split: prod.split option.split)

lemma report_queue:
  assumes "queue_untouched sr" shows "dm_queue (snd (report_preserve_failure sr c w m i ctx detail st)) = dm_queue (snd st)"
proof -
  obtain b d where st: "st = (b, d)" by fastforce
  have d: "dm_queue (snd (fst (queue_daemon_message sr c r x st))) = dm_queue (snd st)" for r x st
    by (rule deliver_queue [OF assms])
  have s: "suppress_recent_escalation n k win d = (d1, b1) \<Longrightarrow> dm_queue d1 = dm_queue d" for n k win d1 b1
    using suppress_queue [of n k win d] by simp
  show ?thesis by (auto simp: report_preserve_failure_def st Let_def d split: prod.split dest: s)
qed

lemma recover_queue:
  assumes "queue_untouched sr" shows "queue_of (recover_worktree sr c w entry error st) = dm_queue (snd st)"
  by (auto simp: recover_worktree_def Let_def strike_queue [OF assms] report_queue [OF assms]
      split: sum.split prod.split bool.split)

lemma start_queue:
  assumes "queue_untouched sr" shows "queue_of (start_task sr c w entry t (b, d)) = dm_queue d"
proof -
  have l: "sr_launch sr e m i (b, d) = ((b', d'), r) \<Longrightarrow> dm_queue d' = dm_queue d" for e m i b d b' d' r
    using assms unfolding queue_untouched_def by (metis fst_conv snd_conv)
  show ?thesis
    by (auto simp: start_task_def Let_def strike_queue [OF assms] record_recent_def dest: l
        split: sum.split prod.split option.split)
qed

lemma dispatch_queue:
  assumes "queue_untouched sr" shows "queue_of (dispatch_task sr c w retained entry t (b, d)) = dm_queue d"
proof -
  obtain b1 tasks where l: "load_board (wl_libs w) b = (b1, tasks)" by fastforce
  show ?thesis
    unfolding dispatch_task_def Let_def prod.case l
    by (simp add: reassign_queue strike_queue [OF assms] recover_queue [OF assms] start_queue [OF assms])
qed

lemma process_entry_queue:
  assumes "queue_untouched sr" shows "queue_of (process_entry sr c w rescued retained entry (b, d)) = dm_queue d"
proof -
  have r: "dm_queue (recover_stuck w e d) = dm_queue d" for e by (simp add: recover_stuck_def)
  show ?thesis
    by (auto simp: process_entry_def Let_def r dispatch_queue [OF assms] split: prod.split option.split)
qed

lemma process_entries_queue:
  assumes "queue_untouched sr"
  shows "dm_queue (snd st) = q \<Longrightarrow> queue_of (process_entries sr c w rescued retained es st) = q"
proof (induction es arbitrary: retained st)
  case (Cons e es)
  obtain st1 v where v: "process_entry sr c w rescued retained e st = (st1, v)" by fastforce
  obtain b d where st: "st = (b, d)" by fastforce
  have "dm_queue (snd st1) = q"
    using process_entry_queue [OF assms, of c w rescued retained e b d] v Cons.prems by (simp add: st)
  from Cons.IH [OF this] this show ?case by (cases v) (simp_all add: v)
qed simp

text \<open>The reconciliation of active tasks never mentions the queue.\<close>

definition reconcile_keeps_queue :: "surroundings \<Rightarrow> bool" where
  "reconcile_keeps_queue sr \<longleftrightarrow> (\<forall>b d. dm_queue (snd (fst (sr_reconcile sr (b, d)))) = dm_queue d)"

section \<open>Properties\<close>

text \<open>
  C5. An entry is sent only past every guard: its task is still to be dispatched and not cooling down after a rescue, the
  engineer is idle and neither excluded after a release nor benched, has settled, has no other
  active item on the board, and has a worktree that is ready; and the board moves the task to
  in-progress and names the engineer before the launch, which succeeds before the daemon
  records the active task.
\<close>

theorem sent_past_every_guard:
  assumes "process_entry sr c w rescued retained entry (b, d) = (st', Sent)"
  defines "e \<equiv> de_engineer entry" and "d1 \<equiv> recover_stuck w (de_engineer entry) d"
    and "seen \<equiv> load_board (wl_libs w) (fst (load_board (wl_libs w) b))"
  shows "\<not> rescued (de_task_id entry) \<and> \<not> release_held c w d (de_task_id entry) e \<and> e \<notin> wl_benched w
    \<and> effectively_idle d e \<and> \<not> should_hold_dispatch_for_stabilization c w d1 e
    \<and> (member_uses_worktrees sr c e \<longrightarrow> go_ready (sr_git sr e) = None)
    \<and> (\<exists>t \<in> set (snd seen). still_dispatchable c (on_board w (fst seen)) d1 (snd seen) entry t
         \<and> engineer_active_board_item_count (snd (load_board (wl_libs w) (fst seen))) e
             \<le> (if t_claimed_by t = Some e then 1 else 0)
         \<and> started sr w entry t (fst (load_board (wl_libs w) (fst seen)), d1) st')"
proof -
  obtain b1 ts1 where l1: "load_board (wl_libs w) b = (b1, ts1)" by fastforce
  obtain b2 ts2 where l2: "load_board (wl_libs w) b1 = (b2, ts2)" by fastforce
  obtain b3 ts3 where l3: "load_board (wl_libs w) b2 = (b3, ts3)" by fastforce
  note run = assms(1) [unfolded process_entry_def task_for_dispatch_entry_def Let_def prod.case l1, folded e_def d1_def]
  have g: "\<not> rescued (de_task_id entry)" "\<not> release_held c w d (de_task_id entry) e" "e \<notin> wl_benched w"
    "dm_states d1 e = Some Idle" "\<not> should_hold_dispatch_for_stabilization c w d1 e"
    using run by (auto simp: e_def d1_def split: option.splits if_splits)
  have idle: "effectively_idle d e"
    using g(4) by (auto simp: d1_def recover_stuck_def effectively_idle_def e_def [symmetric] split: if_splits option.splits member_state.splits)
  from run obtain t where t: "find (still_dispatchable c (on_board w b2) d1 ts2 entry) ts2 = Some t"
    and sent: "dispatch_task sr c w retained entry t (b2, d1) = (st', Sent)"
    by (auto simp: e_def d1_def l2 split: option.splits if_splits)
  from find_Some_in [OF t] have t': "t \<in> set ts2" "still_dispatchable c (on_board w b2) d1 ts2 entry t" by blast+
  from dispatch_task_Sent [OF sent] have s: "engineer_active_board_item_count ts3 e
      \<le> (if verification_retry_dispatchable_task c (on_board w b2) d1 t True \<and> t_claimed_by t = Some e then 1 else 0)"
    "member_uses_worktrees sr c e \<longrightarrow> go_ready (sr_git sr e) = None" "started sr w entry t (b3, d1) st'"
    by (simp_all add: l3 e_def Let_def)
  have "engineer_active_board_item_count ts3 e \<le> (if t_claimed_by t = Some e then 1 else 0)"
    using s(1) by (auto split: if_splits)
  with g idle t' s(2,3) show ?thesis unfolding seen_def l1 l2 l3 fst_conv snd_conv by blast
qed

text \<open>
  C16. Draining keeps jobs: the queue left by a drain that ends well is a selection of the old one in its order, each entry
  the same job for the same engineer or for another of the team's engineers. An entry that stays is unchanged, or has at
  most two failures more than before and fewer than three in all; only when the reset of a dirty worktree was skipped
  does it stay with more, and then it has exactly two more than before. (The reconciliation of active
  tasks that comes first leaves the queue alone.)
\<close>

theorem drain_keeps_jobs:
  assumes "reconcile_keeps_queue sr" and "process_dispatch_queue sr c w (b, d) = ((b', d'), Inr ())"
  shows "subseq (map de_task_id (dm_queue d')) (map de_task_id (dm_queue d))
    \<and> (\<forall>e' \<in> set (dm_queue d'). \<exists>e \<in> set (dm_queue d). kept_job sr c e e')"
proof -
  obtain b0 d0 r where rc: "sr_reconcile sr (b, d) = ((b0, d0), r)" by (metis prod.exhaust)
  then have q0: "dm_queue d0 = dm_queue d" using assms(1) unfolding reconcile_keeps_queue_def by (metis fst_conv snd_conv)
  from assms(2) rc obtain st where
    run: "process_entries sr c w (rescued_task_ids c w d0) [] (dm_queue d0) (b0, d0\<lparr>dm_queue := []\<rparr>) = (st, Inr (dm_queue d'))"
    by (auto simp: process_dispatch_queue_def split: prod.splits sum.splits option.splits)
  from process_entries_survive [OF run] have "survives sr c (dm_queue d) (dm_queue d')" by (simp add: q0)
  then show ?thesis using survives_ids survives_member by metis
qed

text \<open>
  C40. When a drain aborts, the queue survives exactly if the abort came first: a failure to reconcile the active
  tasks or to read the bench leaves every entry where it was; once the queue is taken, a failed delivery of an escalation
  or a failed write of the owner loses all of it, the entries already kept and those not yet looked
  at (when reconciliation, launches and messages leave the queue alone).
\<close>

theorem aborted_drain_loses_queue:
  assumes "queue_untouched sr" and "reconcile_keeps_queue sr"
    and "process_dispatch_queue sr c w (b, d) = ((b', d'), Inl e)"
  shows "dm_queue d' = (if before_drain e then dm_queue d else [])"
proof -
  obtain b0 d0 r where rc: "sr_reconcile sr (b, d) = ((b0, d0), r)" by (metis prod.exhaust)
  then have q0: "dm_queue d0 = dm_queue d" using assms(2) unfolding reconcile_keeps_queue_def by (metis fst_conv snd_conv)
  show ?thesis
  proof (cases "r = None \<and> sr_bench_error sr = None")
    case False
    with assms(3) rc q0 show ?thesis
      by (cases r; cases "sr_bench_error sr") (auto simp: process_dispatch_queue_def)
  next
    case True
    let ?run = "process_entries sr c w (rescued_task_ids c w d0) [] (dm_queue d0) (b0, d0\<lparr>dm_queue := []\<rparr>)"
    from assms(3) rc True have run: "?run = ((b', d'), Inl e)"
      by (auto simp: process_dispatch_queue_def split: prod.splits sum.splits)
    have "queue_of ?run = []" by (rule process_entries_queue [OF assms(1)]) simp
    with run process_entries_error [OF run] show ?thesis by simp
  qed
qed

section \<open>Witnesses\<close>

text \<open>Front matter written as the bare text of the status.\<close>

definition toy_libs :: libs where
  "toy_libs = plain_libs\<lparr>yaml_parse := (\<lambda>z. Some (demo_mapping z)),
     yaml_print := (\<lambda>m. map_option (\<lambda>z. z @ [newline]) (get_str m ''status''))\<rparr>"

definition toy_world :: world where
  "toy_world = quiet_world\<lparr>wl_libs := toy_libs\<rparr>"

definition toy_dispatch :: dispatch_config where
  "toy_dispatch = sample_dispatch\<lparr>dc_members := default_member\<lparr>m_name := ''boss'', m_role_name := ''manager'',
     m_role_type := Manager\<rparr> # dc_members sample_dispatch\<rparr>"

definition toy_surroundings :: "string option \<Rightarrow> string option \<Rightarrow> surroundings" where
  "toy_surroundings launch_error delivery_error = \<lparr> sr_git_project = False,
     sr_git = (\<lambda>_. \<lparr> go_ready = None, go_has_work = False, go_rebased = False, go_ready_after = None,
                     go_reset = Inl [], go_dirty_reason = [] \<rparr>),
     sr_reconcile = (\<lambda>st. (st, None)), sr_bench_error = None,
     sr_launch = (\<lambda>e m i st. (st, launch_error)), sr_deliver = (\<lambda>f r m st. (st, delivery_error)),
     sr_error_text = (\<lambda>_. []), sr_digest = (\<lambda>_. 0) \<rparr>"

definition toy_entry :: "nat \<Rightarrow> string \<Rightarrow> nat \<Rightarrow> dispatch_entry" where
  "toy_entry i engineer failures = \<lparr> de_engineer = engineer, de_task_id = i, de_task_title = ''Fix'', de_queued_at = 5,
     de_failures = failures, de_last_failure = None \<rparr>"

definition settled_daemon :: "dispatch_entry list \<Rightarrow> daemon" where
  "settled_daemon q = idle_daemon\<lparr>dm_idle_since := (\<lambda>_. Some 0), dm_queue := q\<rparr>"

definition toy_office :: "dispatch_entry list \<Rightarrow> office" where
  "toy_office q = (demo_board ''todo'' [], settled_daemon q)"

lemma toy_sent:
  "snd (process_entry (toy_surroundings None None) toy_dispatch toy_world (\<lambda>_. False) [] (toy_entry 7 ''eng-2'' 0) (toy_office []))
   = Sent"
  by code_simp

theorem sent_past_every_guard_witness:
  "\<exists>b t st'. process_entry (toy_surroundings None None) toy_dispatch toy_world (\<lambda>_. False) [] (toy_entry 7 ''eng-2'' 0)
       (toy_office []) = (st', Sent)
     \<and> started (toy_surroundings None None) toy_world (toy_entry 7 ''eng-2'' 0) t
         (b, recover_stuck toy_world ''eng-2'' (settled_daemon [])) st'"
proof -
  from toy_sent obtain st' where
    run: "process_entry (toy_surroundings None None) toy_dispatch toy_world (\<lambda>_. False) [] (toy_entry 7 ''eng-2'' 0)
       (demo_board ''todo'' [], settled_daemon []) = (st', Sent)" by (metis prod.collapse toy_office_def)
  have "de_engineer (toy_entry 7 ''eng-2'' 0) = ''eng-2''" by (simp add: toy_entry_def)
  with sent_past_every_guard [OF run] run show ?thesis unfolding toy_office_def by metis
qed

text \<open>Of three entries one has no task any more, one is for a benched engineer, and the engineer of the
  third is at work: only that one stays.\<close>

definition toy_queue :: "dispatch_entry list" where
  "toy_queue = [toy_entry 99 ''eng-2'' 0, toy_entry 7 ''eng-1'' 0, toy_entry 7 ''eng-3'' 1]"

definition busy_office :: office where
  "busy_office = (demo_board ''todo'' [],
     (settled_daemon toy_queue)\<lparr>dm_states := (\<lambda>_. Some Working), dm_active := (\<lambda>_. Some 3)\<rparr>)"

lemma toy_drained:
  "map_prod (\<lambda>(b, d). map (\<lambda>e. (de_task_id e, de_engineer e)) (dm_queue d)) id
     (process_dispatch_queue (toy_surroundings None None) toy_dispatch toy_world busy_office) = ([(7, ''eng-3'')], Inr ())"
  by code_simp

theorem drain_keeps_jobs_witness:
  "\<exists>e \<in> set toy_queue. \<exists>e'. de_engineer e' = ''eng-3'' \<and> kept_job (toy_surroundings None None) toy_dispatch e e'"
proof -
  from toy_drained obtain b' d' where
    run: "process_dispatch_queue (toy_surroundings None None) toy_dispatch toy_world busy_office = ((b', d'), Inr ())"
    and q: "map (\<lambda>e. (de_task_id e, de_engineer e)) (dm_queue d') = [(7, ''eng-3'')]"
    by (cases "process_dispatch_queue (toy_surroundings None None) toy_dispatch toy_world busy_office") auto
  from q obtain e' where e': "e' \<in> set (dm_queue d')" "de_engineer e' = ''eng-3''" by (cases "dm_queue d'") auto
  have "dm_queue (snd busy_office) = toy_queue" by (simp add: busy_office_def settled_daemon_def)
  then have "dm_queue ((settled_daemon toy_queue)\<lparr>dm_states := \<lambda>_. Some Working, dm_active := \<lambda>_. Some 3\<rparr>) = toy_queue"
    by (simp add: busy_office_def)
  moreover have "reconcile_keeps_queue (toy_surroundings None None)"
    by (simp add: reconcile_keeps_queue_def toy_surroundings_def)
  ultimately have "\<forall>e' \<in> set (dm_queue d'). \<exists>e \<in> set toy_queue. kept_job (toy_surroundings None None) toy_dispatch e e'"
    using drain_keeps_jobs [OF _ run [unfolded busy_office_def]] by simp
  with e'(1)
  obtain e where "e \<in> set toy_queue" "kept_job (toy_surroundings None None) toy_dispatch e e'" by blast
  with e'(2) show ?thesis by blast
qed

text \<open>The owner of the task cannot be written: the other entry goes with it.\<close>

definition ownerless_world :: world where
  "ownerless_world = quiet_world\<lparr>wl_libs := toy_libs\<lparr>yaml_print := (\<lambda>m.
     case m ''claimed_by'' of Some _ \<Rightarrow> None | None \<Rightarrow> yaml_print toy_libs m)\<rparr>\<rparr>"

lemma toy_aborted:
  "case snd (process_dispatch_queue (toy_surroundings None None) toy_dispatch ownerless_world
     (toy_office [toy_entry 7 ''eng-2'' 0, toy_entry 7 ''eng-3'' 0])) of Inl e \<Rightarrow> \<not> before_drain e | Inr u \<Rightarrow> False"
  by code_simp

text \<open>The bench cannot be read: the drain ends before it has begun.\<close>

definition unreadable_bench :: surroundings where
  "unreadable_bench = (toy_surroundings None None)\<lparr>sr_bench_error := Some ''lock''\<rparr>"

theorem aborted_drain_loses_queue_witness:
  "\<exists>b' d' e b2 d2. process_dispatch_queue (toy_surroundings None None) toy_dispatch ownerless_world
       (toy_office [toy_entry 7 ''eng-2'' 0, toy_entry 7 ''eng-3'' 0]) = ((b', d'), Inl e) \<and> dm_queue d' = []
     \<and> process_dispatch_queue unreadable_bench toy_dispatch toy_world (toy_office [toy_entry 7 ''eng-2'' 0])
        = ((b2, d2), Inl (BenchUnreadable ''lock'')) \<and> dm_queue d2 = [toy_entry 7 ''eng-2'' 0]"
proof -
  let ?run = "process_dispatch_queue (toy_surroundings None None) toy_dispatch ownerless_world
       (toy_office [toy_entry 7 ''eng-2'' 0, toy_entry 7 ''eng-3'' 0])"
  have u: "queue_untouched (toy_surroundings None None)" "queue_untouched unreadable_bench"
    "reconcile_keeps_queue (toy_surroundings None None)" "reconcile_keeps_queue unreadable_bench"
    by (simp_all add: queue_untouched_def reconcile_keeps_queue_def unreadable_bench_def toy_surroundings_def)
  obtain b' d' r where r: "?run = ((b', d'), r)" by (metis prod.exhaust)
  with toy_aborted obtain e where e: "r = Inl e" "\<not> before_drain e" by (cases r) auto
  with r have run: "?run = ((b', d'), Inl e)" by simp
  have run2: "process_dispatch_queue unreadable_bench toy_dispatch toy_world
      (demo_board ''todo'' [], settled_daemon [toy_entry 7 ''eng-2'' 0])
    = ((demo_board ''todo'' [], settled_daemon [toy_entry 7 ''eng-2'' 0]), Inl (BenchUnreadable ''lock''))"
    by (simp add: process_dispatch_queue_def unreadable_bench_def toy_surroundings_def)
  from aborted_drain_loses_queue [OF u(1,3) run [unfolded toy_office_def]] e(2) have "dm_queue d' = []" by simp
  moreover from aborted_drain_loses_queue [OF u(2,4) run2]
  have "dm_queue (settled_daemon [toy_entry 7 ''eng-2'' 0]) = [toy_entry 7 ''eng-2'' 0]"
    by (simp add: settled_daemon_def)
  ultimately show ?thesis using run run2 unfolding toy_office_def by blast
qed

end
