(* ===== verification/Merge_Queue.thy ===== *)
theory Merge_Queue
  imports Batty_Prelude Complex_Main "HOL-Library.Sublist"
begin

text \<open>
  The serial merge queue of the daemon (\<open>src/team/daemon/merge_queue.rs\<close>): requests wait in a
  queue, at most one is being merged, and the status line is reported when it changes.

  The merge itself runs git and the tests; it is the parameter \<open>processor\<close>, which may change the
  rest of the daemon and ends in an outcome or an error.
\<close>

section \<open>Requests and the queue\<close>

record merge_request =
  mr_task_id :: nat
  mr_engineer :: string
  mr_branch :: string
  mr_worktree_dir :: string
  mr_queued_at :: nat
  mr_test_passed :: bool
  mr_post_merge_verify :: bool
  mr_test_duration_ms :: nat
  mr_confidence :: rat
  mr_files_changed :: nat
  mr_lines_changed :: nat

datatype merge_outcome = Success | Conflict | Reverted | Skipped | Failed

record merge_event =
  me_task_id :: nat
  me_engineer :: string
  me_outcome :: merge_outcome

record merge_result =
  ml_task_id :: nat
  ml_outcome :: merge_outcome
  ml_finished_at :: nat

record merge_queue =
  mq_queue :: "merge_request list"
  mq_active :: "merge_request option"
  mq_last :: "merge_result option"
  mq_reported :: "string option"

definition empty_merge_queue :: merge_queue where
  "empty_merge_queue = \<lparr> mq_queue = [], mq_active = None, mq_last = None, mq_reported = None \<rparr>"

definition enqueue :: "merge_request \<Rightarrow> merge_queue \<Rightarrow> merge_queue" where
  "enqueue request q = q\<lparr>mq_queue := mq_queue q @ [request]\<rparr>"

definition queued_len :: "merge_queue \<Rightarrow> nat" where
  "queued_len q = length (mq_queue q)"

definition active_task_id :: "merge_queue \<Rightarrow> nat option" where
  "active_task_id q = map_option mr_task_id (mq_active q)"

type_synonym ('d, 'e) processor = "merge_request \<Rightarrow> 'd \<Rightarrow> 'd \<times> ('e + merge_outcome)"

text \<open>The clock is read when the merge has ended.\<close>

definition process_next ::
  "('d, 'e) processor \<Rightarrow> nat \<Rightarrow> merge_queue \<Rightarrow> 'd \<Rightarrow> (merge_queue \<times> 'd) \<times> ('e + merge_event option)" where
  "process_next processor finished_at q d =
     (if mq_active q \<noteq> None then ((q, d), Inr None)
      else
        (case mq_queue q of
           [] \<Rightarrow> ((q, d), Inr None)
         | request # waiting \<Rightarrow>
             (let q1 = q\<lparr>mq_queue := waiting, mq_active := Some request\<rparr> in
              case processor request d of
                (d', Inl error) \<Rightarrow> ((q1\<lparr>mq_active := None\<rparr>, d'), Inl error)
              | (d', Inr outcome) \<Rightarrow>
                  ((q1\<lparr>mq_active := None,
                       mq_last := Some \<lparr> ml_task_id = mr_task_id request, ml_outcome = outcome,
                                         ml_finished_at = finished_at \<rparr>\<rparr>, d'),
                   Inr (Some \<lparr> me_task_id = mr_task_id request, me_engineer = mr_engineer request,
                               me_outcome = outcome \<rparr>)))))"

section \<open>The status line\<close>

fun outcome_text :: "merge_outcome \<Rightarrow> string" where
  "outcome_text Success = ''merged''"
| "outcome_text Conflict = ''conflicted''"
| "outcome_text Reverted = ''reverted''"
| "outcome_text Skipped = ''skipped''"
| "outcome_text Failed = ''failed''"

definition status_line :: "nat \<Rightarrow> merge_queue \<Rightarrow> string option" where
  "status_line now q =
     (if mq_queue q = [] \<and> mq_active q = None \<and> mq_last q = None then None
      else
        (let merging = (case mq_active q of
               Some r \<Rightarrow> ''#'' @ show_nat (mr_task_id r) @ '' ('' @ mr_branch r @ '')''
             | None \<Rightarrow> ''idle'');
             latest = (case mq_last q of
               Some r \<Rightarrow> ''#'' @ show_nat (ml_task_id r) @ '' '' @ outcome_text (ml_outcome r) @ '' ''
                         @ show_nat ((now - ml_finished_at r) div 1000000000) @ ''s ago''
             | None \<Rightarrow> ''none'')
         in Some (''[merge] queued: '' @ show_nat (length (mq_queue q)) @ '' | merging: '' @ merging
                  @ '' | last: '' @ latest)))"

definition take_status_update :: "nat \<Rightarrow> merge_queue \<Rightarrow> merge_queue \<times> string option" where
  "take_status_update now q =
     (case status_line now q of
        None \<Rightarrow> (q, None)
      | Some status \<Rightarrow>
          if mq_reported q = Some status then (q, None)
          else (q\<lparr>mq_reported := Some status\<rparr>, Some status))"

section \<open>The step of the daemon\<close>

text \<open>The queue is taken out of the daemon, where an empty one stays meanwhile, and put back at the
  end; an error returns before that. The status that was reported goes to the log.\<close>

definition process_merge_queue ::
  "(merge_queue \<times> 'd, 'e) processor \<Rightarrow> nat \<Rightarrow> nat \<Rightarrow> merge_queue \<times> 'd
     \<Rightarrow> (merge_queue \<times> 'd) \<times> string list \<times> ('e + unit)" where
  "process_merge_queue processor finished_at now = (\<lambda>(q, d).
     case process_next processor finished_at q (empty_merge_queue, d) of
       ((_, st), Inl error) \<Rightarrow> (st, [], Inl error)
     | ((q1, (_, d1)), Inr _) \<Rightarrow>
         (case take_status_update now q1 of
            (q2, status) \<Rightarrow> ((q2, d1), (case status of Some s \<Rightarrow> [s] | None \<Rightarrow> []), Inr ())))"

definition enqueue_merge_request :: "merge_request \<Rightarrow> merge_queue \<times> 'd \<Rightarrow> merge_queue \<times> 'd" where
  "enqueue_merge_request request = (\<lambda>(q, d). (enqueue request q, d))"

section \<open>First in, first out\<close>

text \<open>What happens to the queue of the daemon: a finished task asks to be merged, or the loop takes its
  step with the queue (with the times at which a merge ends and at which the status is drawn).\<close>

datatype queue_event = Request merge_request | Round nat nat

fun daemon_run ::
  "(merge_queue \<times> 'd, 'e) processor \<Rightarrow> queue_event list \<Rightarrow> merge_queue \<times> 'd \<Rightarrow> merge_queue \<times> 'd" where
  "daemon_run p [] st = st"
| "daemon_run p (Request r # es) st = daemon_run p es (enqueue_merge_request r st)"
| "daemon_run p (Round finished_at now # es) st = daemon_run p es (fst (process_merge_queue p finished_at now st))"

text \<open>A processor that writes down what it is given and whether it ended without an error.\<close>

definition logging ::
  "(merge_queue \<times> 'd, 'e) processor \<Rightarrow> (merge_queue \<times> ('d \<times> (merge_request \<times> bool) list), 'e) processor" where
  "logging p = (\<lambda>r (q, (d, seen)).
     case p r (q, d) of ((q', d'), result) \<Rightarrow> ((q', (d', seen @ [(r, \<not> isl result)])), result))"

text \<open>A merge does not reach into the queue of the daemon, which is empty meanwhile: requests come from
  the completion of tasks alone.\<close>

definition leaves_queue :: "(merge_queue \<times> 'd, 'e) processor \<Rightarrow> bool" where
  "leaves_queue p \<longleftrightarrow> (\<forall>r q d. fst (fst (p r (q, d))) = q)"

text \<open>The contract: a first-in first-out queue that a merge that ends in an error empties. Given whether each
  merge ended without an error, the requests merged and those left waiting.\<close>

fun fifo :: "queue_event list \<Rightarrow> bool list \<Rightarrow> merge_request list \<Rightarrow> merge_request list \<times> merge_request list" where
  "fifo [] verdicts waiting = ([], waiting)"
| "fifo (Request r # es) verdicts waiting = fifo es verdicts (waiting @ [r])"
| "fifo (Round f n # es) verdicts [] = fifo es verdicts []"
| "fifo (Round f n # es) verdicts (r # waiting) =
     (case fifo es (tl verdicts) (if verdicts = [] \<or> hd verdicts then waiting else []) of
        (merged, left_over) \<Rightarrow> (r # merged, left_over))"

fun requests :: "queue_event list \<Rightarrow> merge_request list" where
  "requests [] = []"
| "requests (Request r # es) = r # requests es"
| "requests (Round f n # es) = requests es"

lemma status_update_queue:
  "take_status_update now q = (q', s) \<Longrightarrow> mq_queue q' = mq_queue q \<and> mq_active q' = mq_active q"
  by (auto simp: take_status_update_def split: option.splits if_splits)

text \<open>One round: nothing to do, or the first request is merged and the rest waits on or is lost.\<close>

lemma round_step:
  assumes "leaves_queue p" and "mq_active q = None"
  shows "\<exists>q' d' new. fst (process_merge_queue (logging p) f n (q, (d, seen))) = (q', (d', seen @ new))
    \<and> mq_active q' = None
    \<and> (case mq_queue q of
         [] \<Rightarrow> new = [] \<and> mq_queue q' = []
       | r # waiting \<Rightarrow> \<exists>ok. new = [(r, ok)] \<and> mq_queue q' = (if ok then waiting else []))"
proof (cases "mq_queue q")
  case Nil
  obtain q2 s where t: "take_status_update n q = (q2, s)" by fastforce
  with Nil assms(2) status_update_queue [OF t] show ?thesis
    by (intro exI [of _ q2] exI [of _ d] exI [of _ "[]"])
      (simp add: process_merge_queue_def process_next_def)
next
  case (Cons r waiting)
  obtain eq d' result where p: "p r (empty_merge_queue, d) = ((eq, d'), result)" by (metis prod.exhaust)
  then have eq: "eq = empty_merge_queue" using assms(1) unfolding leaves_queue_def by (metis fst_conv)
  show ?thesis
  proof (cases result)
    case (Inl e)
    then show ?thesis using Cons assms(2) p eq
      by (intro exI [of _ empty_merge_queue] exI [of _ d'] exI [of _ "[(r, False)]"])
        (auto simp: process_merge_queue_def process_next_def logging_def empty_merge_queue_def Let_def)
  next
    case (Inr outcome)
    let ?q1 = "q\<lparr>mq_queue := waiting, mq_active := None,
      mq_last := Some \<lparr> ml_task_id = mr_task_id r, ml_outcome = outcome, ml_finished_at = f \<rparr>\<rparr>"
    obtain q2 s where t: "take_status_update n ?q1 = (q2, s)" by fastforce
    with Inr Cons assms(2) p status_update_queue [OF t] show ?thesis
      by (intro exI [of _ q2] exI [of _ d'] exI [of _ "[(r, True)]"])
        (auto simp: process_merge_queue_def process_next_def logging_def Let_def)
  qed
qed

lemma daemon_run_fifo:
  assumes "leaves_queue p" and "mq_active q = None"
  shows "\<exists>q' d' new. daemon_run (logging p) es (q, (d, seen)) = (q', (d', seen @ new)) \<and> mq_active q' = None
    \<and> fifo es (map snd new) (mq_queue q) = (map fst new, mq_queue q')"
  using assms(2)
proof (induction es arbitrary: q d seen)
  case (Cons ev es)
  show ?case
  proof (cases ev)
    case (Request r)
    have "mq_active (enqueue r q) = None" "mq_queue (enqueue r q) = mq_queue q @ [r]"
      using Cons.prems by (simp_all add: enqueue_def)
    with Cons.IH [of "enqueue r q" d seen] Request show ?thesis by (simp add: enqueue_merge_request_def)
  next
    case (Round f n)
    from round_step [OF assms(1) Cons.prems, of f n d seen] obtain q1 d1 new1 where
      1: "fst (process_merge_queue (logging p) f n (q, (d, seen))) = (q1, (d1, seen @ new1))" "mq_active q1 = None"
      and c: "case mq_queue q of [] \<Rightarrow> new1 = [] \<and> mq_queue q1 = []
         | r # waiting \<Rightarrow> \<exists>ok. new1 = [(r, ok)] \<and> mq_queue q1 = (if ok then waiting else [])" by blast
    from Cons.IH [OF 1(2), of d1 "seen @ new1"] obtain q' d' new where
      2: "daemon_run (logging p) es (q1, (d1, seen @ new1)) = (q', (d', (seen @ new1) @ new))" "mq_active q' = None"
        "fifo es (map snd new) (mq_queue q1) = (map fst new, mq_queue q')" by blast
    have "fifo (Round f n # es) (map snd (new1 @ new)) (mq_queue q) = (map fst (new1 @ new), mq_queue q')"
      using c 2(3) by (cases "mq_queue q") auto
    with 1 2 Round show ?thesis by (intro exI [of _ q'] exI [of _ d'] exI [of _ "new1 @ new"]) simp
  qed
qed simp

text \<open>What the contract promises.\<close>

lemma fifo_order:
  "fifo es verdicts waiting = (merged, left_over) \<Longrightarrow> subseq (merged @ left_over) (waiting @ requests es)"
proof (induction es verdicts waiting arbitrary: merged left_over rule: fifo.induct)
  case (4 f n es verdicts r waiting)
  let ?kept = "if verdicts = [] \<or> hd verdicts then waiting else []"
  obtain m l where ml: "fifo es (tl verdicts) ?kept = (m, l)" by fastforce
  from "4.IH" [OF ml] have "subseq (m @ l) (?kept @ requests es)" .
  moreover have "subseq (?kept @ requests es) (waiting @ requests es)" by simp
  ultimately have "subseq (m @ l) (waiting @ requests es)" by (rule subseq_order.order_trans)
  moreover have "merged = r # m" "left_over = l" using "4.prems" ml by simp_all
  ultimately show ?case by simp
qed auto

lemma fifo_complete:
  "fifo es verdicts waiting = (merged, left_over) \<Longrightarrow> list_all id verdicts \<Longrightarrow>
   merged @ left_over = waiting @ requests es"
proof (induction es verdicts waiting arbitrary: merged left_over rule: fifo.induct)
  case (4 f n es verdicts r waiting)
  have v: "verdicts = [] \<or> hd verdicts" "list_all id (tl verdicts)"
    using "4.prems"(2) by (induct verdicts) simp_all
  from v(1) have k: "(if verdicts = [] \<or> hd verdicts then waiting else []) = waiting" by (rule if_P)
  obtain m l where ml: "fifo es (tl verdicts) waiting = (m, l)" by fastforce
  from "4.IH" [unfolded k, OF ml v(2)] have "m @ l = waiting @ requests es" .
  moreover have "merged = r # m" "left_over = l" using "4.prems"(1) ml by (simp_all add: k)
  ultimately show ?case by simp
qed auto

lemma fifo_drains:
  "fifo es verdicts waiting = (merged, left_over) \<Longrightarrow> requests es = [] \<Longrightarrow> length waiting \<le> length es \<Longrightarrow>
   left_over = []"
proof (induction es verdicts waiting arbitrary: merged left_over rule: fifo.induct)
  case (4 f n es verdicts r waiting)
  then show ?case by (auto split: prod.splits if_splits)
qed auto

section \<open>Properties\<close>

text \<open>
  C21. Merges are serial and in order, over any interleaving of the requests that finished tasks make with the steps the
  daemon's loop takes with the queue. The requests merged and then those still waiting are, each at most once,
  among those that waited followed by those that came, in that order; when no merge ended in an error they are all of them.
  A merge that ends in an error loses the requests waiting behind it and no other, as the contract \<open>fifo\<close> says of the
  recorded verdicts. None is active between steps, and as many steps as there are requests empty the queue. (A merge itself does
  not make requests.)
\<close>

theorem merges_in_order:
  assumes "leaves_queue p" and "mq_active q = None"
  shows "\<exists>q' d' seen. daemon_run (logging p) es (q, (d, [])) = (q', (d', seen)) \<and> mq_active q' = None
    \<and> subseq (map fst seen @ mq_queue q') (mq_queue q @ requests es)
    \<and> (list_all snd seen \<longrightarrow> map fst seen @ mq_queue q' = mq_queue q @ requests es)
    \<and> fifo es (map snd seen) (mq_queue q) = (map fst seen, mq_queue q')
    \<and> (requests es = [] \<and> length (mq_queue q) \<le> length es \<longrightarrow> mq_queue q' = [])"
proof -
  from daemon_run_fifo [OF assms, of es d "[]"] obtain q' d' seen where
    1: "daemon_run (logging p) es (q, (d, [])) = (q', (d', seen))" "mq_active q' = None"
      "fifo es (map snd seen) (mq_queue q) = (map fst seen, mq_queue q')" by auto
  have "list_all id (map snd seen)" if "list_all snd seen" using that by (simp add: list.pred_map)
  with 1 fifo_order [OF 1(3)] fifo_complete [OF 1(3)] fifo_drains [OF 1(3)] show ?thesis by blast
qed

definition sample_request :: "nat \<Rightarrow> merge_request" where
  "sample_request i = \<lparr> mr_task_id = i, mr_engineer = ''eng-1'', mr_branch = ''eng-1/4'', mr_worktree_dir = [],
     mr_queued_at = 0, mr_test_passed = True, mr_post_merge_verify = False, mr_test_duration_ms = 0,
     mr_confidence = 1, mr_files_changed = 1, mr_lines_changed = 2 \<rparr>"

text \<open>Task 6 ends in an error while 7 waits behind it; 8 comes later.\<close>

definition sample_processor :: "(merge_queue \<times> unit, string) processor" where
  "sample_processor r st = (st, if mr_task_id r = 6 then Inl ''no lock'' else Inr Success)"

definition sample_events :: "queue_event list" where
  "sample_events = [Request (sample_request 5), Request (sample_request 6), Request (sample_request 7), Round 1 1,
     Round 2 2, Request (sample_request 8), Round 3 3]"

lemma sample_merges:
  "map_prod mq_queue (\<lambda>(d, seen). map (\<lambda>(r, ok). (mr_task_id r, ok)) seen)
     (daemon_run (logging sample_processor) sample_events (empty_merge_queue, ((), [])))
   = ([], [(5, True), (6, False), (8, True)])"
  by (simp add: sample_events_def enqueue_merge_request_def enqueue_def empty_merge_queue_def
      process_merge_queue_def process_next_def logging_def sample_processor_def sample_request_def
      take_status_update_def status_line_def Let_def)

theorem merges_in_order_witness:
  "\<exists>q' d' seen. daemon_run (logging sample_processor) sample_events (empty_merge_queue, ((), [])) = (q', (d', seen))
     \<and> map mr_task_id (map fst seen) = [5, 6, 8]
     \<and> fifo sample_events (map snd seen) [] = (map fst seen, mq_queue q')"
proof -
  have p: "leaves_queue sample_processor" by (simp add: leaves_queue_def sample_processor_def)
  have a: "mq_active empty_merge_queue = None" "mq_queue empty_merge_queue = []" by (simp_all add: empty_merge_queue_def)
  from merges_in_order [OF p a(1), of sample_events "()"] obtain q' d' seen where
    run: "daemon_run (logging sample_processor) sample_events (empty_merge_queue, ((), [])) = (q', (d', seen))"
    and f: "fifo sample_events (map snd seen) [] = (map fst seen, mq_queue q')" unfolding a by blast
  from sample_merges run have "map (\<lambda>(r, ok). (mr_task_id r, ok)) seen = [(5, True), (6, False), (8, True)]" by simp
  from arg_cong [OF this, of "map fst"] have "map mr_task_id (map fst seen) = [5, 6, 8]"
    by (simp add: comp_def case_prod_beta)
  with run f show ?thesis by (intro exI [of _ q'] exI [of _ d'] exI [of _ seen] conjI)
qed

text \<open>When a merge ends in an error the daemon keeps the queue the processor left it, an empty one if the
  processor did not enqueue: every waiting request is gone.\<close>

lemma failed_merge_loses_queue:
  assumes "mq_active q = None" and "mq_queue q = r # waiting"
    and "processor r (empty_merge_queue, d) = ((empty_merge_queue, d'), Inl e)"
  shows "process_merge_queue processor t now (q, d) = ((empty_merge_queue, d'), [], Inl e)"
  using assms by (simp add: process_merge_queue_def process_next_def)

text \<open>A status is reported once.\<close>

lemma status_reported_once:
  assumes "take_status_update now q = (q', Some s)"
  shows "take_status_update now q' = (q', None)"
proof -
  from assms have s: "status_line now q = Some s" and q': "q' = q\<lparr>mq_reported := Some s\<rparr>"
    by (auto simp: take_status_update_def split: option.splits if_splits)
  have "status_line now q' = status_line now q" by (simp add: status_line_def q')
  with s show ?thesis by (simp add: take_status_update_def q')
qed

end
