(* ===== verification/Command_Errors.thy ===== *)
theory Command_Errors
  imports Batty_Prelude
begin

text \<open>
  The errors of the external commands (\<open>src/team/errors.rs\<close>), how the output of a failed command
  is classified (\<open>git_cmd.rs\<close>, \<open>board_cmd.rs\<close>) and the git commands themselves.

  Running git is the parameter \<open>git\<close>: it takes the arguments and the state of the world (the
  repository) and yields the new state and an error of the operating system or the exit code with
  the two outputs. The repository directory is part of the parameter.
\<close>

section \<open>Errors\<close>

text \<open>The kinds of \<open>std::io::Error\<close> the code tells apart; the others are one.\<close>

datatype io_kind =
  Io_NotFound | Io_TimedOut | Io_Interrupted | Io_WouldBlock | Io_ConnectionReset | Io_ConnectionAborted
  | Io_NotConnected | Io_Other

datatype git_error =
  Git_Transient string string
  | Git_Permanent string string
  | RebaseFailed string string
  | MergeFailed string string
  | RevParseFailed string string
  | InvalidRevListCount string string
  | Git_Exec string io_kind

fun git_is_transient :: "git_error \<Rightarrow> bool" where
  "git_is_transient (Git_Transient message stderr) = True"
| "git_is_transient (Git_Exec command source) = (source \<in> {Io_NotFound, Io_TimedOut, Io_Interrupted, Io_WouldBlock})"
| "git_is_transient _ = False"

datatype board_error =
  Board_Transient string string
  | Board_Permanent string string
  | BoardTaskNotFound string
  | InvalidFrontmatter string
  | ClaimOwnerUnknown string string
  | Board_Exec string io_kind

fun board_is_transient :: "board_error \<Rightarrow> bool" where
  "board_is_transient (Board_Transient message stderr) = True"
| "board_is_transient _ = False"

datatype delivery_error =
  UnsupportedChannel string
  | ProviderExec string io_kind
  | ChannelSend string string
  | PaneInject string string string
  | InboxQueue string string

definition detail_is_transient :: "string \<Rightarrow> bool" where
  "detail_is_transient detail =
     (let lower = lowercase detail in
      list_ex (\<lambda>needle. contains needle lower)
        [''429'', ''too many requests'', ''timeout'', ''timed out'', ''temporary'', ''temporarily unavailable'',
         ''connection reset'', ''connection aborted'', ''try again'', ''retry after'', ''network''])"

fun delivery_is_transient :: "delivery_error \<Rightarrow> bool" where
  "delivery_is_transient (UnsupportedChannel channel_type) = False"
| "delivery_is_transient (ProviderExec provider source) =
     (source \<in> {Io_TimedOut, Io_Interrupted, Io_WouldBlock, Io_ConnectionReset, Io_ConnectionAborted, Io_NotConnected})"
| "delivery_is_transient (ChannelSend recipient detail) = detail_is_transient detail"
| "delivery_is_transient (PaneInject recipient pane detail) = detail_is_transient detail"
| "delivery_is_transient (InboxQueue recipient detail) = False"

section \<open>Classification of the output\<close>

definition classify_error :: "string \<Rightarrow> git_error" where
  "classify_error stderr =
     (let message = trim stderr; lowered = lowercase stderr in
      if contains ''lock'' lowered \<or> contains ''index.lock'' lowered \<or> contains ''unable to create'' lowered
        \<or> contains ''connection refused'' lowered \<or> contains ''timeout'' lowered \<or> contains ''could not read'' lowered
        \<or> contains ''resource temporarily unavailable'' lowered
      then Git_Transient message stderr else Git_Permanent message stderr)"

definition contains_word :: "string \<Rightarrow> string \<Rightarrow> bool" where
  "contains_word s needle = list_ex (\<lambda>w. w = needle) (split_by (\<lambda>ch. \<not> is_alpha ch) s)"

definition is_transient_stderr :: "string \<Rightarrow> bool" where
  "is_transient_stderr stderr =
     (let lower = lowercase stderr in
      contains_word lower ''lock'' \<or> contains ''resource temporarily unavailable'' lower
      \<or> contains ''no such file or directory'' lower \<or> contains ''i/o error'' lower \<or> contains ''try again'' lower)"

definition classify_failure :: "string \<Rightarrow> string \<Rightarrow> board_error" where
  "classify_failure message stderr =
     (if is_transient_stderr stderr then Board_Transient message stderr else Board_Permanent message stderr)"

definition is_empty_pick :: "string \<Rightarrow> bool" where
  "is_empty_pick stderr = contains ''no unblocked, unclaimed tasks found'' (lowercase stderr)"

definition claim_required_for_edit :: "string \<Rightarrow> bool" where
  "claim_required_for_edit stderr = contains ''is claimed by'' (lowercase stderr)"

text \<open>A word of a text is a substring of it, so the board's classification asks more than git's.\<close>

lemma split_by_head: "split_by P s = p # ps \<Longrightarrow> \<exists>t. s = p @ t"
  by (induction P s arbitrary: p ps rule: split_by.induct) (auto split: list.splits if_splits)

lemma split_by_contains: "w \<in> set (split_by P s) \<Longrightarrow> contains w s"
  unfolding contains_iff
proof (induction P s arbitrary: w rule: split_by.induct)
  case (2 P c s)
  have tail: "\<exists>a b. c # s = a @ w @ b" if "w \<in> set (split_by P s)"
    using 2 that by (cases "P c") (metis append_Cons)+
  obtain p ps where ps: "split_by P s = p # ps" by (cases "split_by P s") auto
  then obtain t where t: "s = p @ t" using split_by_head by blast
  consider "w = []" | "w \<in> set (split_by P s)" | "w = c # p"
    using 2(3) ps by (auto split: if_splits)
  then show ?case
  proof cases
    case 1
    then have "c # s = [] @ w @ (c # s)" by simp
    then show ?thesis by blast
  next
    case 2
    then show ?thesis by (rule tail)
  next
    case 3
    with t have "c # s = [] @ w @ t" by simp
    then show ?thesis by blast
  qed
qed simp

lemma contains_word_contains: "contains_word s w \<Longrightarrow> contains w s"
  by (auto simp: contains_word_def list_ex_iff intro: split_by_contains)

lemma lock_is_transient: "contains_word (lowercase stderr) ''lock'' \<Longrightarrow> git_is_transient (classify_error stderr)"
  by (auto simp: classify_error_def Let_def dest: contains_word_contains)

text \<open>The converse fails: a hook that blocks a push is taken for a lock and tried again.\<close>

lemma blocked_is_retried:
  "git_is_transient (classify_error ''remote: push blocked by policy'')
   \<and> \<not> board_is_transient (classify_failure m ''push blocked by policy'')"
proof -
  have "contains ''lock'' (lowercase ''remote: push blocked by policy'')" by code_simp
  moreover have "\<not> is_transient_stderr ''push blocked by policy''" by code_simp
  ultimately show ?thesis by (simp add: classify_error_def classify_failure_def Let_def)
qed

section \<open>Git commands\<close>

record git_output =
  go_code :: "int option"
  go_stdout :: string
  go_stderr :: string

type_synonym 'w git = "string list \<Rightarrow> 'w \<Rightarrow> 'w \<times> (io_kind + git_output)"

definition format_git_command :: "string \<Rightarrow> string list \<Rightarrow> string" where
  "format_git_command repo_dir args = join '' '' ([''git'', ''-C'', repo_dir] @ args)"

definition run_git_with_status ::
  "'w git \<Rightarrow> string \<Rightarrow> string list \<Rightarrow> 'w \<Rightarrow> 'w \<times> (git_error + git_output)" where
  "run_git_with_status git repo_dir args w =
     (case git args w of
        (w', Inl source) \<Rightarrow> (w', Inl (Git_Exec (format_git_command repo_dir args) source))
      | (w', Inr output) \<Rightarrow> (w', Inr output))"

definition run_git :: "'w git \<Rightarrow> string \<Rightarrow> string list \<Rightarrow> 'w \<Rightarrow> 'w \<times> (git_error + string)" where
  "run_git git repo_dir args w =
     (case run_git_with_status git repo_dir args w of
        (w', Inl e) \<Rightarrow> (w', Inl e)
      | (w', Inr output) \<Rightarrow>
          (w', if go_code output = Some 0 then Inr (go_stdout output) else Inl (classify_error (go_stderr output))))"

text \<open>A permanent failure becomes the error of the command; the others pass.\<close>

fun as_failure_of :: "(string \<Rightarrow> git_error) \<Rightarrow> git_error \<Rightarrow> git_error" where
  "as_failure_of f (Git_Permanent message stderr) = f stderr"
| "as_failure_of f error = error"

fun map_result :: "('e \<Rightarrow> 'f) \<Rightarrow> ('a \<Rightarrow> 'b) \<Rightarrow> 'e + 'a \<Rightarrow> 'f + 'b" where
  "map_result f g (Inl e) = Inl (f e)"
| "map_result f g (Inr x) = Inr (g x)"

definition rebase :: "'w git \<Rightarrow> string \<Rightarrow> string \<Rightarrow> 'w \<Rightarrow> 'w \<times> (git_error + unit)" where
  "rebase git repo onto w =
     map_prod id (map_result (as_failure_of (RebaseFailed onto)) (\<lambda>_. ())) (run_git git repo [''rebase'', onto] w)"

definition merge_branch :: "'w git \<Rightarrow> string \<Rightarrow> string \<Rightarrow> 'w \<Rightarrow> 'w \<times> (git_error + unit)" where
  "merge_branch git repo branch w =
     map_prod id (map_result (as_failure_of (MergeFailed branch)) (\<lambda>_. ()))
       (run_git git repo [''merge'', branch, ''--no-edit''] w)"

definition rev_parse_branch :: "'w git \<Rightarrow> string \<Rightarrow> 'w \<Rightarrow> 'w \<times> (git_error + string)" where
  "rev_parse_branch git repo w =
     map_prod id (map_result (as_failure_of (RevParseFailed ''--abbrev-ref HEAD'')) trim)
       (run_git git repo [''rev-parse'', ''--abbrev-ref'', ''HEAD''] w)"

definition status_porcelain :: "'w git \<Rightarrow> string \<Rightarrow> 'w \<Rightarrow> 'w \<times> (git_error + string)" where
  "status_porcelain git repo w = run_git git repo [''status'', ''--porcelain''] w"

definition has_user_changes :: "'w git \<Rightarrow> string \<Rightarrow> 'w \<Rightarrow> 'w \<times> (git_error + bool)" where
  "has_user_changes git repo w =
     map_prod id (map_result id (\<lambda>out. list_ex (\<lambda>line. \<not> starts_with ''?? .batty/'' line) (str_lines out)))
       (status_porcelain git repo w)"

text \<open>Commands that answer with exit code zero or one.\<close>

definition git_question :: "'w git \<Rightarrow> string \<Rightarrow> string list \<Rightarrow> 'w \<Rightarrow> 'w \<times> (git_error + bool)" where
  "git_question git repo args w =
     (case run_git_with_status git repo args w of
        (w', Inl e) \<Rightarrow> (w', Inl e)
      | (w', Inr output) \<Rightarrow>
          (w', if go_code output = Some 0 then Inr True
               else if go_code output = Some 1 then Inr False
               else Inl (classify_error (go_stderr output))))"

definition merge_base_is_ancestor :: "'w git \<Rightarrow> string \<Rightarrow> string \<Rightarrow> string \<Rightarrow> 'w \<Rightarrow> 'w \<times> (git_error + bool)" where
  "merge_base_is_ancestor git repo commit base =
     git_question git repo [''merge-base'', ''--is-ancestor'', commit, base]"

definition show_ref_exists :: "'w git \<Rightarrow> string \<Rightarrow> string \<Rightarrow> 'w \<Rightarrow> 'w \<times> (git_error + bool)" where
  "show_ref_exists git repo branch =
     git_question git repo [''show-ref'', ''--verify'', ''--quiet'',
       (if starts_with ''refs/'' branch then branch else ''refs/heads/'' @ branch)]"

definition rev_list_count :: "'w git \<Rightarrow> string \<Rightarrow> string \<Rightarrow> 'w \<Rightarrow> 'w \<times> (git_error + nat)" where
  "rev_list_count git repo revs w =
     (case run_git git repo [''rev-list'', ''--count'', revs] w of
        (w', Inl e) \<Rightarrow> (w', Inl e)
      | (w', Inr out) \<Rightarrow>
          (w', case parse_u32 (trim out) of
                 Some count \<Rightarrow> Inr count
               | None \<Rightarrow> Inl (InvalidRevListCount revs (trim out))))"

definition for_each_ref_branches :: "'w git \<Rightarrow> string \<Rightarrow> 'w \<Rightarrow> 'w \<times> (git_error + string list)" where
  "for_each_ref_branches git repo w =
     map_prod id (map_result id (\<lambda>out. filter (\<lambda>line. line \<noteq> []) (map trim (str_lines out))))
       (run_git git repo [''for-each-ref'', ''--format=%(refname:short)'', ''refs/heads''] w)"

text \<open>The branch that \<open>origin/HEAD\<close> names, else the first of the usual names that exists.\<close>

fun probe_branches :: "'w git \<Rightarrow> string \<Rightarrow> string list \<Rightarrow> 'w \<Rightarrow> 'w \<times> string option" where
  "probe_branches git repo [] w = (w, None)"
| "probe_branches git repo (candidate # candidates) w =
     (case run_git git repo [''show-ref'', ''--verify'', ''--quiet'', ''refs/heads/'' @ candidate] w of
        (w', Inr _) \<Rightarrow> (w', Some candidate)
      | (w', Inl _) \<Rightarrow> probe_branches git repo candidates w')"

definition default_branch_name :: "'w git \<Rightarrow> string \<Rightarrow> 'w \<Rightarrow> 'w \<times> string option" where
  "default_branch_name git repo w =
     (let candidates = [''mainline'', ''main'', ''master'', ''trunk''] in
      case run_git git repo [''symbolic-ref'', ''--short'', ''refs/remotes/origin/HEAD''] w of
        (w', Inr out) \<Rightarrow>
          (let s = trim out in
           if s \<noteq> [] then (w', Some (case strip_prefix ''origin/'' s of Some rest \<Rightarrow> rest | None \<Rightarrow> s))
           else probe_branches git repo candidates w')
      | (w', Inl _) \<Rightarrow> probe_branches git repo candidates w')"

section \<open>What the errors of git commands say\<close>

lemma run_git_error:
  "run_git git repo args w = (w', Inl e) \<Longrightarrow>
   (\<exists>source. e = Git_Exec (format_git_command repo args) source) \<or> (\<exists>stderr. e = classify_error stderr)"
  by (auto simp: run_git_def run_git_with_status_def split: prod.splits sum.splits if_splits)

lemma classified: "classify_error stderr = Git_Transient (trim stderr) stderr \<or> classify_error stderr = Git_Permanent (trim stderr) stderr"
  by (simp add: classify_error_def Let_def)

text \<open>A failure of a rebase that may be tried again is one of the system or a busy repository; every other
  is the failure of this rebase, with what git said. The same holds for a merge.\<close>

lemma rebase_error:
  assumes "rebase git repo onto w = (w', Inl e)"
  shows "git_is_transient e \<or> (\<exists>stderr. e = RebaseFailed onto stderr) \<or> (\<exists>c source. e = Git_Exec c source)"
proof -
  obtain e0 where e0: "run_git git repo [''rebase'', onto] w = (w', Inl e0)" "e = as_failure_of (RebaseFailed onto) e0"
    using assms by (cases "run_git git repo [''rebase'', onto] w"; cases "snd (run_git git repo [''rebase'', onto] w)")
      (auto simp: rebase_def)
  from run_git_error [OF e0(1)] show ?thesis
    using classified e0(2) by (metis as_failure_of.simps(1,2,7) git_is_transient.simps(1))
qed

end
