(* ===== verification/Retry.thy ===== *)
theory Retry
  imports Command_Errors "HOL-Library.Word"
begin

text \<open>
  Retries with exponential backoff (\<open>src/team/retry.rs\<close>). The delays are 64-bit words, with the
  saturating operations and the checked shift of the code written out.

  The operation reads and changes a state of its own; the clock that seeds the jitter is a function
  from the index of the retry to nanoseconds. The result carries the delays that were slept, in order.
\<close>

section \<open>Configuration and delays\<close>

record retry_config =
  rc_max_retries :: nat
  rc_base_delay_ms :: "64 word"
  rc_max_delay_ms :: "64 word"
  rc_jitter :: bool

definition default_retry :: retry_config where
  "default_retry = \<lparr> rc_max_retries = 3, rc_base_delay_ms = 100, rc_max_delay_ms = 5000, rc_jitter = True \<rparr>"

definition no_retry :: retry_config where
  "no_retry = default_retry\<lparr>rc_max_retries := 0\<rparr>"

definition fast :: retry_config where
  "fast = \<lparr> rc_max_retries = 2, rc_base_delay_ms = 50, rc_max_delay_ms = 500, rc_jitter = True \<rparr>"

definition conservative :: retry_config where
  "conservative = \<lparr> rc_max_retries = 5, rc_base_delay_ms = 200, rc_max_delay_ms = 10000, rc_jitter = True \<rparr>"

definition checked_shl :: "64 word \<Rightarrow> nat \<Rightarrow> 64 word option" where
  "checked_shl x n = (if n < 64 then Some (push_bit n x) else None)"

definition saturating_mul :: "64 word \<Rightarrow> 64 word \<Rightarrow> 64 word" where
  "saturating_mul x y = (if unat x * unat y < 2 ^ 64 then x * y else - 1)"

definition saturating_sub :: "64 word \<Rightarrow> 64 word \<Rightarrow> 64 word" where
  "saturating_sub x y = (if y \<le> x then x - y else 0)"

definition saturating_add :: "64 word \<Rightarrow> 64 word \<Rightarrow> 64 word" where
  "saturating_add x y = (if unat x + unat y < 2 ^ 64 then x + y else - 1)"

definition jitter_delay_ms :: "64 word \<Rightarrow> 64 word \<Rightarrow> 64 word" where
  "jitter_delay_ms nanos delay_ms =
     (let jitter_span = delay_ms div 4 in
      if jitter_span = 0 then delay_ms
      else
        let max_offset = saturating_mul jitter_span 2;
            offset = nanos mod (max_offset + 1)
        in saturating_add (saturating_sub delay_ms jitter_span) offset)"

definition next_delay_ms :: "64 word \<Rightarrow> retry_config \<Rightarrow> nat \<Rightarrow> 64 word" where
  "next_delay_ms nanos config retry_index =
     (let multiplier = (case checked_shl 1 retry_index of Some m \<Rightarrow> m | None \<Rightarrow> - 1);
          base_delay = saturating_mul (rc_base_delay_ms config) multiplier;
          capped_delay = min base_delay (rc_max_delay_ms config)
      in if rc_jitter config then jitter_delay_ms nanos capped_delay else capped_delay)"

section \<open>The loop\<close>

type_synonym ('s, 'e, 'a) operation = "'s \<Rightarrow> 's \<times> ('e + 'a)"

function retry_from ::
  "('e \<Rightarrow> bool) \<Rightarrow> (nat \<Rightarrow> 64 word) \<Rightarrow> retry_config \<Rightarrow> ('s, 'e, 'a) operation \<Rightarrow> nat \<Rightarrow> 's
     \<Rightarrow> 's \<times> 64 word list \<times> ('e + 'a)" where
  "retry_from is_transient clock config operation retries s =
     (case operation s of
        (s', Inr value) \<Rightarrow> (s', [], Inr value)
      | (s', Inl error) \<Rightarrow>
          if \<not> is_transient error then (s', [], Inl error)
          else if rc_max_retries config \<le> retries then (s', [], Inl error)
          else
            (let delay_ms = next_delay_ms (clock retries) config retries in
             case retry_from is_transient clock config operation (retries + 1) s' of
               (s'', delays, result) \<Rightarrow> (s'', delay_ms # delays, result)))"
  by auto

termination by (relation "measure (\<lambda>(_, _, config, _, retries, _). rc_max_retries config - retries)") auto

declare retry_from.simps [simp del]

definition retry_sync_with_sleep ::
  "('e \<Rightarrow> bool) \<Rightarrow> (nat \<Rightarrow> 64 word) \<Rightarrow> retry_config \<Rightarrow> ('s, 'e, 'a) operation \<Rightarrow> 's
     \<Rightarrow> 's \<times> 64 word list \<times> ('e + 'a)" where
  "retry_sync_with_sleep is_transient clock config operation s = retry_from is_transient clock config operation 0 s"

definition retry_sync ::
  "('e \<Rightarrow> bool) \<Rightarrow> (nat \<Rightarrow> 64 word) \<Rightarrow> retry_config \<Rightarrow> ('s, 'e, 'a) operation \<Rightarrow> 's \<Rightarrow> 's \<times> ('e + 'a)" where
  "retry_sync is_transient clock config operation s =
     (case retry_sync_with_sleep is_transient clock config operation s of (s', _, result) \<Rightarrow> (s', result))"

section \<open>Delays\<close>

text \<open>The readings of the saturating operations.\<close>

lemma unat_max: "unat (- 1 :: 64 word) = 2 ^ 64 - 1"
  by (simp add: unsigned_minus_1_eq_mask mask_eq_exp_minus_1)

lemma unat_sat_mul: "unat (saturating_mul x y) = min (unat x * unat y) (2 ^ 64 - 1)"
proof (cases "unat x * unat y < 2 ^ 64")
  case True
  then have "unat (x * y) = unat x * unat y" by (simp add: unat_word_ariths)
  with True show ?thesis by (simp add: saturating_mul_def)
qed (simp add: saturating_mul_def unat_max)

lemma unat_sat_add: "unat (saturating_add x y) = min (unat x + unat y) (2 ^ 64 - 1)"
proof (cases "unat x + unat y < 2 ^ 64")
  case True
  then have "unat (x + y) = unat x + unat y" by (simp add: unat_word_ariths)
  with True show ?thesis by (simp add: saturating_add_def)
qed (simp add: saturating_add_def unat_max)

lemma unat_sat_sub: "unat (saturating_sub x y) = unat x - unat y"
  by (simp add: saturating_sub_def unat_sub word_le_nat_alt)

lemma unat_multiplier:
  "unat (case checked_shl 1 i of Some m \<Rightarrow> m | None \<Rightarrow> - 1) = (if i < 64 then 2 ^ i else 2 ^ 64 - 1)"
proof (cases "i < 64")
  case True
  then have small: "(2 :: nat) ^ i < 2 ^ 64" by (intro power_strict_increasing) simp_all
  have "push_bit i (1 :: 64 word) = of_nat (2 ^ i)" by (simp add: push_bit_eq_mult)
  moreover have "unat (of_nat (2 ^ i) :: 64 word) = 2 ^ i"
    by (subst unsigned_of_nat) (use small in \<open>simp add: take_bit_eq_mod\<close>)
  ultimately have "unat (push_bit i (1 :: 64 word)) = 2 ^ i" by simp
  with True show ?thesis by (simp add: checked_shl_def)
qed (simp add: checked_shl_def unat_max)

lemma unat_less: "unat (x :: 64 word) < 2 ^ 64"
  by (rule less_le_trans [OF unsigned_less]) simp

lemma unat_word_min: "unat (min x y) = min (unat x) (unat (y :: 'a::len word))"
  by (simp add: min_def word_le_nat_alt)

definition nominal_delay :: "retry_config \<Rightarrow> nat \<Rightarrow> nat" where
  "nominal_delay config i = min (unat (rc_base_delay_ms config) * 2 ^ i) (unat (rc_max_delay_ms config))"

lemma capped_delay:
  "unat (min (saturating_mul (rc_base_delay_ms config) (case checked_shl 1 i of Some m \<Rightarrow> m | None \<Rightarrow> - 1))
      (rc_max_delay_ms config)) = nominal_delay config i"
proof -
  let ?b = "unat (rc_base_delay_ms config)" and ?m = "unat (rc_max_delay_ms config)"
  have m: "?m \<le> 2 ^ 64 - 1" using unat_less [of "rc_max_delay_ms config"] by simp
  have "min (min (?b * (if i < 64 then 2 ^ i else 2 ^ 64 - 1)) (2 ^ 64 - 1)) ?m = min (?b * 2 ^ i) ?m"
  proof (cases "i < 64 \<or> ?b = 0")
    case False
    then have "(2 :: nat) ^ 64 \<le> 2 ^ i" by (intro power_increasing) simp_all
    then have large: "2 ^ 64 - 1 \<le> ?b * 2 ^ i" and whole: "2 ^ 64 - 1 \<le> ?b * (2 ^ 64 - 1)"
      using False by (cases ?b; simp; fail)+
    have "min (?b * 2 ^ i) ?m = ?m" using order_trans [OF m large] by (rule min_absorb2)
    moreover have "min (?b * (2 ^ 64 - 1)) (2 ^ 64 - 1) = 2 ^ 64 - 1" using whole by (rule min_absorb2)
    moreover have "min (2 ^ 64 - 1) ?m = ?m" using m by (rule min_absorb2)
    ultimately show ?thesis using False by simp
  qed (use m in \<open>auto simp: min_def\<close>)
  then show ?thesis by (simp add: unat_word_min unat_sat_mul unat_multiplier nominal_delay_def)
qed

lemma jitter_bounds:
  "unat d - unat d div 4 \<le> unat (jitter_delay_ms nanos d)"
  "unat (jitter_delay_ms nanos d) \<le> unat d + unat d div 4"
proof -
  let ?span = "d div 4"
  have span: "unat ?span = unat d div 4" by (simp add: unat_div)
  have small: "unat d < 2 ^ 64" by (rule unat_less)
  have mul: "unat (saturating_mul ?span 2) = 2 * (unat d div 4)"
    using small by (simp add: unat_sat_mul span)
  have succ: "unat (saturating_mul ?span 2 + 1) = 2 * (unat d div 4) + 1"
    using small mul by (simp add: unat_word_ariths)
  have off: "unat (nanos mod (saturating_mul ?span 2 + 1)) \<le> 2 * (unat d div 4)"
    using succ by (simp add: unat_mod)
  show "unat d - unat d div 4 \<le> unat (jitter_delay_ms nanos d)"
    using small by (auto simp: jitter_delay_ms_def Let_def unat_sat_add unat_sat_sub span)
  show "unat (jitter_delay_ms nanos d) \<le> unat d + unat d div 4"
    using off by (auto simp: jitter_delay_ms_def Let_def unat_sat_add unat_sat_sub span)
qed

lemma backoff_bounds_aux:
  "unat (next_delay_ms nanos config i)
     \<in> (if rc_jitter config
        then {nominal_delay config i - nominal_delay config i div 4 .. nominal_delay config i + nominal_delay config i div 4}
        else {nominal_delay config i})"
  using capped_delay [of config i]
    jitter_bounds [where nanos = nanos and d = "min (saturating_mul (rc_base_delay_ms config)
      (case checked_shl 1 i of Some m \<Rightarrow> m | None \<Rightarrow> - 1)) (rc_max_delay_ms config)"]
  by (simp add: next_delay_ms_def Let_def)

text \<open>
  C29. The delay before retry \<open>i\<close> is the base delay doubled \<open>i\<close> times, cut at the maximum without any
  overflow, and with jitter at most a quarter of that shorter or longer: it may exceed the maximum
  by a quarter.
\<close>

theorem backoff_bounds:
  "unat (next_delay_ms nanos config i)
     \<in> (if rc_jitter config
        then {nominal_delay config i - nominal_delay config i div 4 .. nominal_delay config i + nominal_delay config i div 4}
        else {nominal_delay config i})"
  by (rule backoff_bounds_aux)

lemma above_maximum: "rc_max_delay_ms fast = 500 \<and> next_delay_ms 250 fast 10 = 625"
  by (simp add: next_delay_ms_def fast_def checked_shl_def saturating_mul_def saturating_sub_def saturating_add_def
      jitter_delay_ms_def Let_def push_bit_eq_mult word_le_nat_alt min_def)

section \<open>Attempts\<close>

text \<open>The state before the attempt with index \<open>i\<close>, the first having index zero.\<close>

definition before_attempt :: "('s, 'e, 'a) operation \<Rightarrow> 's \<Rightarrow> nat \<Rightarrow> 's" where
  "before_attempt operation s i = ((fst \<circ> operation) ^^ i) s"

lemma before_attempt_Suc [simp]:
  "before_attempt operation s 0 = s"
  "before_attempt operation (fst (operation s)) i = before_attempt operation s (Suc i)"
  by (simp_all add: before_attempt_def funpow_swap1)

lemma retry_from_attempts:
  assumes "retry_from is_transient clock config operation retries s = (s', delays, result)"
    and "retries \<le> rc_max_retries config"
  shows "s' = before_attempt operation s (Suc (length delays))
    \<and> result = snd (operation (before_attempt operation s (length delays)))
    \<and> retries + length delays \<le> rc_max_retries config
    \<and> (\<forall>i < length delays. \<exists>e. snd (operation (before_attempt operation s i)) = Inl e \<and> is_transient e)
    \<and> (\<forall>e. result = Inl e \<and> is_transient e \<longrightarrow> retries + length delays = rc_max_retries config)
    \<and> delays = map (\<lambda>i. next_delay_ms (clock i) config i) [retries ..< retries + length delays]"
  using assms
proof (induction is_transient clock config operation retries s arbitrary: s' delays result rule: retry_from.induct)
  case (1 is_transient clock config operation retries s)
  obtain s1 r where op: "operation s = (s1, r)" by (cases "operation s")
  have first: "before_attempt operation s (Suc 0) = s1" using before_attempt_Suc(2) [of operation s 0] op by simp
  show ?case
  proof (cases "\<exists>e. r = Inl e \<and> is_transient e \<and> retries < rc_max_retries config")
    case False
    then have "s' = s1 \<and> delays = [] \<and> result = r"
      using 1(2) op by (subst (asm) retry_from.simps) (auto split: sum.splits if_splits)
    with False 1(3) op first show ?thesis by auto
  next
    case True
    then obtain e where e: "r = Inl e" "is_transient e" "retries < rc_max_retries config" by blast
    obtain ds where ds: "delays = next_delay_ms (clock retries) config retries # ds"
      "retry_from is_transient clock config operation (retries + 1) s1 = (s', ds, result)"
      using 1(2) op e by (subst (asm) retry_from.simps) (auto simp: Let_def split: prod.splits)
    have later: "before_attempt operation s1 i = before_attempt operation s (Suc i)" for i
      using before_attempt_Suc(2) [of operation s i] op by simp
    from 1(1) [OF op [symmetric] e(1) _ _ _ ds(2)] e(2,3)
    have IH: "s' = before_attempt operation s (Suc (Suc (length ds)))"
      "result = snd (operation (before_attempt operation s (Suc (length ds))))"
      "retries + 1 + length ds \<le> rc_max_retries config"
      "\<forall>i < length ds. \<exists>e. snd (operation (before_attempt operation s (Suc i))) = Inl e \<and> is_transient e"
      "\<forall>e. result = Inl e \<and> is_transient e \<longrightarrow> retries + 1 + length ds = rc_max_retries config"
      "ds = map (\<lambda>i. next_delay_ms (clock i) config i) [retries + 1 ..< retries + 1 + length ds]"
      unfolding later by auto
    have "\<forall>i < length delays. \<exists>e. snd (operation (before_attempt operation s i)) = Inl e \<and> is_transient e"
      using IH(4) e op ds(1) by (auto simp: less_Suc_eq_0_disj)
    moreover have "delays = map (\<lambda>i. next_delay_ms (clock i) config i) [retries ..< retries + length delays]"
      using IH(6) ds(1) by (simp add: upt_conv_Cons del: upt_Suc)
    ultimately show ?thesis using IH(1,2,3,5) ds(1) by simp
  qed
qed

text \<open>
  C27. A retried operation runs until it succeeds, fails for good or has failed one time more than
  the configured retries: the result and the state are those of its last attempt, every attempt before
  that failed with a transient error, a transient error is returned only when all retries are used, and between two attempts
  the delay of that retry is slept.
\<close>

theorem retry_attempts:
  assumes "retry_sync_with_sleep is_transient clock config operation s = (s', delays, result)"
  shows "s' = before_attempt operation s (Suc (length delays))
    \<and> result = snd (operation (before_attempt operation s (length delays)))
    \<and> length delays \<le> rc_max_retries config
    \<and> (\<forall>i < length delays. \<exists>e. snd (operation (before_attempt operation s i)) = Inl e \<and> is_transient e)
    \<and> (\<forall>e. result = Inl e \<and> is_transient e \<longrightarrow> length delays = rc_max_retries config)
    \<and> delays = map (\<lambda>i. next_delay_ms (clock i) config i) [0 ..< length delays]"
  using retry_from_attempts [OF assms [unfolded retry_sync_with_sleep_def] le0] unfolding add_0 .

text \<open>An operation that fails twice with a transient error.\<close>

definition flaky :: "(nat, git_error, string) operation" where
  "flaky n = (n + 1, if n < 2 then Inl (Git_Transient ''lock'' ''lock'') else Inr ''done'')"

definition sample_retry :: retry_config where
  "sample_retry = \<lparr> rc_max_retries = 2, rc_base_delay_ms = 50, rc_max_delay_ms = 500, rc_jitter = False \<rparr>"

lemma sample_retry_delays:
  "next_delay_ms nanos sample_retry 0 = 50" "next_delay_ms nanos sample_retry (Suc 0) = 100"
proof -
  have j: "\<not> rc_jitter sample_retry" by (simp add: sample_retry_def)
  have n: "nominal_delay sample_retry 0 = 50" "nominal_delay sample_retry (Suc 0) = 100"
    by (simp_all add: sample_retry_def nominal_delay_def)
  have "unat (next_delay_ms nanos sample_retry 0) = 50" "unat (next_delay_ms nanos sample_retry (Suc 0)) = 100"
    using backoff_bounds_aux [of nanos sample_retry 0] backoff_bounds_aux [of nanos sample_retry "Suc 0"] j
    unfolding n by simp_all
  then show "next_delay_ms nanos sample_retry 0 = 50" "next_delay_ms nanos sample_retry (Suc 0) = 100"
    by (simp_all add: word_unat_eq_iff)
qed

lemma flaky_run:
  "retry_sync_with_sleep git_is_transient (\<lambda>i. 0) sample_retry flaky 0 = (3, [50, 100], Inr ''done'')"
proof -
  let ?run = "retry_from git_is_transient (\<lambda>i. 0) sample_retry flaky"
  have max: "rc_max_retries sample_retry = 2" by (simp add: sample_retry_def)
  have "?run 2 2 = (3, [], Inr ''done'')" by (subst retry_from.simps) (simp add: flaky_def)
  then have "?run (Suc 0) 1 = (3, [100], Inr ''done'')"
    by (subst retry_from.simps) (simp add: flaky_def max sample_retry_delays Let_def numeral_2_eq_2)
  then have "?run 0 0 = (3, [50, 100], Inr ''done'')"
    by (subst retry_from.simps) (simp add: flaky_def max sample_retry_delays Let_def)
  then show ?thesis by (simp add: retry_sync_with_sleep_def)
qed

theorem retry_attempts_witness:
  "before_attempt flaky 0 3 = 3 \<and> snd (flaky (before_attempt flaky 0 2)) = Inr ''done''
   \<and> (\<exists>e. snd (flaky (before_attempt flaky 0 1)) = Inl e \<and> git_is_transient e)"
proof -
  have n: "length [50, 100 :: 64 word] = 2" "Suc 2 = 3" by simp_all
  have "(1 :: nat) < 2" by simp
  with retry_attempts [OF flaky_run, unfolded n] show ?thesis by metis
qed

end
