(* ===== verification/Auto_Merge.thy ===== *)
theory Auto_Merge
  imports Complex_Main Batty_Prelude
begin

text \<open>
  The policy that decides whether the branch of a completed task is merged without review
  (\<open>src/team/auto_merge.rs\<close>), the settings (\<open>src/team/config/types.rs\<close>), the overrides per task, and the route the
  completion handler takes (\<open>src/team/merge/completion.rs\<close>).

  Scores are rationals where the code has \<open>f64\<close>, and their printing with two decimals is the parameter \<open>fmt\<close>. Git
  is the parameter \<open>git\<close>, from arguments to the exit status and the output, or \<open>None\<close> when it cannot
  be run. Letters are lowered as in ASCII.
\<close>

section \<open>Settings and the summary of a branch\<close>

record auto_merge_policy =
  am_enabled :: bool
  am_max_diff_lines :: nat
  am_max_files_changed :: nat
  am_max_modules_touched :: nat
  am_sensitive_paths :: "string list"
  am_confidence_threshold :: rat
  am_require_tests_pass :: bool
  am_post_merge_verify :: bool

definition default_auto_merge :: auto_merge_policy where
  "default_auto_merge = \<lparr> am_enabled = True, am_max_diff_lines = 2000, am_max_files_changed = 30,
     am_max_modules_touched = 10, am_sensitive_paths = [''Cargo.toml'', ''team.yaml'', ''.env''],
     am_confidence_threshold = 0, am_require_tests_pass = True, am_post_merge_verify = True \<rparr>"

record diff_summary =
  ds_files_changed :: nat
  ds_lines_added :: nat
  ds_lines_removed :: nat
  ds_generated_lines_added :: nat
  ds_generated_lines_removed :: nat
  ds_modules_touched :: "string set"
  ds_sensitive_files :: "string list"
  ds_report_artifacts :: "string list"
  ds_has_unsafe :: bool
  ds_has_conflicts :: bool
  ds_rename_count :: nat
  ds_has_migrations :: bool
  ds_has_config_changes :: bool

definition total_lines :: "diff_summary \<Rightarrow> nat" where
  "total_lines s = ds_lines_added s + ds_lines_removed s"

definition generated_data_lines :: "diff_summary \<Rightarrow> nat" where
  "generated_data_lines s = ds_generated_lines_added s + ds_generated_lines_removed s"

definition review_lines :: "diff_summary \<Rightarrow> nat" where
  "review_lines s = total_lines s - generated_data_lines s"

section \<open>Kinds of files\<close>

definition is_migration_file :: "string \<Rightarrow> bool" where
  "is_migration_file file =
     (let lower = lowercase file in
      contains ''migration'' lower \<or> contains ''migrate'' lower \<or> contains ''/db/'' lower \<or> contains ''schema'' lower
      \<or> ends_with ''.sql'' lower)"

definition is_generated_data_file :: "string \<Rightarrow> bool" where
  "is_generated_data_file file =
     (let lower = lowercase file in
      (contains ''generated/'' lower \<or> contains ''reference/'' lower \<or> contains ''fixtures/'' lower)
      \<and> \<not> starts_with ''src/'' lower)"

definition is_generated_report_artifact :: "string \<Rightarrow> bool" where
  "is_generated_report_artifact file =
     (let lower = lowercase file in
      list_ex (\<lambda>p. starts_with p lower)
        [''.batty/reports/'', ''.batty/releases/'', ''.batty/retrospectives/'', ''reports/'', ''coverage/'', ''target/''])"

definition is_config_file :: "string \<Rightarrow> bool" where
  "is_config_file file =
     (let lower = lowercase file;
          has_config_ext = list_ex (\<lambda>x. ends_with x lower)
            [''.yaml'', ''.yml'', ''.toml'', ''.json'', ''.env'', ''.env.example'']
      in if \<not> has_config_ext then False
         else
           let is_generated = contains ''generated/'' lower \<or> contains ''reference/'' lower \<or> contains ''fixtures/'' lower
             \<or> contains ''tests/'' lower \<or> ends_with ''.lock'' lower \<or> ends_with ''lock.json'' lower
           in has_config_ext \<and> \<not> is_generated)"

section \<open>Analysis of a branch\<close>

type_synonym git_reads = "string list \<Rightarrow> (bool \<times> string) option"

definition check_has_conflicts :: "git_reads \<Rightarrow> string \<Rightarrow> string \<Rightarrow> bool" where
  "check_has_conflicts git base branch =
     (case git [''merge-base'', base, branch] of
        Some (True, out) \<Rightarrow>
          (case git [''merge-tree'', trim out, base, branch] of
             Some (_, stdout) \<Rightarrow> contains ''<<<<<<'' stdout \<or> contains ''changed in both'' stdout
           | None \<Rightarrow> True)
      | _ \<Rightarrow> True)"

text \<open>One line of \<open>git diff --numstat\<close>: lines added, lines removed (a dash for binary files), path.\<close>

definition numstat_line :: "string \<Rightarrow> (nat option \<times> nat option \<times> string) option" where
  "numstat_line line =
     (let parts = split_by (\<lambda>c. c = tab_char) line in
      if length parts < 3 then None
      else Some (parse_u64 (parts ! 0), parse_u64 (parts ! 1), parts ! 2))"

definition or_zero :: "nat option \<Rightarrow> nat" where
  "or_zero n = (case n of Some k \<Rightarrow> k | None \<Rightarrow> 0)"

definition module_of :: "string \<Rightarrow> string option" where
  "module_of file =
     map_option (\<lambda>rest. hd (split_by (\<lambda>c. c = CHR ''/'') rest)) (strip_prefix ''src/'' file)"

definition count_file :: "nat option \<times> nat option \<times> string \<Rightarrow> diff_summary \<Rightarrow> diff_summary" where
  "count_file = (\<lambda>(added, removed, file) s.
     let generated = is_generated_data_file file in
     s\<lparr> ds_files_changed := ds_files_changed s + 1,
        ds_lines_added := ds_lines_added s + or_zero added,
        ds_lines_removed := ds_lines_removed s + or_zero removed,
        ds_sensitive_files := ds_sensitive_files s @ [file],
        ds_generated_lines_added := ds_generated_lines_added s + (if generated then or_zero added else 0),
        ds_generated_lines_removed := ds_generated_lines_removed s + (if generated then or_zero removed else 0),
        ds_report_artifacts := ds_report_artifacts s @ (if is_generated_report_artifact file then [file] else []),
        ds_modules_touched := ds_modules_touched s \<union> (case module_of file of Some m \<Rightarrow> {m} | None \<Rightarrow> {}) \<rparr>)"

definition empty_summary :: diff_summary where
  "empty_summary = \<lparr> ds_files_changed = 0, ds_lines_added = 0, ds_lines_removed = 0, ds_generated_lines_added = 0,
     ds_generated_lines_removed = 0, ds_modules_touched = {}, ds_sensitive_files = [], ds_report_artifacts = [],
     ds_has_unsafe = False, ds_has_conflicts = False, ds_rename_count = 0, ds_has_migrations = False,
     ds_has_config_changes = False \<rparr>"

definition adds_unsafe :: "string \<Rightarrow> bool" where
  "adds_unsafe line = (starts_with ''+'' line \<and> (contains ''unsafe {'' line \<or> contains ''unsafe fn'' line))"

definition analyze_diff :: "git_reads \<Rightarrow> string \<Rightarrow> string \<Rightarrow> string + diff_summary" where
  "analyze_diff git base branch =
     (let refs = base @ ''...'' @ branch in
      case git [''diff'', ''--numstat'', refs] of
        None \<Rightarrow> Inl ''failed to run git diff --numstat''
      | Some (_, stat) \<Rightarrow>
          (let s = fold count_file (List.map_filter numstat_line (str_lines stat)) empty_summary in
           case git [''diff'', refs] of
             None \<Rightarrow> Inl ''failed to run git diff''
           | Some (_, diff) \<Rightarrow>
               (case git [''diff'', ''--diff-filter=R'', ''--name-only'', refs] of
                  None \<Rightarrow> Inl ''failed to run git diff --diff-filter=R''
                | Some (_, renamed) \<Rightarrow>
                    Inr (s\<lparr> ds_has_unsafe := list_ex adds_unsafe (str_lines diff),
                            ds_rename_count := length (filter (\<lambda>l. l \<noteq> []) (str_lines renamed)),
                            ds_has_migrations := list_ex is_migration_file (ds_sensitive_files s),
                            ds_has_config_changes := list_ex is_config_file (ds_sensitive_files s),
                            ds_has_conflicts := check_has_conflicts git base branch \<rparr>))))"

section \<open>Confidence\<close>

definition touches_sensitive :: "diff_summary \<Rightarrow> auto_merge_policy \<Rightarrow> bool" where
  "touches_sensitive s policy =
     list_ex (\<lambda>f. list_ex (\<lambda>p. contains p f) (am_sensitive_paths policy)) (ds_sensitive_files s)"

definition deduct :: "bool \<Rightarrow> rat \<Rightarrow> rat" where
  "deduct condition amount = (if condition then amount else 0)"

definition compute_merge_confidence :: "diff_summary \<Rightarrow> auto_merge_policy \<Rightarrow> rat" where
  "compute_merge_confidence s policy =
     (let modules = card (ds_modules_touched s);
          confidence = 1
            - deduct (3 < ds_files_changed s) (1 / 10 * of_nat (ds_files_changed s - 3))
            - deduct (1 < modules) (2 / 10 * of_nat (modules - 1))
            - deduct (touches_sensitive s policy) (3 / 10)
            - deduct (ds_report_artifacts s \<noteq> []) (3 / 10)
            - deduct (100 < total_lines s) (1 / 10 * of_nat ((total_lines s - 100) div 50))
            - deduct (ds_has_unsafe s) (4 / 10)
            - deduct (ds_has_conflicts s) (5 / 10)
            - deduct (ds_has_migrations s) (3 / 10)
            - deduct (ds_has_config_changes s) (15 / 100)
            + (if 0 < ds_rename_count s \<and> 0 < ds_files_changed s
               then 1 / 10 * (of_nat (ds_rename_count s) / of_nat (ds_files_changed s)) else 0)
      in max confidence 0)"

definition score_auto_merge_candidate :: "diff_summary \<Rightarrow> auto_merge_policy \<Rightarrow> rat" where
  "score_auto_merge_candidate s policy = compute_merge_confidence s policy"

section \<open>Decisions\<close>

datatype decision_kind = Accepted | ManualReview

record decision_record =
  dr_decision :: decision_kind
  dr_confidence :: rat
  dr_reasons :: "string list"
  dr_files_changed :: nat
  dr_lines_changed :: nat
  dr_modules_touched :: nat
  dr_has_migrations :: bool
  dr_has_config_changes :: bool
  dr_has_unsafe :: bool
  dr_has_conflicts :: bool
  dr_rename_count :: nat
  dr_tests_passed :: bool
  dr_override_forced :: "bool option"
  dr_diff_available :: bool

definition map_or :: "'b \<Rightarrow> ('a \<Rightarrow> 'b) \<Rightarrow> 'a option \<Rightarrow> 'b" where
  "map_or d f x = (case x of Some y \<Rightarrow> f y | None \<Rightarrow> d)"

definition from_summary ::
  "diff_summary option \<Rightarrow> rat \<Rightarrow> decision_kind \<Rightarrow> string list \<Rightarrow> bool \<Rightarrow> bool option \<Rightarrow> decision_record" where
  "from_summary summary confidence decision reasons tests_passed override_forced =
     \<lparr> dr_decision = decision, dr_confidence = confidence, dr_reasons = reasons,
       dr_files_changed = map_or 0 ds_files_changed summary,
       dr_lines_changed = map_or 0 total_lines summary,
       dr_modules_touched = map_or 0 (\<lambda>s. card (ds_modules_touched s)) summary,
       dr_has_migrations = map_or False ds_has_migrations summary,
       dr_has_config_changes = map_or False ds_has_config_changes summary,
       dr_has_unsafe = map_or False ds_has_unsafe summary,
       dr_has_conflicts = map_or False ds_has_conflicts summary,
       dr_rename_count = map_or 0 ds_rename_count summary,
       dr_tests_passed = tests_passed, dr_override_forced = override_forced,
       dr_diff_available = (summary \<noteq> None) \<rparr>"

definition artifacts_reason :: "string list \<Rightarrow> string" where
  "artifacts_reason artifacts =
     ''contains generated/report artifacts: '' @ join '', '' (take 3 artifacts)
     @ (if 3 < length artifacts then '', and '' @ show_nat (length artifacts - 3) @ '' more'' else [])"

definition limit_reason :: "nat \<Rightarrow> string \<Rightarrow> nat \<Rightarrow> string" where
  "limit_reason n what most = show_nat n @ what @ '' (max '' @ show_nat most @ '')''"

definition given :: "bool \<Rightarrow> string \<Rightarrow> string list" where
  "given condition reason = (if condition then [reason] else [])"

definition review_reasons :: "(rat \<Rightarrow> string) \<Rightarrow> diff_summary \<Rightarrow> auto_merge_policy \<Rightarrow> bool \<Rightarrow> string list" where
  "review_reasons fmt s policy tests_passed =
     (let confidence = score_auto_merge_candidate s policy; modules = card (ds_modules_touched s) in
      given (am_require_tests_pass policy \<and> \<not> tests_passed) ''tests did not pass''
      @ given (ds_has_conflicts s) ''conflicts with main''
      @ given (confidence < am_confidence_threshold policy)
          (''confidence '' @ fmt confidence @ '' below threshold '' @ fmt (am_confidence_threshold policy))
      @ given (am_max_files_changed policy < ds_files_changed s)
          (limit_reason (ds_files_changed s) '' files changed'' (am_max_files_changed policy))
      @ given (am_max_diff_lines policy < review_lines s)
          (limit_reason (review_lines s) '' diff lines'' (am_max_diff_lines policy))
      @ given (am_max_modules_touched policy < modules)
          (limit_reason modules '' modules touched'' (am_max_modules_touched policy))
      @ given (touches_sensitive s policy) ''touches sensitive paths''
      @ given (ds_report_artifacts s \<noteq> []) (artifacts_reason (ds_report_artifacts s))
      @ given (ds_has_unsafe s) ''contains unsafe blocks''
      @ given (ds_has_migrations s) ''contains migration/schema changes'')"

definition evaluate_auto_merge_candidate ::
  "(rat \<Rightarrow> string) \<Rightarrow> diff_summary \<Rightarrow> auto_merge_policy \<Rightarrow> bool \<Rightarrow> decision_record" where
  "evaluate_auto_merge_candidate fmt s policy tests_passed =
     (let confidence = score_auto_merge_candidate s policy in
      if \<not> am_enabled policy then
        from_summary (Some s) confidence ManualReview [''auto-merge disabled by policy''] tests_passed None
      else
        let reasons = review_reasons fmt s policy tests_passed in
        if reasons = [] then
          from_summary (Some s) confidence Accepted
            [''confidence '' @ fmt confidence @ '' meets threshold '' @ fmt (am_confidence_threshold policy)
             @ ''; diff stays within file/module/line policy limits''] tests_passed None
        else from_summary (Some s) confidence ManualReview reasons tests_passed None)"

definition forced_auto_merge_decision :: "diff_summary option \<Rightarrow> auto_merge_policy \<Rightarrow> bool \<Rightarrow> decision_record" where
  "forced_auto_merge_decision summary policy tests_passed =
     from_summary summary (map_or 0 (\<lambda>s. score_auto_merge_candidate s policy) summary) Accepted
       [''auto-merge forced by per-task override''] tests_passed (Some True)"

definition forced_manual_review_decision :: "diff_summary option \<Rightarrow> auto_merge_policy \<Rightarrow> bool \<Rightarrow> decision_record" where
  "forced_manual_review_decision summary policy tests_passed =
     from_summary summary (map_or 0 (\<lambda>s. score_auto_merge_candidate s policy) summary) ManualReview
       [''auto-merge disabled by per-task override''] tests_passed (Some False)"

definition explain_auto_merge_decision :: "(rat \<Rightarrow> string) \<Rightarrow> decision_record \<Rightarrow> string" where
  "explain_auto_merge_decision fmt r =
     (let decision = (case dr_decision r of
              Accepted \<Rightarrow> ''accepted for auto-merge'' | ManualReview \<Rightarrow> ''routed to manual review'');
          override_text = (case dr_override_forced r of
              Some True \<Rightarrow> '' (forced by override)'' | Some False \<Rightarrow> '' (disabled by override)'' | None \<Rightarrow> []);
          diff_shape = (if dr_diff_available r
            then show_nat (dr_files_changed r) @ '' files, '' @ show_nat (dr_lines_changed r) @ '' lines, ''
              @ show_nat (dr_modules_touched r) @ '' modules''
            else ''diff summary unavailable'')
      in decision @ override_text @ '': confidence '' @ fmt (dr_confidence r) @ ''; '' @ diff_shape @ ''; reasons: ''
         @ join ''; '' (dr_reasons r))"

datatype auto_merge_decision = AutoMerge rat | ToManualReview rat "string list"

definition should_auto_merge ::
  "(rat \<Rightarrow> string) \<Rightarrow> diff_summary \<Rightarrow> auto_merge_policy \<Rightarrow> bool \<Rightarrow> auto_merge_decision" where
  "should_auto_merge fmt s policy tests_passed =
     (let r = evaluate_auto_merge_candidate fmt s policy tests_passed in
      case dr_decision r of
        Accepted \<Rightarrow> AutoMerge (dr_confidence r)
      | ManualReview \<Rightarrow> ToManualReview (dr_confidence r) (dr_reasons r))"

section \<open>Overrides and the route of a completed task\<close>

text \<open>The file of overrides; serde is the parameters \<open>to_json\<close> and \<open>of_json\<close>.\<close>

definition load_overrides ::
  "(string \<Rightarrow> (nat \<rightharpoonup> bool) option) \<Rightarrow> string option \<Rightarrow> (nat \<rightharpoonup> bool)" where
  "load_overrides of_json file =
     (case file of None \<Rightarrow> Map.empty | Some content \<Rightarrow> map_or Map.empty id (of_json content))"

definition save_override ::
  "(string \<Rightarrow> (nat \<rightharpoonup> bool) option) \<Rightarrow> ((nat \<rightharpoonup> bool) \<Rightarrow> string) \<Rightarrow> string option \<Rightarrow> nat \<Rightarrow> bool \<Rightarrow> string option" where
  "save_override of_json to_json file task_id enabled =
     Some (to_json ((load_overrides of_json file)(task_id \<mapsto> enabled)))"

definition auto_merge_override ::
  "(string \<Rightarrow> (nat \<rightharpoonup> bool) option) \<Rightarrow> (nat \<rightharpoonup> bool) \<Rightarrow> string option \<Rightarrow> nat \<Rightarrow> bool option" where
  "auto_merge_override of_json in_memory file task_id =
     (case in_memory task_id of Some v \<Rightarrow> Some v | None \<Rightarrow> load_overrides of_json file task_id)"

text \<open>What becomes of a task whose tests passed: it waits for a manual review, its branch is queued for
  the merge queue, or the branch is merged at once.\<close>

datatype task_route = To_review decision_record | To_queue decision_record | Merge_directly

definition completion_route ::
  "(rat \<Rightarrow> string) \<Rightarrow> bool option \<Rightarrow> auto_merge_policy \<Rightarrow> string + diff_summary \<Rightarrow> task_route" where
  "completion_route fmt forced policy diff_analysis =
     (if forced = Some False then
        To_review (forced_manual_review_decision
          (case diff_analysis of Inr s \<Rightarrow> Some s | Inl _ \<Rightarrow> None) policy True)
      else if forced = Some True \<or> am_enabled policy then
        (case diff_analysis of
           Inr s \<Rightarrow>
             (let decision = (if forced = Some True then forced_auto_merge_decision (Some s) policy True
                              else evaluate_auto_merge_candidate fmt s policy True)
              in case dr_decision decision of
                   Accepted \<Rightarrow> To_queue decision
                 | ManualReview \<Rightarrow> To_review decision)
         | Inl _ \<Rightarrow> Merge_directly)
      else Merge_directly)"

section \<open>Lemmas\<close>

lemma given_empty [simp]: "given c r = [] \<longleftrightarrow> \<not> c"
  by (simp add: given_def)

lemma from_summary_simps [simp]:
  "dr_decision (from_summary s c d r t f) = d" "dr_confidence (from_summary s c d r t f) = c"
  "dr_reasons (from_summary s c d r t f) = r"
  by (simp_all add: from_summary_def)

lemma accepted_iff:
  "dr_decision (evaluate_auto_merge_candidate fmt s policy tests_passed) = Accepted \<longleftrightarrow>
   am_enabled policy \<and> review_reasons fmt s policy tests_passed = []"
  by (simp add: evaluate_auto_merge_candidate_def Let_def)

text \<open>What the fold over the changed files collects.\<close>

lemma count_files:
  "ds_sensitive_files (fold count_file fs s) = ds_sensitive_files s @ map (snd \<circ> snd) fs
   \<and> ds_report_artifacts (fold count_file fs s)
     = ds_report_artifacts s @ filter is_generated_report_artifact (map (snd \<circ> snd) fs)
   \<and> ds_files_changed (fold count_file fs s) = ds_files_changed s + length fs
   \<and> ds_modules_touched (fold count_file fs s)
     = ds_modules_touched s \<union> set (List.map_filter module_of (map (snd \<circ> snd) fs))"
proof (induction fs arbitrary: s)
  case (Cons f fs)
  obtain a r p where f: "f = (a, r, p)" by (cases f) auto
  show ?case
    using Cons.IH [of "count_file f s"]
    by (auto simp: f count_file_def Let_def List.map_filter_def split: option.splits)
qed (simp add: List.map_filter_def)

definition changed_files :: "git_reads \<Rightarrow> string \<Rightarrow> string \<Rightarrow> string list" where
  "changed_files git base branch =
     (case git [''diff'', ''--numstat'', base @ ''...'' @ branch] of
        Some (_, stat) \<Rightarrow> map (snd \<circ> snd) (List.map_filter numstat_line (str_lines stat))
      | None \<Rightarrow> [])"

lemma analyze_diff_files:
  assumes "analyze_diff git base branch = Inr s"
  shows "ds_sensitive_files s = changed_files git base branch"
    "ds_report_artifacts s = filter is_generated_report_artifact (changed_files git base branch)"
    "ds_files_changed s = length (changed_files git base branch)"
    "ds_modules_touched s = set (List.map_filter module_of (changed_files git base branch))"
    "ds_has_migrations s = list_ex is_migration_file (changed_files git base branch)"
    "ds_has_conflicts s = check_has_conflicts git base branch"
    "\<exists>st diff. git [''diff'', base @ ''...'' @ branch] = Some (st, diff)
       \<and> ds_has_unsafe s = list_ex adds_unsafe (str_lines diff)"
  using assms count_files [of _ empty_summary]
  by (auto simp: analyze_diff_def changed_files_def Let_def empty_summary_def split: option.splits)

lemma confidence_bounds:
  "0 \<le> compute_merge_confidence s policy"
  "ds_rename_count s \<le> ds_files_changed s \<Longrightarrow> compute_merge_confidence s policy \<le> 11 / 10"
proof -
  show "0 \<le> compute_merge_confidence s policy" by (simp add: compute_merge_confidence_def Let_def)
  assume renames: "ds_rename_count s \<le> ds_files_changed s"
  have nonneg: "0 \<le> deduct c (a :: rat)" if "0 \<le> a" for c a using that by (simp add: deduct_def)
  have boost: "(if 0 < ds_rename_count s \<and> 0 < ds_files_changed s
      then 1 / 10 * (of_nat (ds_rename_count s) / of_nat (ds_files_changed s)) else 0 :: rat) \<le> 1 / 10"
    using renames by (auto simp: divide_le_eq)
  show "compute_merge_confidence s policy \<le> 11 / 10"
    unfolding compute_merge_confidence_def Let_def
    using boost
      nonneg [of "1 / 10 * of_nat (ds_files_changed s - 3)" "3 < ds_files_changed s"]
      nonneg [of "2 / 10 * of_nat (card (ds_modules_touched s) - 1)" "1 < card (ds_modules_touched s)"]
      nonneg [of "3 / 10" "touches_sensitive s policy"] nonneg [of "3 / 10" "ds_report_artifacts s \<noteq> []"]
      nonneg [of "1 / 10 * of_nat ((total_lines s - 100) div 50)" "100 < total_lines s"]
      nonneg [of "4 / 10" "ds_has_unsafe s"] nonneg [of "5 / 10" "ds_has_conflicts s"]
      nonneg [of "3 / 10" "ds_has_migrations s"] nonneg [of "15 / 100" "ds_has_config_changes s"]
    by (intro max.boundedI) simp_all
qed

text \<open>A branch that renames one file scores above one.\<close>

lemma rename_scores_above_one:
  "compute_merge_confidence (empty_summary\<lparr>ds_files_changed := 1, ds_rename_count := 1\<rparr>) policy = 11 / 10"
  by (simp add: compute_merge_confidence_def empty_summary_def Let_def deduct_def total_lines_def touches_sensitive_def)

text \<open>With the default threshold the score never keeps a branch from being merged.\<close>

lemma default_threshold_idle: "\<not> score_auto_merge_candidate s policy < am_confidence_threshold default_auto_merge"
  using confidence_bounds(1) by (simp add: score_auto_merge_candidate_def default_auto_merge_def not_less)

lemma override_after_save:
  assumes "\<And>m. of_json (to_json m) = Some m"
  shows "auto_merge_override of_json in_memory (save_override of_json to_json file task_id enabled) i
    = (case in_memory i of Some v \<Rightarrow> Some v
       | None \<Rightarrow> if i = task_id then Some enabled else auto_merge_override of_json in_memory file i)"
  by (auto simp: auto_merge_override_def save_override_def load_overrides_def map_or_def assms split: option.splits)

section \<open>Properties\<close>

text \<open>
  C6. A branch queued for the merge queue was forced by the override of its task, or is enabled by the policy and:
  git sees no conflict with the trunk; no changed file is a migration, a generated report or under a sensitive path; no
  line added holds an unsafe block; and the limits on files, modules, lines and confidence are kept.
\<close>

theorem unattended_merge_checked:
  assumes "completion_route fmt forced policy (analyze_diff git trunk branch) = To_queue d"
  shows "forced = Some True
    \<or> (am_enabled policy \<and> forced = None
       \<and> \<not> check_has_conflicts git trunk branch
       \<and> \<not> list_ex (\<lambda>f. is_migration_file f \<or> is_generated_report_artifact f
            \<or> list_ex (\<lambda>p. contains p f) (am_sensitive_paths policy)) (changed_files git trunk branch)
       \<and> (\<exists>st diff. git [''diff'', trunk @ ''...'' @ branch] = Some (st, diff) \<and> \<not> list_ex adds_unsafe (str_lines diff))
       \<and> length (changed_files git trunk branch) \<le> am_max_files_changed policy
       \<and> card (set (List.map_filter module_of (changed_files git trunk branch))) \<le> am_max_modules_touched policy
       \<and> dr_lines_changed d \<le> am_max_diff_lines policy + generated_data_lines (projr (analyze_diff git trunk branch))
       \<and> am_confidence_threshold policy \<le> dr_confidence d)"
proof (cases "forced = Some True")
  case other: False
  obtain s where s: "analyze_diff git trunk branch = Inr s" "am_enabled policy" "forced = None"
    "d = evaluate_auto_merge_candidate fmt s policy True" "dr_decision d = Accepted"
    using assms other by (auto simp: completion_route_def Let_def split: if_splits sum.splits decision_kind.splits)
  note files = analyze_diff_files [OF s(1)]
  have reasons: "review_reasons fmt s policy True = []" using s(4,5) by (simp add: accepted_iff)
  then have d: "dr_confidence d = score_auto_merge_candidate s policy" "dr_lines_changed d = total_lines s"
    using s(2,4) by (simp_all add: evaluate_auto_merge_candidate_def Let_def from_summary_def map_or_def)
  have "\<not> list_ex (\<lambda>f. is_migration_file f \<or> is_generated_report_artifact f
      \<or> list_ex (\<lambda>p. contains p f) (am_sensitive_paths policy)) (changed_files git trunk branch)"
    using reasons by (auto simp: review_reasons_def Let_def touches_sensitive_def files list_ex_iff filter_empty_conv)
  moreover have "\<exists>st diff. git [''diff'', trunk @ ''...'' @ branch] = Some (st, diff) \<and> \<not> list_ex adds_unsafe (str_lines diff)"
    using reasons files(7) by (auto simp: review_reasons_def Let_def)
  ultimately show ?thesis
    using reasons s(1-3) by (simp add: review_reasons_def Let_def files d review_lines_def not_less le_diff_conv)
qed simp

text \<open>A branch with one harmless file, and one that touches the manifest.\<close>

definition sample_git :: "string \<Rightarrow> git_reads" where
  "sample_git file = (\<lambda>args.
     if args = [''merge-base'', ''main'', ''eng-1/4''] then Some (True, ''abc'' @ [newline])
     else if args = [''diff'', ''--numstat'', ''main...eng-1/4''] then Some (True, ''3'' @ [tab_char] @ ''1'' @ [tab_char] @ file @ [newline])
     else Some (True, []))"

fun queued :: "task_route \<Rightarrow> decision_record option" where
  "queued (To_queue d) = Some d"
| "queued _ = None"

lemma sample_route:
  "queued (completion_route (\<lambda>_. []) None default_auto_merge
     (analyze_diff (sample_git ''src/team/mod.rs'') ''main'' ''eng-1/4'')) \<noteq> None"
  "queued (completion_route (\<lambda>_. []) None default_auto_merge
     (analyze_diff (sample_git ''Cargo.toml'') ''main'' ''eng-1/4'')) = None"
  by code_simp+


theorem unattended_merge_checked_witness:
  "\<exists>d. completion_route (\<lambda>_. []) None default_auto_merge
         (analyze_diff (sample_git ''src/team/mod.rs'') ''main'' ''eng-1/4'') = To_queue d
     \<and> \<not> check_has_conflicts (sample_git ''src/team/mod.rs'') ''main'' ''eng-1/4''
     \<and> length (changed_files (sample_git ''src/team/mod.rs'') ''main'' ''eng-1/4'') \<le> 30"
proof -
  from sample_route(1) obtain d where d: "completion_route (\<lambda>_. []) None default_auto_merge
      (analyze_diff (sample_git ''src/team/mod.rs'') ''main'' ''eng-1/4'') = To_queue d"
    by (cases "completion_route (\<lambda>_. []) None default_auto_merge
      (analyze_diff (sample_git ''src/team/mod.rs'') ''main'' ''eng-1/4'')") auto
  have "am_max_files_changed default_auto_merge = 30" by (simp add: default_auto_merge_def)
  with unattended_merge_checked [OF d] d show ?thesis by auto
qed

text \<open>What the cascade of the handler comes to: a branch is merged at once, without the policy having been
  asked and without a review, exactly when no override is set against it and either its diff could not be analysed, or
  neither the policy nor an override enables unattended merges.  The documentation promises a review in
  both cases.\<close>

lemma merged_without_review:
  "completion_route fmt forced policy diff_analysis = Merge_directly \<longleftrightarrow>
     forced \<noteq> Some False
     \<and> ((\<exists>e. diff_analysis = Inl e) \<or> (forced = None \<and> \<not> am_enabled policy))"
proof (cases forced)
  case None
  then show ?thesis
    by (auto simp: completion_route_def Let_def split: sum.splits decision_kind.splits)
next
  case (Some v)
  then show ?thesis
    by (cases v) (auto simp: completion_route_def Let_def split: sum.splits decision_kind.splits)
qed

text \<open>A disabled policy would send every branch to review, but it is never asked.\<close>

lemma disabled_policy_reviews:
  "\<not> am_enabled policy \<Longrightarrow> dr_decision (evaluate_auto_merge_candidate fmt s policy t) = ManualReview"
  by (simp add: evaluate_auto_merge_candidate_def Let_def)

end
