(* ===== verification/Error_Budget.thy ===== *)
theory Error_Budget
  imports Batty_Prelude "HOL-Library.Sublist"
begin

text \<open>
  How the daemon runs its subsystems (\<open>src/team/daemon/error_handling.rs\<close>), with the events it writes
  (\<open>daemon/telemetry.rs\<close>), and one iteration of its loop (\<open>daemon/poll.rs\<close>).

  A subsystem is a function of the whole state of the loop that ends well, with an error or with a
  panic. What the state holds besides the supervision is the type variable \<open>'d\<close>. The telemetry database is the
  parameter \<open>db\<close>: absent, or the error that inserting an event gives, if any. The event log can be
  written and read. Times are seconds; \<open>tm_instant\<close> is the monotonic clock, \<open>tm_unix\<close> the other, and both are read once
  for each step.
\<close>

section \<open>State\<close>

record times =
  tm_instant :: nat
  tm_unix :: nat

record team_event =
  ev_name :: string
  ev_ts :: nat
  ev_step :: "string option"
  ev_error :: "string option"

record 'd loop_state =
  lp_counts :: "string \<rightharpoonup> nat"
  lp_cooldowns :: "string \<rightharpoonup> nat"
  lp_events :: "team_event list"
  lp_actions :: "string list"
  lp_orchestrator :: bool
  lp_tick_errors :: "(string \<times> string) list"
  lp_cycle :: nat
  lp_rest :: 'd

datatype step_end = Ended | Failed_with string | Panicked string

type_synonym 'd subsystem = "'d loop_state \<Rightarrow> 'd loop_state \<times> step_end"
type_synonym database = "(team_event \<Rightarrow> string option) option"

section \<open>The error budget of optional subsystems\<close>

definition error_window_secs :: nat where "error_window_secs = 600"
definition error_budget :: nat where "error_budget = 5"
definition backoff_secs :: "nat list" where "backoff_secs = [60, 300, 1800]"

definition optional_subsystem_for_step :: "string \<Rightarrow> string option" where
  "optional_subsystem_for_step step =
     (if step = ''telemetry_emit_event'' then Some ''telemetry''
      else if step = ''process_discord_queue'' then Some ''discord''
      else if step = ''process_telegram_queue'' then Some ''telegram''
      else if step = ''maybe_generate_standup'' then Some ''standup''
      else None)"

definition optional_subsystem_names :: "string list" where
  "optional_subsystem_names = [''telemetry'', ''discord'', ''telegram'', ''grafana'', ''standup'']"

definition backoff_key :: "string \<Rightarrow> string" where
  "backoff_key subsystem = ''__optional_subsystem_backoff:'' @ subsystem"

definition disable_key :: "string \<Rightarrow> string" where
  "disable_key subsystem = ''__optional_subsystem_disabled:'' @ subsystem"

definition record_orchestrator_action :: "string \<Rightarrow> 'd loop_state \<Rightarrow> 'd loop_state" where
  "record_orchestrator_action action s =
     (if lp_orchestrator s then s\<lparr>lp_actions := lp_actions s @ [action]\<rparr> else s)"

definition recent_error_count :: "times \<Rightarrow> string \<Rightarrow> 'd loop_state \<Rightarrow> nat" where
  "recent_error_count now subsystem s =
     (let cutoff = tm_unix now - error_window_secs in
      length (filter (\<lambda>ev. ev_name ev = ''loop_step_error'' \<and> cutoff \<le> ev_ts ev
        \<and> Option.bind (ev_step ev) optional_subsystem_for_step = Some subsystem) (lp_events s)))"

definition optional_subsystem_ready :: "times \<Rightarrow> string \<Rightarrow> 'd loop_state \<Rightarrow> 'd loop_state \<times> bool" where
  "optional_subsystem_ready now subsystem s =
     (case lp_cooldowns s (disable_key subsystem) of
        None \<Rightarrow> (s, True)
      | Some disabled_until \<Rightarrow>
          if tm_instant now < disabled_until then (s, False)
          else (record_orchestrator_action
                  (''health: re-enabled optional subsystem '' @ subsystem @ '' after backoff'')
                  (s\<lparr>lp_cooldowns := (lp_cooldowns s)(disable_key subsystem := None)\<rparr>), True))"

definition record_optional_success :: "times \<Rightarrow> string \<Rightarrow> 'd loop_state \<Rightarrow> 'd loop_state" where
  "record_optional_success now subsystem s =
     (if recent_error_count now subsystem s = 0
      then s\<lparr>lp_counts := (lp_counts s)(backoff_key subsystem := None)\<rparr> else s)"

definition backoff_index :: "string \<Rightarrow> 'd loop_state \<Rightarrow> nat" where
  "backoff_index subsystem s =
     min (case lp_counts s (backoff_key subsystem) of Some n \<Rightarrow> n | None \<Rightarrow> 0) (length backoff_secs - 1)"

definition record_optional_failure :: "times \<Rightarrow> string \<Rightarrow> string \<Rightarrow> 'd loop_state \<Rightarrow> 'd loop_state" where
  "record_optional_failure now subsystem error s =
     (let recent_errors = recent_error_count now subsystem s in
      if recent_errors \<le> error_budget then s
      else if lp_cooldowns s (disable_key subsystem) \<noteq> None then s
      else
        let index = backoff_index subsystem s; secs = backoff_secs ! index in
        record_orchestrator_action
          (''health: disabled optional subsystem '' @ subsystem @ '' after '' @ show_nat recent_errors
           @ '' errors in 10m; retry in '' @ show_nat secs @ ''s ('' @ error @ '')'')
          (s\<lparr> lp_cooldowns := (lp_cooldowns s)(disable_key subsystem \<mapsto> tm_instant now + secs),
              lp_counts := (lp_counts s)(backoff_key subsystem \<mapsto> min (index + 1) (length backoff_secs - 1)) \<rparr>))"

section \<open>Events\<close>

definition step_error_event :: "times \<Rightarrow> string \<Rightarrow> string \<Rightarrow> team_event" where
  "step_error_event now step error =
     \<lparr> ev_name = ''loop_step_error'', ev_ts = tm_unix now, ev_step = Some step, ev_error = Some error \<rparr>"

definition append_event :: "team_event \<Rightarrow> 'd loop_state \<Rightarrow> 'd loop_state" where
  "append_event ev s = s\<lparr>lp_events := lp_events s @ [ev]\<rparr>"

definition emit_event :: "database \<Rightarrow> times \<Rightarrow> team_event \<Rightarrow> 'd loop_state \<Rightarrow> 'd loop_state" where
  "emit_event db now ev s =
     (case optional_subsystem_ready now ''telemetry'' s of
        (s1, ready) \<Rightarrow>
          append_event ev
            (if ready then
               (case db of
                  None \<Rightarrow> s1
                | Some insert_event \<Rightarrow>
                    (case insert_event ev of
                       Some error \<Rightarrow>
                         record_optional_failure now ''telemetry'' error
                           (append_event (step_error_event now ''telemetry_emit_event'' error) s1)
                     | None \<Rightarrow> record_optional_success now ''telemetry'' s1))
             else s1))"

definition record_loop_step_error :: "database \<Rightarrow> times \<Rightarrow> string \<Rightarrow> string \<Rightarrow> 'd loop_state \<Rightarrow> 'd loop_state" where
  "record_loop_step_error db now step error s =
     (let s1 = emit_event db now (step_error_event now step error) s
      in s1\<lparr>lp_tick_errors := lp_tick_errors s1 @ [(step, error)]\<rparr>)"

section \<open>Running one subsystem\<close>

text \<open>The text of a failure.\<close>

fun end_text :: "step_end \<Rightarrow> string option" where
  "end_text Ended = None"
| "end_text (Failed_with error) = Some error"
| "end_text (Panicked message) = Some (''panic: '' @ message)"

definition increment_subsystem_error :: "string \<Rightarrow> 'd loop_state \<Rightarrow> 'd loop_state" where
  "increment_subsystem_error step s =
     s\<lparr>lp_counts := (lp_counts s)(step \<mapsto> (case lp_counts s step of Some n \<Rightarrow> n | None \<Rightarrow> 0) + 1)\<rparr>"

definition run_loop_step :: "database \<Rightarrow> times \<Rightarrow> string \<Rightarrow> 'd subsystem \<Rightarrow> 'd loop_state \<Rightarrow> 'd loop_state" where
  "run_loop_step db now step action s =
     (case action s of (s1, outcome) \<Rightarrow>
        (case end_text outcome of
           None \<Rightarrow> s1
         | Some error \<Rightarrow> record_loop_step_error db now step error s1))"

definition run_recoverable_step :: "database \<Rightarrow> times \<Rightarrow> string \<Rightarrow> 'd subsystem \<Rightarrow> 'd loop_state \<Rightarrow> 'd loop_state" where
  "run_recoverable_step db now step action s =
     (case action s of (s1, outcome) \<Rightarrow>
        (case end_text outcome of
           None \<Rightarrow> s1\<lparr>lp_counts := (lp_counts s1)(step := None)\<rparr>
         | Some error \<Rightarrow> increment_subsystem_error step (record_loop_step_error db now step error s1)))"

definition run_optional_subsystem_step ::
  "database \<Rightarrow> times \<Rightarrow> string \<Rightarrow> string \<Rightarrow> 'd subsystem \<Rightarrow> 'd loop_state \<Rightarrow> 'd loop_state" where
  "run_optional_subsystem_step db now step subsystem action s =
     (case optional_subsystem_ready now subsystem s of
        (s0, False) \<Rightarrow> s0
      | (s0, True) \<Rightarrow>
          (case action s0 of (s1, outcome) \<Rightarrow>
             (case end_text outcome of
                None \<Rightarrow> record_optional_success now subsystem (s1\<lparr>lp_counts := (lp_counts s1)(step := None)\<rparr>)
              | Some error \<Rightarrow>
                  record_optional_failure now subsystem error
                    (increment_subsystem_error step (record_loop_step_error db now step error s1)))))"

section \<open>Keeping the budget over a restart\<close>

definition snapshot_backoff :: "'d loop_state \<Rightarrow> (string \<times> nat) list" where
  "snapshot_backoff s =
     List.map_filter (\<lambda>subsystem. map_option (Pair subsystem) (lp_counts s (backoff_key subsystem)))
       optional_subsystem_names"

definition snapshot_disabled_remaining :: "times \<Rightarrow> 'd loop_state \<Rightarrow> (string \<times> nat) list" where
  "snapshot_disabled_remaining now s =
     List.map_filter (\<lambda>subsystem.
       case lp_cooldowns s (disable_key subsystem) of
         None \<Rightarrow> None
       | Some deadline \<Rightarrow> if tm_instant now \<le> deadline then Some (subsystem, deadline - tm_instant now) else None)
       optional_subsystem_names"

definition restore_budget ::
  "times \<Rightarrow> (string \<times> nat) list \<Rightarrow> (string \<times> nat) list \<Rightarrow> 'd loop_state \<Rightarrow> 'd loop_state" where
  "restore_budget now backoff disabled_remaining s =
     s\<lparr> lp_counts := fold (\<lambda>(subsystem, value) m. m(backoff_key subsystem \<mapsto> value)) backoff (lp_counts s),
        lp_cooldowns := fold (\<lambda>(subsystem, remaining) m. m(disable_key subsystem \<mapsto> tm_instant now + remaining))
          disabled_remaining (lp_cooldowns s) \<rparr>"

section \<open>One iteration of the loop\<close>

datatype step_kind = Critical | Recoverable | Optional string

definition tick_steps :: "(string \<times> step_kind) list" where
  "tick_steps =
    [(''poll_shim_handles'', Recoverable), (''shim_health_check'', Recoverable),
     (''check_working_state_timeouts'', Recoverable), (''check_narration_loops'', Recoverable),
     (''sync_launch_state_session_ids'', Recoverable), (''drain_legacy_command_queue'', Recoverable),
     (''deliver_inbox_messages'', Critical), (''retry_failed_deliveries'', Critical),
     (''expire_stale_pending_messages'', Recoverable), (''maybe_sweep_tiered_inboxes'', Recoverable),
     (''check_github_verification_feedback'', Recoverable),
     (''maybe_intervene_triage_backlog'', Recoverable), (''maybe_intervene_owned_tasks'', Recoverable),
     (''maybe_intervene_review_backlog'', Recoverable), (''maybe_escalate_stale_reviews'', Recoverable),
     (''maybe_emit_task_aging_alerts'', Recoverable), (''record_review_queue_snapshot'', Recoverable),
     (''maybe_auto_unblock_blocked_tasks'', Recoverable), (''process_merge_queue'', Recoverable),
     (''maybe_refresh_stale_daemon_binary'', Recoverable), (''reconcile_active_tasks'', Critical),
     (''maybe_manage_task_claim_ttls'', Critical), (''maybe_run_main_smoke'', Recoverable),
     (''maybe_auto_dispatch'', Critical), (''maybe_recycle_cron_tasks'', Recoverable),
     (''maybe_intervene_manager_dispatch_gap'', Recoverable),
     (''maybe_intervene_architect_utilization'', Recoverable),
     (''maybe_intervene_board_replenishment'', Recoverable),
     (''maybe_detect_pipeline_starvation'', Recoverable), (''tact_check'', Recoverable),
     (''process_discord_queue'', Optional ''discord''),
     (''process_telegram_queue'', Optional ''telegram''), (''maybe_fire_nudges'', Recoverable),
     (''check_backend_health'', Recoverable), (''maybe_check_binary_freshness'', Recoverable),
     (''maybe_reconcile_stale_worktrees'', Recoverable), (''check_worktree_staleness'', Recoverable),
     (''maybe_warn_uncommitted_work'', Recoverable),
     (''maybe_cleanup_shared_cargo_target'', Recoverable), (''maybe_run_disk_hygiene'', Recoverable),
     (''record_parity_snapshot'', Recoverable), (''maybe_generate_standup'', Optional ''standup''),
     (''maybe_rotate_board'', Recoverable), (''maybe_auto_archive'', Recoverable),
     (''run_auto_doctor'', Recoverable), (''maybe_generate_retrospective'', Recoverable),
     (''maybe_notify_failure_patterns'', Recoverable)]"

fun run_step :: "database \<Rightarrow> times \<Rightarrow> string \<Rightarrow> step_kind \<Rightarrow> 'd subsystem \<Rightarrow> 'd loop_state \<Rightarrow> 'd loop_state" where
  "run_step db now step Critical action = run_loop_step db now step action"
| "run_step db now step Recoverable action = run_recoverable_step db now step action"
| "run_step db now step (Optional subsystem) action = run_optional_subsystem_step db now step subsystem action"

definition run_steps ::
  "database \<Rightarrow> (string \<Rightarrow> times) \<Rightarrow> (string \<Rightarrow> 'd subsystem) \<Rightarrow> (string \<times> step_kind) list
     \<Rightarrow> 'd loop_state \<Rightarrow> 'd loop_state" where
  "run_steps db clock action steps s =
     fold (\<lambda>(step, kind). run_step db (clock step) step kind (action step)) steps s"

record tick_report =
  tr_cycle :: nat
  tr_errors :: "(string \<times> string) list"

definition report_ok :: "tick_report \<Rightarrow> bool" where
  "report_ok r = (tr_errors r = [])"

text \<open>The labels of the panes, which are drawn at the end, change nothing in the daemon.\<close>

definition tick ::
  "database \<Rightarrow> (string \<Rightarrow> times) \<Rightarrow> (string \<Rightarrow> 'd subsystem) \<Rightarrow> 'd loop_state \<Rightarrow> 'd loop_state \<times> tick_report" where
  "tick db clock action s =
     (let s1 = run_steps db clock action tick_steps
                 (s\<lparr>lp_tick_errors := [], lp_cycle := min (lp_cycle s + 1) (2 ^ 64 - 1)\<rparr>)
      in (s1\<lparr>lp_tick_errors := []\<rparr>, \<lparr> tr_cycle = lp_cycle s1, tr_errors = lp_tick_errors s1 \<rparr>))"

section \<open>Lemmas: what the bookkeeping leaves alone\<close>

definition same_work :: "'d loop_state \<Rightarrow> 'd loop_state \<Rightarrow> bool" where
  "same_work s t \<longleftrightarrow> lp_rest t = lp_rest s \<and> lp_cycle t = lp_cycle s \<and> lp_tick_errors t = lp_tick_errors s"

lemma same_work_refl [simp]: "same_work s s"
  by (simp add: same_work_def)

lemma same_work_trans: "same_work s t \<Longrightarrow> same_work t u \<Longrightarrow> same_work s u"
  by (simp add: same_work_def)

lemma same_work_simps [simp]:
  "same_work s (record_orchestrator_action a t) = same_work s t"
  "same_work s (t\<lparr>lp_counts := c\<rparr>) = same_work s t"
  "same_work s (t\<lparr>lp_cooldowns := m\<rparr>) = same_work s t"
  "same_work s (append_event ev t) = same_work s t"
  "same_work s (record_optional_success now sub t) = same_work s t"
  "same_work s (record_optional_failure now sub error t) = same_work s t"
  "same_work s (increment_subsystem_error step t) = same_work s t"
  by (simp_all add: same_work_def record_orchestrator_action_def append_event_def record_optional_success_def
      record_optional_failure_def increment_subsystem_error_def Let_def)

lemma ready_same_work: "same_work s (fst (optional_subsystem_ready now sub s))"
  by (simp add: optional_subsystem_ready_def split: option.split)

lemma emit_event_same_work: "same_work s (emit_event db now ev s)"
  using ready_same_work [of s now "''telemetry''"]
  by (auto simp: emit_event_def split: prod.split option.split)

lemma step_error_work:
  "lp_rest (record_loop_step_error db now step error s) = lp_rest s"
  "lp_cycle (record_loop_step_error db now step error s) = lp_cycle s"
  "lp_tick_errors (record_loop_step_error db now step error s) = lp_tick_errors s @ [(step, error)]"
  using emit_event_same_work [of s db now "step_error_event now step error"]
  by (simp_all add: record_loop_step_error_def Let_def same_work_def)

text \<open>What one step does with the subsystem: it runs it unless it is switched off, and a failure is added to the
  errors of the tick.\<close>

definition switched_off :: "times \<Rightarrow> step_kind \<Rightarrow> 'd loop_state \<Rightarrow> bool" where
  "switched_off now kind s =
     (case kind of Optional subsystem \<Rightarrow> \<not> snd (optional_subsystem_ready now subsystem s) | _ \<Rightarrow> False)"

lemma run_step_cases [consumes 0, case_names off run]:
  obtains "switched_off now kind s" "run_step db now step kind action s = s"
  | s0 s1 outcome where "\<not> switched_off now kind s" "same_work s s0" "action s0 = (s1, outcome)"
      "lp_rest (run_step db now step kind action s) = lp_rest s1"
      "lp_cycle (run_step db now step kind action s) = lp_cycle s1"
      "lp_tick_errors (run_step db now step kind action s)
        = lp_tick_errors s1 @ (case end_text outcome of None \<Rightarrow> [] | Some e \<Rightarrow> [(step, e)])"
proof (cases kind)
  case Critical
  obtain s1 outcome where a: "action s = (s1, outcome)" by (cases "action s")
  show ?thesis
    by (rule that(2) [of s s1 outcome])
      (auto simp: Critical a switched_off_def run_loop_step_def step_error_work split: option.split)
next
  case Recoverable
  obtain s1 outcome where a: "action s = (s1, outcome)" by (cases "action s")
  show ?thesis
    by (rule that(2) [of s s1 outcome])
      (auto simp: Recoverable a switched_off_def run_recoverable_step_def step_error_work increment_subsystem_error_def
        split: option.split)
next
  case (Optional sub)
  obtain s0 ready where r: "optional_subsystem_ready now sub s = (s0, ready)"
    by (cases "optional_subsystem_ready now sub s")
  show ?thesis
  proof (cases ready)
    case False
    then have "s0 = s" using r by (auto simp: optional_subsystem_ready_def split: option.splits if_splits)
    with False r Optional show ?thesis
      by (intro that(1)) (simp_all add: switched_off_def run_optional_subsystem_step_def)
  next
    case True
    obtain s1 outcome where a: "action s0 = (s1, outcome)" by (cases "action s0")
    have w: "same_work s s0" using ready_same_work [of s now sub] r by simp
    let ?t = "run_step db now step kind action s"
    have "same_work (case end_text outcome of None \<Rightarrow> s1 | Some e \<Rightarrow> record_loop_step_error db now step e s1) ?t"
      using True r a by (auto simp: Optional run_optional_subsystem_step_def split: option.split)
    then show ?thesis
      using True r a w Optional
      by (intro that(2) [of s0 s1 outcome])
        (auto simp: switched_off_def same_work_def step_error_work split: option.splits)
  qed
qed

section \<open>Lemmas: a tick with subsystems that write down how they end\<close>

text \<open>A step that ran: its name, the errors the subsystem itself reported while it ran, how it ended.\<close>

type_synonym step_record = "string \<times> (string \<times> string) list \<times> step_end"
type_synonym 'w recorded = "'w \<times> step_record list"

definition recording :: "(string \<Rightarrow> 'w recorded subsystem) \<Rightarrow> string \<Rightarrow> 'w recorded subsystem" where
  "recording action step s =
     (case action step s of (s1, outcome) \<Rightarrow>
        (s1\<lparr>lp_rest := (fst (lp_rest s1), snd (lp_rest s) @
            [(step, drop (length (lp_tick_errors s)) (lp_tick_errors s1), outcome)])\<rparr>, outcome))"

text \<open>A subsystem may report errors of its own, as \<open>process_discord_queue\<close> does
  (\<open>src/team/discord_bridge.rs\<close>), and end well or not: nothing but \<open>record_loop_step_error\<close> writes
  the list of errors in the course of a tick, and that appends to it.\<close>

definition adds_to_tick :: "(string \<Rightarrow> 'd subsystem) \<Rightarrow> bool" where
  "adds_to_tick action \<longleftrightarrow>
     (\<forall>step s. prefix (lp_tick_errors s) (lp_tick_errors (fst (action step s)))
        \<and> lp_cycle (fst (action step s)) = lp_cycle s)"

definition step_report :: "step_record \<Rightarrow> (string \<times> string) list" where
  "step_report = (\<lambda>(step, own, outcome).
     own @ (case end_text outcome of None \<Rightarrow> [] | Some e \<Rightarrow> [(step, e)]))"

definition reported :: "step_record list \<Rightarrow> (string \<times> string) list" where
  "reported log' = concat (map step_report log')"

lemma reported_simps [simp]:
  "reported [] = []" "reported (r # rs) = step_report r @ reported rs"
  "reported (xs @ ys) = reported xs @ reported ys"
  by (simp_all add: reported_def)

definition required :: "(string \<times> step_kind) list \<Rightarrow> string list" where
  "required steps = map fst (filter (\<lambda>(_, kind). kind = Critical \<or> kind = Recoverable) steps)"

lemma run_recorded_step:
  assumes "adds_to_tick action"
  shows "\<exists>rs. snd (lp_rest (run_step db now step kind (recording action step) s)) = snd (lp_rest s) @ rs
    \<and> lp_cycle (run_step db now step kind (recording action step) s) = lp_cycle s
    \<and> lp_tick_errors (run_step db now step kind (recording action step) s) = lp_tick_errors s @ reported rs
    \<and> (rs = [] \<and> switched_off now kind s \<or> (\<exists>r. rs = [(step, r)]) \<and> \<not> switched_off now kind s)"
proof (cases rule: run_step_cases [of now kind s db step "recording action step"])
  case off
  then show ?thesis by (intro exI [of _ "[]"]) simp
next
  case (run s0 s1 outcome)
  obtain s2 where s2: "action step s0 = (s2, outcome)"
    "s1 = s2\<lparr>lp_rest := (fst (lp_rest s2), snd (lp_rest s0) @
       [(step, drop (length (lp_tick_errors s0)) (lp_tick_errors s2), outcome)])\<rparr>"
    using run(3) by (auto simp: recording_def split: prod.splits)
  have grown: "prefix (lp_tick_errors s0) (lp_tick_errors s2)" "lp_cycle s2 = lp_cycle s0"
    using assms s2(1) unfolding adds_to_tick_def by (metis fst_conv)+
  then obtain own where "lp_tick_errors s2 = lp_tick_errors s0 @ own" by (auto elim: prefixE)
  with run s2(2) grown(2) show ?thesis
    by (intro exI [of _ "[(step, own, outcome)]"]) (simp add: same_work_def step_report_def)
qed

lemma run_recorded_steps:
  assumes "adds_to_tick action"
  shows "\<exists>rs. snd (lp_rest (run_steps db clock (recording action) steps s)) = snd (lp_rest s) @ rs
    \<and> lp_cycle (run_steps db clock (recording action) steps s) = lp_cycle s
    \<and> lp_tick_errors (run_steps db clock (recording action) steps s) = lp_tick_errors s @ reported rs
    \<and> subseq (map fst rs) (map fst steps) \<and> subseq (required steps) (map fst rs)"
proof (induction steps arbitrary: s)
  case Nil
  then show ?case by (intro exI [of _ "[]"]) (simp add: run_steps_def required_def)
next
  case (Cons st steps)
  obtain step kind where st: "st = (step, kind)" by fastforce
  let ?s = "run_step db (clock step) step kind (recording action step) s"
  from run_recorded_step [OF assms, of db "clock step" step kind s] obtain L1 where
    1: "snd (lp_rest ?s) = snd (lp_rest s) @ L1" "lp_cycle ?s = lp_cycle s"
      "lp_tick_errors ?s = lp_tick_errors s @ reported L1"
      "L1 = [] \<and> switched_off (clock step) kind s \<or> (\<exists>r. L1 = [(step, r)])" by blast
  from Cons.IH [of ?s] obtain L2 where
    2: "snd (lp_rest (run_steps db clock (recording action) steps ?s)) = snd (lp_rest ?s) @ L2"
      "lp_cycle (run_steps db clock (recording action) steps ?s) = lp_cycle ?s"
      "lp_tick_errors (run_steps db clock (recording action) steps ?s) = lp_tick_errors ?s @ reported L2"
      "subseq (map fst L2) (map fst steps)" "subseq (required steps) (map fst L2)" by blast
  have run: "run_steps db clock (recording action) (st # steps) s = run_steps db clock (recording action) steps ?s"
    by (simp add: run_steps_def st)
  have sub: "subseq (map fst (L1 @ L2)) (map fst (st # steps))" using 1(4) 2(4) by (auto simp: st)
  have req: "subseq (required (st # steps)) (map fst (L1 @ L2))"
    using 1(4) 2(5) by (cases kind) (auto simp: st required_def switched_off_def)
  from 1 2 sub req show ?case unfolding run by (intro exI [of _ "L1 @ L2"]) simp
qed

section \<open>Lemmas: the budget\<close>

lemma key_inj [simp]:
  "backoff_key a = backoff_key b \<longleftrightarrow> a = b" "disable_key a = disable_key b \<longleftrightarrow> a = b"
  by (simp_all add: backoff_key_def disable_key_def)

lemma backoff_index_bound: "backoff_index sub s \<le> 2"
  by (simp add: backoff_index_def backoff_secs_def)

lemma backoff_of_index: "i \<le> 2 \<Longrightarrow> backoff_secs ! i \<in> {60, 300, 1800}"
  by (auto simp: backoff_secs_def numeral_2_eq_2 le_Suc_eq)

lemma failure_disables:
  "record_optional_failure now sub error s =
     (if error_budget < recent_error_count now sub s \<and> lp_cooldowns s (disable_key sub) = None
      then record_orchestrator_action
             (''health: disabled optional subsystem '' @ sub @ '' after '' @ show_nat (recent_error_count now sub s)
              @ '' errors in 10m; retry in '' @ show_nat (backoff_secs ! backoff_index sub s) @ ''s ('' @ error @ '')'')
             (s\<lparr> lp_cooldowns := (lp_cooldowns s)(disable_key sub \<mapsto> tm_instant now + backoff_secs ! backoff_index sub s),
                 lp_counts := (lp_counts s)(backoff_key sub \<mapsto> min (backoff_index sub s + 1) (length backoff_secs - 1)) \<rparr>)
      else s)"
  by (auto simp: record_optional_failure_def Let_def)

section \<open>Properties\<close>

text \<open>
  C7. A failure of one subsystem never costs another its turn: in a tick, whatever the subsystems end in, every critical and
  recoverable one runs, in the order of the loop and once; an optional one runs at most once, at
  its place; and the report of the tick lists, step by step in the order in which they ran, the errors a
  subsystem recorded itself and then its failure or panic, nothing lost and nothing added. (A subsystem adds to the
  errors of the tick at most and does not touch the count of ticks, as all of them do.)
\<close>

theorem tick_isolates_failures:
  assumes "adds_to_tick action"
  shows "\<exists>rs. snd (lp_rest (fst (tick db clock (recording action) s))) = snd (lp_rest s) @ rs
    \<and> subseq (map fst rs) (map fst tick_steps) \<and> subseq (required tick_steps) (map fst rs)
    \<and> tr_errors (snd (tick db clock (recording action) s))
        = concat (map (\<lambda>(step, own, outcome).
            own @ (case end_text outcome of None \<Rightarrow> [] | Some e \<Rightarrow> [(step, e)])) rs)
    \<and> tr_cycle (snd (tick db clock (recording action) s)) = min (lp_cycle s + 1) (2 ^ 64 - 1)"
proof -
  let ?s = "s\<lparr>lp_tick_errors := [], lp_cycle := min (lp_cycle s + 1) (2 ^ 64 - 1)\<rparr>"
  from run_recorded_steps [OF assms, of db clock tick_steps ?s] obtain rs where
    "snd (lp_rest (run_steps db clock (recording action) tick_steps ?s)) = snd (lp_rest s) @ rs"
    "lp_cycle (run_steps db clock (recording action) tick_steps ?s) = min (lp_cycle s + 1) (2 ^ 64 - 1)"
    "lp_tick_errors (run_steps db clock (recording action) tick_steps ?s) = reported rs"
    "subseq (map fst rs) (map fst tick_steps)" "subseq (required tick_steps) (map fst rs)" by auto
  then show ?thesis
    by (intro exI [of _ rs]) (simp add: tick_def Let_def reported_def step_report_def)
qed

text \<open>A loop that has just started, a merge queue that panics, and a Discord queue that reports a fault
  and ends well.\<close>

definition fresh_loop :: "'d \<Rightarrow> 'd loop_state" where
  "fresh_loop d = \<lparr> lp_counts = Map.empty, lp_cooldowns = Map.empty, lp_events = [], lp_actions = [],
     lp_orchestrator = True, lp_tick_errors = [], lp_cycle = 0, lp_rest = d \<rparr>"

definition panicking :: "string \<Rightarrow> unit recorded subsystem" where
  "panicking step s =
     (if step = ''process_discord_queue''
      then (record_loop_step_error None \<lparr> tm_instant = 7, tm_unix = 9 \<rparr> step ''no intent'' s, Ended)
      else (s, if step = ''process_merge_queue'' then Panicked ''no lock'' else Ended))"

lemma panicking_adds: "adds_to_tick panicking"
  by (auto simp: adds_to_tick_def panicking_def step_error_work)

theorem tick_isolates_failures_witness:
  "\<exists>rs. snd (lp_rest (fst (tick None (\<lambda>_. \<lparr> tm_instant = 7, tm_unix = 9 \<rparr>) (recording panicking) (fresh_loop ((), []))))) = rs
     \<and> subseq (required tick_steps) (map fst rs)
     \<and> tr_errors (snd (tick None (\<lambda>_. \<lparr> tm_instant = 7, tm_unix = 9 \<rparr>) (recording panicking) (fresh_loop ((), []))))
       = reported rs"
proof -
  from tick_isolates_failures [OF panicking_adds, of None "\<lambda>_. \<lparr> tm_instant = 7, tm_unix = 9 \<rparr>" "fresh_loop ((), [])"]
  show ?thesis by (auto simp: fresh_loop_def reported_def step_report_def)
qed

definition same_budget :: "string \<Rightarrow> 'd loop_state \<Rightarrow> 'd loop_state \<Rightarrow> bool" where
  "same_budget sub s t \<longleftrightarrow>
     lp_cooldowns t (disable_key sub) = lp_cooldowns s (disable_key sub)
     \<and> lp_counts t (backoff_key sub) = lp_counts s (backoff_key sub)"

lemma same_budget_simps [simp]:
  "same_budget sub s s"
  "same_budget sub s (append_event ev t) = same_budget sub s t"
  "same_budget sub s (record_orchestrator_action a t) = same_budget sub s t"
  "sub \<noteq> other \<Longrightarrow> same_budget sub s (record_optional_success now other t) = same_budget sub s t"
  "sub \<noteq> other \<Longrightarrow> same_budget sub s (record_optional_failure now other e t) = same_budget sub s t"
  by (simp_all add: same_budget_def append_event_def record_orchestrator_action_def record_optional_success_def
      failure_disables)

lemma ready_same_budget: "sub \<noteq> other \<Longrightarrow> same_budget sub s (fst (optional_subsystem_ready now other s))"
  by (simp add: optional_subsystem_ready_def same_budget_def record_orchestrator_action_def split: option.split)

lemma emit_event_other_keys:
  assumes "sub \<noteq> ''telemetry''"
  shows "same_budget sub s (emit_event db now ev s)"
proof -
  obtain s1 ready where r: "optional_subsystem_ready now ''telemetry'' s = (s1, ready)"
    by (cases "optional_subsystem_ready now ''telemetry'' s")
  then have "same_budget sub s s1" using ready_same_budget [OF assms, of s now] by simp
  with assms r show ?thesis by (simp add: emit_event_def split: option.split)
qed

lemma step_error_other_keys:
  assumes "sub \<noteq> ''telemetry''"
  shows "lp_cooldowns (record_loop_step_error db now step e s) (disable_key sub) = lp_cooldowns s (disable_key sub)"
    and "lp_counts (record_loop_step_error db now step e s) (backoff_key sub) = lp_counts s (backoff_key sub)"
  using emit_event_other_keys [OF assms, of s db now "step_error_event now step e"]
  by (simp_all add: record_loop_step_error_def Let_def same_budget_def)

definition leaves_budget_alone :: "string \<Rightarrow> 'd subsystem \<Rightarrow> bool" where
  "leaves_budget_alone subsystem action \<longleftrightarrow>
     (\<forall>s. lp_cooldowns (fst (action s)) (disable_key subsystem) = lp_cooldowns s (disable_key subsystem))"

text \<open>The step of a subsystem with a step of its own: Discord, Telegram and the standup.\<close>

lemma step_switches_off:
  assumes "leaves_budget_alone subsystem action" and "subsystem \<noteq> ''telemetry''"
    and "lp_cooldowns (run_optional_subsystem_step db now step subsystem action s) (disable_key subsystem) = Some deadline"
  shows "(run_optional_subsystem_step db now step subsystem action s = s \<and> tm_instant now < deadline)
    \<or> (end_text (snd (action (fst (optional_subsystem_ready now subsystem s)))) \<noteq> None
        \<and> error_budget < recent_error_count now subsystem (run_optional_subsystem_step db now step subsystem action s)
        \<and> deadline - tm_instant now \<in> {60, 300, 1800} \<and> tm_instant now < deadline)"
proof (cases "snd (optional_subsystem_ready now subsystem s)")
  case False
  then show ?thesis
    using assms(3) by (auto simp: run_optional_subsystem_step_def optional_subsystem_ready_def split: option.splits if_splits)
next
  case True
  then obtain s0 where s0: "optional_subsystem_ready now subsystem s = (s0, True)"
    by (cases "optional_subsystem_ready now subsystem s") auto
  then have off: "lp_cooldowns s0 (disable_key subsystem) = None"
    by (auto simp: optional_subsystem_ready_def record_orchestrator_action_def split: option.splits if_splits)
  obtain s1 outcome where a: "action s0 = (s1, outcome)" by (cases "action s0")
  have s1: "lp_cooldowns s1 (disable_key subsystem) = None"
    using assms(1) a off unfolding leaves_budget_alone_def by (metis fst_conv)
  have run: "run_optional_subsystem_step db now step subsystem action s =
     (case end_text outcome of
        None \<Rightarrow> record_optional_success now subsystem (s1\<lparr>lp_counts := (lp_counts s1)(step := None)\<rparr>)
      | Some error \<Rightarrow> record_optional_failure now subsystem error
          (increment_subsystem_error step (record_loop_step_error db now step error s1)))"
    by (simp add: run_optional_subsystem_step_def s0 a)
  show ?thesis
  proof (cases "end_text outcome")
    case None
    then show ?thesis using assms(3) s1 by (simp add: run record_optional_success_def split: if_splits)
  next
    case (Some error)
    let ?t = "increment_subsystem_error step (record_loop_step_error db now step error s1)"
    have t: "lp_cooldowns ?t (disable_key subsystem) = None"
      using s1 step_error_other_keys(1) [OF assms(2), of db now step error s1]
      by (simp add: increment_subsystem_error_def)
    from assms(3) Some t have many: "error_budget < recent_error_count now subsystem ?t"
      and deadline: "deadline = tm_instant now + backoff_secs ! backoff_index subsystem ?t"
      by (auto simp: run failure_disables record_orchestrator_action_def split: if_splits)
    have "recent_error_count now subsystem (run_optional_subsystem_step db now step subsystem action s)
        = recent_error_count now subsystem ?t"
      by (simp add: run Some failure_disables record_orchestrator_action_def recent_error_count_def)
    moreover have "backoff_secs ! backoff_index subsystem ?t \<in> {60, 300, 1800}"
      by (intro backoff_of_index backoff_index_bound)
    moreover have "end_text (snd (action (fst (optional_subsystem_ready now subsystem s)))) \<noteq> None"
      using a Some s0 by simp
    ultimately show ?thesis using many deadline by auto
  qed
qed

text \<open>Telemetry has no step: it is tried with every event.\<close>

lemma event_switches_off:
  assumes "lp_cooldowns (emit_event db now ev s) (disable_key ''telemetry'') = Some deadline"
  shows "(emit_event db now ev s = append_event ev s \<and> tm_instant now < deadline)
    \<or> (\<exists>insert_event error. db = Some insert_event \<and> insert_event ev = Some error
        \<and> error_budget < recent_error_count now ''telemetry''
            (append_event (step_error_event now ''telemetry_emit_event'' error) s)
        \<and> deadline - tm_instant now \<in> {60, 300, 1800} \<and> tm_instant now < deadline)"
proof (cases "snd (optional_subsystem_ready now ''telemetry'' s)")
  case False
  then have r: "optional_subsystem_ready now ''telemetry'' s = (s, False)"
    and d: "\<exists>x. lp_cooldowns s (disable_key ''telemetry'') = Some x \<and> tm_instant now < x"
    by (auto simp: optional_subsystem_ready_def split: option.splits if_splits)
  from r have "emit_event db now ev s = append_event ev s" by (simp add: emit_event_def)
  with assms d show ?thesis by (auto simp: append_event_def)
next
  case True
  then obtain s1 where r: "optional_subsystem_ready now ''telemetry'' s = (s1, True)"
    by (cases "optional_subsystem_ready now ''telemetry'' s") auto
  then have off: "lp_cooldowns s1 (disable_key ''telemetry'') = None" and ev: "lp_events s1 = lp_events s"
    by (auto simp: optional_subsystem_ready_def record_orchestrator_action_def split: option.splits if_splits)
  obtain ins error where db: "db = Some ins" "ins ev = Some error"
    using assms r off
    by (auto simp: emit_event_def append_event_def record_optional_success_def split: option.splits if_splits)
  let ?t = "append_event (step_error_event now ''telemetry_emit_event'' error) s1"
  have e: "emit_event db now ev s = append_event ev (record_optional_failure now ''telemetry'' error ?t)"
    by (simp add: emit_event_def r db)
  have t: "lp_cooldowns ?t (disable_key ''telemetry'') = None" using off by (simp add: append_event_def)
  from assms [unfolded e] t have many: "error_budget < recent_error_count now ''telemetry'' ?t"
    and deadline: "deadline = tm_instant now + backoff_secs ! backoff_index ''telemetry'' ?t"
    by (auto simp: failure_disables record_orchestrator_action_def append_event_def split: if_splits)
  have "recent_error_count now ''telemetry'' ?t = recent_error_count now ''telemetry''
      (append_event (step_error_event now ''telemetry_emit_event'' error) s)"
    by (simp add: recent_error_count_def append_event_def ev)
  with many have "error_budget < recent_error_count now ''telemetry''
      (append_event (step_error_event now ''telemetry_emit_event'' error) s)" by simp
  moreover have "backoff_secs ! backoff_index ''telemetry'' ?t \<in> {60, 300, 1800}"
    by (intro backoff_of_index backoff_index_bound)
  ultimately show ?thesis using deadline db by auto
qed

text \<open>
  C25. What leaves an optional subsystem switched off. A subsystem with a step of its own (Discord, Telegram, the standup) is off
  after its step only if it was off before, and then the step did nothing at all, or because the step has just
  failed with more than five errors of the subsystem logged in ten minutes; then it is off for one, five or thirty
  minutes. The telemetry database, which is tried with every event, is off after an event only if it was off before, and
  then the event went to the log alone, or because the insertion has just failed under the same
  condition. No event and no step error changes the budget of any subsystem but telemetry.
\<close>

theorem subsystem_switched_off:
  assumes "leaves_budget_alone subsystem action" and "subsystem \<noteq> ''telemetry''"
  shows "(case lp_cooldowns (run_optional_subsystem_step db now step subsystem action s) (disable_key subsystem) of
        None \<Rightarrow> True
      | Some deadline \<Rightarrow> tm_instant now < deadline
          \<and> (run_optional_subsystem_step db now step subsystem action s = s
             \<or> (end_text (snd (action (fst (optional_subsystem_ready now subsystem s)))) \<noteq> None
                \<and> error_budget < recent_error_count now subsystem (run_optional_subsystem_step db now step subsystem action s)
                \<and> deadline - tm_instant now \<in> {60, 300, 1800})))
    \<and> (case lp_cooldowns (emit_event db now ev s) (disable_key ''telemetry'') of
        None \<Rightarrow> True
      | Some deadline \<Rightarrow> tm_instant now < deadline
          \<and> (emit_event db now ev s = append_event ev s
             \<or> (\<exists>insert_event error. db = Some insert_event \<and> insert_event ev = Some error
                \<and> error_budget < recent_error_count now ''telemetry''
                    (append_event (step_error_event now ''telemetry_emit_event'' error) s)
                \<and> deadline - tm_instant now \<in> {60, 300, 1800})))
    \<and> same_budget subsystem s (emit_event db now ev s)
    \<and> same_budget subsystem s (record_loop_step_error db now step' error' s)"
proof -
  have "same_budget subsystem s (record_loop_step_error db now step' error' s)"
    using step_error_other_keys [OF assms(2), of db now step' error' s] by (simp add: same_budget_def)
  then show ?thesis
    using step_switches_off [OF assms, of db now step s] event_switches_off [of db now ev s]
      emit_event_other_keys [OF assms(2), of s db now ev]
    by (auto split: option.split)
qed

text \<open>The sixth failure of the standup within ten minutes, the earlier ones having been logged.\<close>

definition failing_standup :: "unit subsystem" where
  "failing_standup s = (s, Failed_with ''no board'')"

definition five_failures :: "unit loop_state" where
  "five_failures = (fresh_loop ())\<lparr>lp_events := replicate 5
     (step_error_event \<lparr> tm_instant = 2, tm_unix = 3 \<rparr> ''maybe_generate_standup'' ''no board'')\<rparr>"

lemma sixth_failure:
  "lp_cooldowns (run_optional_subsystem_step None \<lparr> tm_instant = 7, tm_unix = 9 \<rparr> ''maybe_generate_standup'' ''standup''
     failing_standup five_failures) (disable_key ''standup'') = Some 67"
  by code_simp

theorem subsystem_switched_off_witness:
  "error_budget < recent_error_count \<lparr> tm_instant = 7, tm_unix = 9 \<rparr> ''standup''
     (run_optional_subsystem_step None \<lparr> tm_instant = 7, tm_unix = 9 \<rparr> ''maybe_generate_standup'' ''standup''
       failing_standup five_failures) \<and> 67 - 7 \<in> {60, 300, 1800 :: nat}"
proof -
  let ?now = "\<lparr> tm_instant = 7, tm_unix = 9 \<rparr>"
  let ?t = "run_optional_subsystem_step None ?now ''maybe_generate_standup'' ''standup'' failing_standup five_failures"
  have "leaves_budget_alone ''standup'' failing_standup" by (simp add: leaves_budget_alone_def failing_standup_def)
  moreover have "''standup'' \<noteq> ''telemetry''" by simp
  moreover have "lp_cooldowns five_failures (disable_key ''standup'') = None"
    by (simp add: five_failures_def fresh_loop_def)
  then have "?t \<noteq> five_failures" using sixth_failure by auto
  ultimately show ?thesis
    using subsystem_switched_off [where subsystem = "''standup''" and action = failing_standup and db = None
        and now = ?now and step = "''maybe_generate_standup''" and s = five_failures]
      sixth_failure by simp
qed

text \<open>Time alone brings a subsystem back.\<close>

lemma ready_after_deadline:
  "lp_cooldowns s (disable_key sub) = Some deadline \<Longrightarrow> deadline \<le> tm_instant later
   \<Longrightarrow> snd (optional_subsystem_ready later sub s)"
  by (simp add: optional_subsystem_ready_def)

text \<open>No step counts against grafana, so its budget is never used up.\<close>

lemma grafana_uncounted: "recent_error_count now ''grafana'' s = 0"
proof -
  have "optional_subsystem_for_step step \<noteq> Some ''grafana''" for step by (simp add: optional_subsystem_for_step_def)
  then have "Option.bind (ev_step ev) optional_subsystem_for_step \<noteq> Some ''grafana''" for ev :: team_event
    by (cases "ev_step ev") auto
  then show ?thesis by (simp add: recent_error_count_def Let_def)
qed

end
