(* ===== verification/Spec2Isabelle.thy ===== *)
theory Spec2Isabelle
  imports Workflow Task_Model Board_Metadata Task_Cmd Deps Hierarchy Capability Resolver Nudge Cooldown Dispatch_Select Allocation Overlap Dispatcher Dispatch_Process
    Merge_Queue Retry Auto_Merge Error_Budget
begin

text \<open>
  Batty runs teams of coding agents.  A daemon keeps a board of tasks, one Markdown file with YAML
  front matter each, hands open tasks to idle engineers, watches over the agents' sessions and
  merges what they finish.  This library models the decisions of the daemon and the data they are
  taken on; terminals, git worktrees, the agents themselves, chat bridges and the command line are its
  surroundings.

  \<^bold>\<open>The parts and how they interact.\<close>

  \<^item> The board.  \<open>Task_Model\<close> is \<open>src/task/mod.rs\<close>: splitting and rendering a file, the fields that are
    deserialised into a \<open>task\<close>, the repair of legacy front matter that every read performs and writes
    back, the directory and the search by id.  \<open>Board_Metadata\<close> is the workflow metadata in the same front matter
    (\<open>board.rs\<close>, \<open>test_results.rs\<close>).  \<open>Workflow\<close> is the table of legal moves (\<open>workflow.rs\<close>, \<open>review.rs\<close>).
    \<open>Task_Cmd\<close> is \<open>task_cmd.rs\<close>: every command is a function from the board (files, activity log,
    inboxes) to the board it leaves and a result, so that an error after a write shows in the state.
  \<^item> The team.  \<open>Team_Config\<close> is the configuration with its two validators (\<open>config/\<close>), \<open>Hierarchy\<close> the
    member instances and whom they report to (\<open>hierarchy.rs\<close>), \<open>Capability\<close> who may do what
    (\<open>capability.rs\<close>), \<open>Policy\<close> the limits on work in progress and ages (\<open>policy.rs\<close>).
  \<^item> What is to be done.  \<open>Deps\<close> is the dependency graph (\<open>deps.rs\<close>), \<open>Resolver\<close> the state of every task
    on the loaded board and why it cannot be dispatched (\<open>resolver.rs\<close>), \<open>Nudge\<close> whom to remind
    (\<open>nudge.rs\<close>), \<open>Body_Refs\<close> what the prose of a task says about owners and dependencies
    (\<open>dispatch/queue.rs\<close>).
  \<^item> Who does it.  \<open>Dispatch_Select\<close> are the tasks available for dispatch and the guard against cycles of
    overlap dependencies, \<open>Overlap\<close> the files two tasks would both touch, \<open>Allocation\<close> the ranking of engineers by
    past work (\<open>allocation.rs\<close>), \<open>Cooldown\<close> the windows after rescues and releases (\<open>daemon.rs\<close>),
    \<open>Dispatcher\<close> the loop that fills the dispatch queue, and \<open>Dispatch_Process\<close> the one that drains it
    (\<open>dispatch/\<close>): it reads the board of \<open>Task_Cmd\<close> again, changes it with its commands, and launches.
  \<^item> What becomes of the result.  \<open>Auto_Merge\<close> decides whether a finished branch is merged unattended
    (\<open>auto_merge.rs\<close>, \<open>merge/completion.rs\<close>), \<open>Merge_Queue\<close> merges one after the other
    (\<open>daemon/merge_queue.rs\<close>), \<open>Command_Errors\<close> and \<open>Retry\<close> are the classification and repetition of failed commands
    (\<open>errors.rs\<close>, \<open>git_cmd.rs\<close>, \<open>board_cmd.rs\<close>, \<open>retry.rs\<close>).
  \<^item> The loop itself.  \<open>Error_Budget\<close> is one tick of the daemon with the supervision of its subsystems
    (\<open>daemon/poll.rs\<close>, \<open>daemon/error_handling.rs\<close>, \<open>daemon/telemetry.rs\<close>).

  \<open>Batty_Prelude\<close> holds the string methods and integer types of Rust and the lemmas on lists that the
  parts share, \<open>Ordered_Map\<close> the ordered maps.  A struct is a record, an enum a datatype, each with the source's
  names; a \<open>u32\<close> or \<open>u64\<close> that is computed with is a word, an id a \<open>nat\<close> below its bound; text is
  its UTF-8 bytes, and letters and white space are told apart as in ASCII.

  \<^bold>\<open>What the lemmas show.\<close>

  \<^item> Task files: rendering and splitting are inverse; the repair settles after one read, so a second load changes
    nothing; it rewrites time stamps in an old format and the three block fields and no other key
    (\<open>normalize_mapping_settled\<close>); the search by id is sound and complete; metadata are read back as written.
  \<^item> Commands: the locale \<open>task_edit\<close> says that an edit of the mapping implements a function on tasks, and is
    interpreted for every edit; \<open>transition_files\<close> says of any transition command which of its ends leaves which
    files, log and inbox.  From these: a successful transition described key by key, what a failed one leaves
    (including a log that refuses the entry after the file was rewritten), reviews, reclaims and dependencies.
  \<^item> The review gate: the locale \<open>gated_machine\<close>, interpreted on the workflow metadata and (as
    \<open>board_gate\<close>) on commands on the board: no way to done but through in-progress and then review; and the
    exact reachability relation of the states.
  \<^item> Dependencies: the cycle search always returns and is exact, the critical path is a longest chain, the listings and
    renderings are total and complete, up to the titles that panic.
  \<^item> Team: the two validators compared, names unique, engineers partitioned over managers, reporting lines well
    founded, every duty of the workflow held.
  \<^item> Dispatch: the loop that fills the queue ends, queues only what is available for whom it may, and leaves no idle engineer
    without work it could take; the drain sends only past every guard, keeps jobs with a bounded count of
    failures, and loses the queue exactly when an error comes after it was taken.
  \<^item> Merging and supervision: an unattended merge passed every check on what git said; the merge queue refines a
    first-in first-out queue that an erring merge empties; a failing subsystem never costs another its turn,
    and what switches an optional one off.

  \<^bold>\<open>Bounds and fuel.\<close>  The searches of \<open>Deps\<close> take the depth they may still descend; the number of
  nodes is enough, since a path has no node twice.  The filling of the queue takes a number of rounds; one for each task
  and a last one are enough, since every round queues or excludes a task or adds a dependency that holds one back
  (\<open>enqueue_terminates\<close>), outside the case in which the program itself never ends (\<open>enqueue_never_ends\<close>).

  \<^bold>\<open>What is taken for granted.\<close>  The YAML, TOML, RFC 3339, cron and regex libraries, git, the database, the launch of
  agents and the delivery of messages are parameters; what is assumed of them is named: \<open>lawful_yaml\<close> and
  \<open>lawful_time\<close> (what is printed is read back), \<open>queue_untouched\<close> and \<open>reconcile_keeps_queue\<close> (launches, messages
  and the reconciliation leave the dispatch queue alone), \<open>leaves_queue\<close> (a merge makes no requests),
  \<open>adds_to_tick\<close> and \<open>leaves_budget_alone\<close> (subsystems only add to the errors of a tick, and leave their own
  switch alone).  Task files can be read and written; the activity log may refuse an entry.

  \<^bold>\<open>What is not modelled.\<close>  Text fields of front matter that are written otherwise than their value is printed
  (\<open>title: 1.10\<close>): the program reads the text of the scalar and an edit reprints its value, the model knows the
  value alone.  The errors that end the filling of the queue in a later round (the board cannot be read again,
  dependencies cannot be appended).  Rounding of \<open>f64\<close> scores.  The merge of one branch, worktrees,
  the reconciliation of active tasks, task aging and the archive, the parsers of test output, telemetry queries, chat
  bridges, terminal sessions and the command line, which are effects on the outside or read from it.
\<close>

end
